(* ===== verification/Prelude.thy ===== *)
theory Prelude
  imports Main "HOL-Library.Word" "HOL-Library.Sublist"
begin

unbundle bit_operations_syntax

text \<open>
  The vocabulary every component shares: the machine integer types, the result type of fallible
  operations, checked indexing and slice writes as Rust performs them, and the little-endian
  byte encodings (\<open>to_le_bytes\<close>, \<open>from_le_bytes\<close>) with their round trip.
\<close>

section \<open>Machine integers and bytes\<close>

type_synonym u8 = "8 word"
type_synonym u16 = "16 word"
type_synonym u32 = "32 word"
type_synonym u64 = "64 word"
type_synonym i32 = "32 word"
type_synonym i64 = "64 word"

text \<open>\<open>usize\<close> is 64 bits wide on the only target of this crate.\<close>

type_synonym usize = "64 word"
type_synonym bytes = "u8 list"

named_theorems le_simps \<open>lengths and round trips of the little-endian encodings\<close>
named_theorems rd_simps \<open>what a read primitive returns on a buffer built by the matching write\<close>
named_theorems emit_simps \<open>what an emission primitive appends\<close>

section \<open>Results\<close>

text \<open>
  An operation returns a value, reports an error message (\<open>Err\<close> in the source), panics (an index
  out of range, an \<open>unwrap\<close> or \<open>expect\<close> that fails, an \<open>unreachable!\<close>), or runs for ever.
\<close>

datatype fault = Fault string | Panic | Diverge

type_synonym 'a res = "fault + 'a"

definition bindr :: "'a res \<Rightarrow> ('a \<Rightarrow> 'b res) \<Rightarrow> 'b res" where
  "bindr m f = (case m of Inl e \<Rightarrow> Inl e | Inr x \<Rightarrow> f x)"

lemma bindr_simps [simp]:
  "bindr (Inl e) f = Inl e"
  "bindr (Inr x) f = f x"
  by (simp_all add: bindr_def)

lemma bindr_Inr_conv: "bindr m f = Inr y \<longleftrightarrow> (\<exists>x. m = Inr x \<and> f x = Inr y)"
  by (cases m) auto

lemma bindr_Inl_conv:
  "bindr m f = Inl e \<longleftrightarrow> m = Inl e \<or> (\<exists>x. m = Inr x \<and> f x = Inl e)"
  by (cases m) auto

lemma bindr_cong [fundef_cong]:
  "m = m' \<Longrightarrow> (\<And>x. m' = Inr x \<Longrightarrow> f x = g x) \<Longrightarrow> bindr m f = bindr m' g"
  by (cases m') auto

lemma bindr_assoc: "bindr (bindr m f) g = bindr m (\<lambda>x. bindr (f x) g)"
  by (cases m) auto

text \<open>\<open>xs[i]\<close> in the source: a panic when out of range.\<close>

definition idx :: "'a list \<Rightarrow> nat \<Rightarrow> 'a res" where
  "idx xs i = (if i < length xs then Inr (xs ! i) else Inl Panic)"

lemma idx_Inr_conv: "idx xs i = Inr x \<longleftrightarrow> i < length xs \<and> x = xs ! i"
  by (auto simp: idx_def)

lemma idx_ok [simp]: "i < length xs \<Longrightarrow> idx xs i = Inr (xs ! i)"
  by (simp add: idx_def)

text \<open>\<open>xs.get(i).copied()\<close>.\<close>

definition get_opt :: "'a list \<Rightarrow> nat \<Rightarrow> 'a option" where
  "get_opt xs i = (if i < length xs then Some (xs ! i) else None)"

text \<open>\<open>xs[at..at + n].copy_from_slice(bs)\<close> with \<open>n = bs.len()\<close>.\<close>

definition splice :: "'a list \<Rightarrow> nat \<Rightarrow> 'a list \<Rightarrow> 'a list" where
  "splice xs at bs = take at xs @ bs @ drop (at + length bs) xs"

definition put_slice :: "'a list \<Rightarrow> nat \<Rightarrow> 'a list \<Rightarrow> 'a list res" where
  "put_slice xs at bs = (if at + length bs \<le> length xs then Inr (splice xs at bs) else Inl Panic)"

lemma length_splice [simp]:
  "at + length bs \<le> length xs \<Longrightarrow> length (splice xs at bs) = length xs"
  by (simp add: splice_def)

lemma nth_splice:
  "at + length bs \<le> length xs \<Longrightarrow> i < length xs \<Longrightarrow>
   splice xs at bs ! i = (if at \<le> i \<and> i < at + length bs then bs ! (i - at) else xs ! i)"
  by (auto simp: splice_def nth_append min_def)

lemma put_slice_Inr_conv:
  "put_slice xs at bs = Inr ys \<longleftrightarrow> at + length bs \<le> length xs \<and> ys = splice xs at bs"
  by (auto simp: put_slice_def)

lemma splice_read:
  "at + length bs \<le> length xs \<Longrightarrow> take (length bs) (drop at (splice xs at bs)) = bs"
  by (simp add: splice_def)

section \<open>Little-endian bytes\<close>

fun to_le :: "nat \<Rightarrow> 'a::len word \<Rightarrow> bytes" where
  "to_le 0 w = []"
| "to_le (Suc n) w = ucast w # to_le n (drop_bit 8 w)"

fun from_le :: "bytes \<Rightarrow> 'a::len word" where
  "from_le [] = 0"
| "from_le (b # bs) = ucast b OR push_bit 8 (from_le bs)"

abbreviation le16 :: "u16 \<Rightarrow> bytes" where "le16 \<equiv> to_le 2"
abbreviation le32 :: "u32 \<Rightarrow> bytes" where "le32 \<equiv> to_le 4"
abbreviation le64 :: "u64 \<Rightarrow> bytes" where "le64 \<equiv> to_le 8"

lemma length_to_le [simp, le_simps]: "length (to_le n w) = n"
  by (induction n arbitrary: w) auto

lemma from_le_to_le_take: "from_le (to_le n w) = take_bit (8 * n) (w :: 'a::len word)"
proof (induction n arbitrary: w)
  case 0
  then show ?case by simp
next
  case (Suc n)
  show ?case
    by (rule bit_word_eqI) (auto simp: Suc.IH bit_simps not_less)
qed

lemma from_le_le16 [simp, le_simps]: "from_le (le16 w) = w"
  by (subst from_le_to_le_take) (rule bit_word_eqI, simp add: bit_simps)

lemma from_le_le32 [simp, le_simps]: "from_le (le32 w) = w"
  by (subst from_le_to_le_take) (rule bit_word_eqI, simp add: bit_simps)

lemma from_le_le64 [simp, le_simps]: "from_le (le64 w) = w"
  by (subst from_le_to_le_take) (rule bit_word_eqI, simp add: bit_simps)

lemma to_le_eq_Nil_conv [simp]: "to_le n w = [] \<longleftrightarrow> n = 0"
  by (cases n) auto

text \<open>A Rust length stored in 4 or 8 bytes is read back unless it does not fit.\<close>

lemma unat_of_nat_u32 [simp]: "n < 2 ^ 32 \<Longrightarrow> unat (of_nat n :: u32) = n"
  by (simp add: unat_of_nat take_bit_nat_eq_self)

lemma unat_of_nat_u64 [simp]: "n < 2 ^ 64 \<Longrightarrow> unat (of_nat n :: u64) = n"
  by (simp add: unat_of_nat take_bit_nat_eq_self)

lemma unat_u32_less: "unat (w :: u32) < 2 ^ 32"
  using unsigned_less [of w, where 'a = nat] by simp

lemma unat_u64_less: "unat (w :: u64) < 2 ^ 64"
  using unsigned_less [of w, where 'a = nat] by simp

lemma unat_u8_less: "unat (w :: u8) < 2 ^ 8"
  using unsigned_less [of w, where 'a = nat] by simp

lemma unat_Suc_u32: "unat (w :: u32) + 1 < 2 ^ 32 \<Longrightarrow> unat (w + 1) = unat w + 1"
  by (simp add: unat_word_ariths)

section \<open>Text\<close>

definition ascii :: "string \<Rightarrow> bytes" where
  "ascii s = map (\<lambda>c. of_nat (of_char c)) s"

section \<open>Alignment\<close>

text \<open>\<open>v.div_ceil(a) * a\<close>: the helper \<open>align_up\<close> of the writers and the page rounding of the JIT.\<close>

definition div_ceil :: "nat \<Rightarrow> nat \<Rightarrow> nat" where
  "div_ceil v a = (if v mod a = 0 then v div a else v div a + 1)"

definition align_up :: "nat \<Rightarrow> nat \<Rightarrow> nat" where
  "align_up v a = div_ceil v a * a"

lemma div_ceil_bounds:
  assumes "0 < a"
  shows "v \<le> div_ceil v a * a" and "div_ceil v a * a < v + a"
proof -
  obtain q r where qr: "q = v div a" "r = v mod a" by simp
  have v: "v = q * a + r" and r: "r < a"
    using assms by (simp_all add: qr)
  have d: "div_ceil v a = (if r = 0 then q else q + 1)"
    by (simp add: div_ceil_def qr)
  show "v \<le> div_ceil v a * a"
    using r v unfolding d by simp
  show "div_ceil v a * a < v + a"
    using r v unfolding d by simp
qed

lemma align_up_ge: "0 < a \<Longrightarrow> v \<le> align_up v a"
  by (simp add: align_up_def div_ceil_bounds)

lemma align_up_less: "0 < a \<Longrightarrow> align_up v a < v + a"
  by (simp add: align_up_def div_ceil_bounds)

lemma align_up_dvd [simp]: "a dvd align_up v a"
  by (simp add: align_up_def)

lemma align_up_id: "0 < a \<Longrightarrow> a dvd v \<Longrightarrow> align_up v a = v"
  by (auto simp: align_up_def div_ceil_def)

lemma align_up_add:
  assumes "a dvd b"
  shows "align_up (b + v) a = b + align_up v a"
proof -
  have "(b + v) mod a = v mod a" using assms by (metis mod_add_left_eq dvd_imp_mod_0 add_0)
  moreover have "(b + v) div a = b div a + v div a" using assms by (rule div_plus_div_distrib_dvd_left)
  moreover have "b div a * a = b" using assms by simp
  ultimately show ?thesis by (simp add: align_up_def div_ceil_def distrib_right)
qed

text \<open>\<open>align_up v a\<close> is the least multiple of \<open>a\<close> that is not below \<open>v\<close>.\<close>

lemma align_up_least: "0 < a \<Longrightarrow> v \<le> k * a \<Longrightarrow> align_up v a \<le> k * a"
proof -
  assume "0 < a" "v \<le> k * a"
  then have "div_ceil v a * a < (k + 1) * a"
    using div_ceil_bounds(2) [of a v] by simp
  then have "div_ceil v a < k + 1" using mult_less_cancel2 by blast
  then show ?thesis by (simp add: align_up_def)
qed

lemma align_up_mono: "0 < a \<Longrightarrow> v \<le> w \<Longrightarrow> align_up v a \<le> align_up w a"
  using align_up_least [of a v "div_ceil w a"] align_up_ge [of a w]
  by (simp add: align_up_def)

end
