(* ===== verification/Utf8.thy ===== *)
theory Utf8
  imports Prelude
begin

text \<open>
  Strings of the source are UTF-8 byte sequences. The only operation of the standard library on
  them that changes bytes is \<open>String::from_utf8_lossy\<close>: it keeps well-formed sequences and
  writes U+FFFD for each maximal ill-formed one. The serializer reads every name through it, so
  the round trip of the serializer rests on \<open>utf8_lossy_valid\<close>.
\<close>

section \<open>One sequence\<close>

definition byte_at :: "bytes \<Rightarrow> nat \<Rightarrow> u8" where
  "byte_at bs i = (if i < length bs then bs ! i else 0)"

definition utf8_cont :: "u8 \<Rightarrow> bool" where
  "utf8_cont b \<longleftrightarrow> b AND 192 = 128"

definition utf8_second3 :: "u8 \<Rightarrow> u8 \<Rightarrow> bool" where
  "utf8_second3 b c \<longleftrightarrow>
     (if b = 0xE0 then 0xA0 \<le> c \<and> c \<le> 0xBF
      else if b = 0xED then 0x80 \<le> c \<and> c \<le> 0x9F
      else 0x80 \<le> c \<and> c \<le> 0xBF)"

definition utf8_second4 :: "u8 \<Rightarrow> u8 \<Rightarrow> bool" where
  "utf8_second4 b c \<longleftrightarrow>
     (if b = 0xF0 then 0x90 \<le> c \<and> c \<le> 0xBF
      else if b = 0xF4 then 0x80 \<le> c \<and> c \<le> 0x8F
      else 0x80 \<le> c \<and> c \<le> 0xBF)"

text \<open>Whether the buffer starts with a well-formed sequence, and how many bytes to consume.\<close>

definition utf8_class :: "u8 \<Rightarrow> u8 \<Rightarrow> u8 \<Rightarrow> u8 \<Rightarrow> bool \<times> nat" where
  "utf8_class b c d e =
     (if b < 0x80 then (True, 1)
      else if 0xC2 \<le> b \<and> b \<le> 0xDF then
        (if utf8_cont c then (True, 2) else (False, 1))
      else if 0xE0 \<le> b \<and> b \<le> 0xEF then
        (if \<not> utf8_second3 b c then (False, 1)
         else if utf8_cont d then (True, 3) else (False, 2))
      else if 0xF0 \<le> b \<and> b \<le> 0xF4 then
        (if \<not> utf8_second4 b c then (False, 1)
         else if \<not> utf8_cont d then (False, 2)
         else if utf8_cont e then (True, 4) else (False, 3))
      else (False, 1))"

definition utf8_step :: "bytes \<Rightarrow> bool \<times> nat" where
  "utf8_step bs = utf8_class (byte_at bs 0) (byte_at bs 1) (byte_at bs 2) (byte_at bs 3)"

lemma utf8_step_pos: "utf8_step bs = (ok, n) \<Longrightarrow> 0 < n"
  by (auto simp: utf8_step_def utf8_class_def split: if_splits)

lemma byte_at_neq_0: "byte_at bs i \<noteq> 0 \<Longrightarrow> i < length bs"
  by (auto simp: byte_at_def split: if_splits)

lemma utf8_nonzero [simp]:
  "\<not> utf8_cont 0" "\<not> utf8_second3 b 0" "\<not> utf8_second4 b 0"
  by (auto simp: utf8_cont_def utf8_second3_def utf8_second4_def)

text \<open>A well-formed sequence of \<open>n\<close> bytes has no zero byte after its first.\<close>

lemma utf8_class_True:
  assumes "utf8_class b c d e = (True, n)"
  shows "n \<in> {1, 2, 3, 4}" and "2 \<le> n \<Longrightarrow> c \<noteq> 0" and "3 \<le> n \<Longrightarrow> d \<noteq> 0" and "4 \<le> n \<Longrightarrow> e \<noteq> 0"
  using assms by (auto simp: utf8_class_def split: if_splits)

lemma utf8_class_agree:
  assumes "utf8_class b c d e = (True, n)"
    and "b' = b" and "2 \<le> n \<Longrightarrow> c' = c" and "3 \<le> n \<Longrightarrow> d' = d" and "4 \<le> n \<Longrightarrow> e' = e"
  shows "utf8_class b' c' d' e' = (True, n)"
  using assms unfolding utf8_class_def by (auto split: if_splits)

lemma utf8_step_length:
  assumes "bs \<noteq> []" and "utf8_step bs = (True, n)"
  shows "n \<le> length bs"
proof -
  note c = utf8_class_True [OF assms(2) [unfolded utf8_step_def]]
  have "2 \<le> n \<Longrightarrow> 1 < length bs" and "3 \<le> n \<Longrightarrow> 2 < length bs" and "4 \<le> n \<Longrightarrow> 3 < length bs"
    using c(2-4) by (auto intro: byte_at_neq_0)
  moreover have "0 < length bs" using assms(1) by simp
  ultimately show ?thesis using c(1) by (auto simp: Suc_le_eq)
qed

lemma byte_at_take_append: "i < n \<Longrightarrow> n \<le> length bs \<Longrightarrow> byte_at (take n bs @ ys) i = byte_at bs i"
  by (simp add: byte_at_def nth_append)

lemma utf8_step_take:
  assumes "bs \<noteq> []" and "utf8_step bs = (True, n)"
  shows "utf8_step (take n bs @ ys) = (True, n)"
  unfolding utf8_step_def
  by (rule utf8_class_agree [OF assms(2) [unfolded utf8_step_def]];
      rule byte_at_take_append;
      use assms utf8_step_length [OF assms] utf8_step_pos [OF assms(2)] in simp)

section \<open>Whole strings\<close>

function valid_utf8 :: "bytes \<Rightarrow> bool" where
  "valid_utf8 [] = True"
| "valid_utf8 (b # bs) =
     (case utf8_step (b # bs) of (ok, n) \<Rightarrow> ok \<and> valid_utf8 (drop n (b # bs)))"
  by pat_completeness auto
termination
  by (relation "measure length") (auto dest!: utf8_step_pos [OF sym])

function utf8_lossy :: "bytes \<Rightarrow> bytes" where
  "utf8_lossy [] = []"
| "utf8_lossy (b # bs) =
     (case utf8_step (b # bs) of (ok, n) \<Rightarrow>
        (if ok then take n (b # bs) else [0xEF, 0xBF, 0xBD]) @ utf8_lossy (drop n (b # bs)))"
  by pat_completeness auto
termination
  by (relation "measure length") (auto dest!: utf8_step_pos [OF sym])

declare valid_utf8.simps(2) [simp del] utf8_lossy.simps(2) [simp del]

lemma valid_utf8_unfold:
  "bs \<noteq> [] \<Longrightarrow>
   valid_utf8 bs = (case utf8_step bs of (ok, n) \<Rightarrow> ok \<and> valid_utf8 (drop n bs))"
  by (cases bs) (simp_all add: valid_utf8.simps)

lemma utf8_lossy_valid: "valid_utf8 bs \<Longrightarrow> utf8_lossy bs = bs"
  by (induction bs rule: valid_utf8.induct)
    (auto simp: valid_utf8.simps utf8_lossy.simps split: prod.splits)

lemma valid_utf8_replacement: "valid_utf8 bs \<Longrightarrow> valid_utf8 ([0xEF, 0xBF, 0xBD] @ bs)"
  by (subst valid_utf8_unfold)
    (simp_all add: utf8_step_def utf8_class_def byte_at_def utf8_cont_def utf8_second3_def)

lemma valid_utf8_lossy: "valid_utf8 (utf8_lossy bs)"
proof (induction bs rule: utf8_lossy.induct)
  case 1
  show ?case by simp
next
  case (2 b bs)
  obtain ok n where s: "utf8_step (b # bs) = (ok, n)" by fastforce
  with 2 have IH: "valid_utf8 (utf8_lossy (drop n (b # bs)))" by simp
  show ?case
  proof (cases ok)
    case True
    with s have n: "n \<le> length (b # bs)" "0 < n"
      using utf8_step_length [of "b # bs" n] utf8_step_pos by auto
    from True s have "utf8_step (take n (b # bs) @ utf8_lossy (drop n (b # bs))) = (True, n)"
      by (intro utf8_step_take) simp_all
    with n IH have "valid_utf8 (take n (b # bs) @ utf8_lossy (drop n (b # bs)))"
      by (subst valid_utf8_unfold) (auto simp: min_def)
    with s True show ?thesis by (simp add: utf8_lossy.simps)
  next
    case False
    with s valid_utf8_replacement [OF IH] show ?thesis by (simp add: utf8_lossy.simps)
  qed
qed

lemma length_utf8_lossy: "length (utf8_lossy bs) \<le> 3 * length bs"
proof (induction bs rule: utf8_lossy.induct)
  case 1
  show ?case by simp
next
  case (2 b bs)
  obtain ok n where s: "utf8_step (b # bs) = (ok, n)" by fastforce
  with 2 have IH: "length (utf8_lossy (drop n (b # bs))) \<le> 3 * length (drop n (b # bs))" by simp
  have "0 < n" using s by (rule utf8_step_pos)
  then show ?case
    using IH s by (auto simp: utf8_lossy.simps)
qed

text \<open>ASCII strings are well formed.\<close>

lemma valid_utf8_ascii: "\<forall>b \<in> set bs. b < 0x80 \<Longrightarrow> valid_utf8 bs"
  by (induction bs) (auto simp: valid_utf8.simps utf8_step_def utf8_class_def byte_at_def)

end
