(* ===== verification/Codec.thy ===== *)
theory Codec
  imports Utf8
begin

text \<open>
  The position-based reader of \<open>src/mc_serialize.rs\<close> and the contract between a writer and its
  reader, the locale \<open>codec\<close>: a reader returns exactly what the writer stored and consumes exactly
  its bytes, and fails with an error message (never a panic) on a proper prefix of them, as long as
  the buffer fits the address space. The two
  laws are closed under counted repetition and under sequencing, which the locales prove once.
\<close>

section \<open>The reader\<close>

record reader =
  rd_buf :: bytes
  rd_pos :: nat

definition rd_new :: "bytes \<Rightarrow> reader" where
  "rd_new bs = \<lparr>rd_buf = bs, rd_pos = 0\<rparr>"

definition rd_is_empty :: "reader \<Rightarrow> bool" where
  "rd_is_empty r \<longleftrightarrow> length (rd_buf r) \<le> rd_pos r"

definition rd_peek :: "reader \<Rightarrow> u8 res" where
  "rd_peek r = (if rd_pos r < length (rd_buf r) then Inr (rd_buf r ! rd_pos r)
     else Inl (Fault ''machine code: truncated''))"

definition rd_byte :: "reader \<Rightarrow> (u8 \<times> reader) res" where
  "rd_byte r = bindr (rd_peek r) (\<lambda>b. Inr (b, r\<lparr>rd_pos := rd_pos r + 1\<rparr>))"

definition rd_u64 :: "reader \<Rightarrow> (u64 \<times> reader) res" where
  "rd_u64 r = (if length (rd_buf r) < rd_pos r + 8 then Inl (Fault ''machine code: truncated u64'')
     else Inr (from_le (take 8 (drop (rd_pos r) (rd_buf r))), r\<lparr>rd_pos := rd_pos r + 8\<rparr>))"

definition rd_u32 :: "reader \<Rightarrow> (u32 \<times> reader) res" where
  "rd_u32 r = (if length (rd_buf r) < rd_pos r + 4 then Inl (Fault ''machine code: truncated u32'')
     else Inr (from_le (take 4 (drop (rd_pos r) (rd_buf r))), r\<lparr>rd_pos := rd_pos r + 4\<rparr>))"

text \<open>
  \<open>self.pos + n\<close> is a \<open>usize\<close> addition. When it overflows, a debug build panics on the addition; a
  release build wraps, passes the bounds check and panics on the slice \<open>bytes[pos..pos + n]\<close>, whose
  start then lies beyond its end. A buffer has fewer than \<open>2 ^ 64\<close> bytes, so the bounds test can
  come first.
\<close>

definition rd_bytes :: "nat \<Rightarrow> reader \<Rightarrow> (bytes \<times> reader) res" where
  "rd_bytes n r =
     (if rd_pos r + n \<le> length (rd_buf r)
      then Inr (take n (drop (rd_pos r) (rd_buf r)), r\<lparr>rd_pos := rd_pos r + n\<rparr>)
      else if rd_pos r + n < 2 ^ 64 then Inl (Fault ''machine code: truncated'')
      else Inl Panic)"

definition rd_str :: "reader \<Rightarrow> (bytes \<times> reader) res" where
  "rd_str r = bindr (rd_u32 r) (\<lambda>(len, r). bindr (rd_bytes (unat len) r)
     (\<lambda>(b, r). Inr (utf8_lossy b, r)))"

text \<open>\<open>for _ in 0..n { v.push(r.x()?) }\<close>, and the same after a \<open>u32\<close> count.\<close>

fun rd_many :: "nat \<Rightarrow> (reader \<Rightarrow> ('a \<times> reader) res) \<Rightarrow> reader \<Rightarrow> ('a list \<times> reader) res" where
  "rd_many 0 d r = Inr ([], r)"
| "rd_many (Suc n) d r = bindr (d r) (\<lambda>(x, r). bindr (rd_many n d r) (\<lambda>(xs, r). Inr (x # xs, r)))"

definition rd_counted :: "(reader \<Rightarrow> ('a \<times> reader) res) \<Rightarrow> reader \<Rightarrow> ('a list \<times> reader) res" where
  "rd_counted d r = bindr (rd_u32 r) (\<lambda>(n, r). rd_many (unat n) d r)"

section \<open>Reading what was written\<close>

text \<open>A reader that has consumed \<open>pre\<close> and has \<open>post\<close> before it.\<close>

definition window :: "bytes \<Rightarrow> bytes \<Rightarrow> reader" where
  "window pre post = \<lparr>rd_buf = pre @ post, rd_pos = length pre\<rparr>"

lemma rd_new_window: "rd_new bs = window [] bs"
  by (simp add: rd_new_def window_def)

lemma window_empty [simp, rd_simps]: "rd_is_empty (window pre post) \<longleftrightarrow> post = []"
  by (auto simp: rd_is_empty_def window_def)

lemma window_advance:
  "(window pre (xs @ post))\<lparr>rd_pos := length pre + length xs\<rparr> = window (pre @ xs) post"
  by (simp add: window_def)

lemma window_sel [simp]:
  "rd_buf (window pre post) = pre @ post" "rd_pos (window pre post) = length pre"
  by (simp_all add: window_def)

lemma rd_byte_window [rd_simps]:
  "rd_byte (window pre (b # post)) = Inr (b, window (pre @ [b]) post)"
  by (simp add: rd_byte_def rd_peek_def window_def)

lemma rd_u64_window [rd_simps]:
  "rd_u64 (window pre (le64 w @ post)) = Inr (w, window (pre @ le64 w) post)"
  by (simp add: rd_u64_def window_def)

lemma rd_u32_window [rd_simps]:
  "rd_u32 (window pre (le32 w @ post)) = Inr (w, window (pre @ le32 w) post)"
  by (simp add: rd_u32_def window_def)

lemma rd_bytes_window [rd_simps]:
  "n = length bs \<Longrightarrow> rd_bytes n (window pre (bs @ post)) = Inr (bs, window (pre @ bs) post)"
  by (simp add: rd_bytes_def window_def)

section \<open>The contract of a writer and its reader\<close>

text \<open>Failure with a message, as opposed to a panic.\<close>

definition faults :: "'a res \<Rightarrow> bool" where
  "faults m \<longleftrightarrow> (case m of Inl (Fault msg) \<Rightarrow> True | _ \<Rightarrow> False)"

lemma faults_simps [simp]:
  "faults (Inl (Fault msg))" "\<not> faults (Inl Panic)" "\<not> faults (Inl Diverge)" "\<not> faults (Inr x)"
  by (simp_all add: faults_def)

lemma faults_bindr: "faults m \<Longrightarrow> faults (bindr m f)"
  by (cases m) (auto simp: faults_def)

text \<open>
  \<open>reads_as d c x\<close>: in front of the bytes \<open>c\<close> the reader \<open>d\<close> returns \<open>x\<close> and stops right behind
  them; on a proper prefix of \<open>c\<close> it reports an error.
\<close>

definition reads_as :: "(reader \<Rightarrow> ('a \<times> reader) res) \<Rightarrow> bytes \<Rightarrow> 'a \<Rightarrow> bool" where
  "reads_as d c x \<longleftrightarrow>
     (\<forall>pre post. d (window pre (c @ post)) = Inr (x, window (pre @ c) post)) \<and>
     (\<forall>pre zs. strict_prefix zs c \<longrightarrow> length pre + length c < 2 ^ 64 \<longrightarrow> faults (d (window pre zs)))"

lemma reads_asI:
  assumes "\<And>pre post. d (window pre (c @ post)) = Inr (x, window (pre @ c) post)"
    and "\<And>pre zs. strict_prefix zs c \<Longrightarrow> length pre + length c < 2 ^ 64 \<Longrightarrow> faults (d (window pre zs))"
  shows "reads_as d c x"
  using assms by (simp add: reads_as_def)

lemma reads_asD:
  assumes "reads_as d c x"
  shows "d (window pre (c @ post)) = Inr (x, window (pre @ c) post)"
    and "d (window pre c) = Inr (x, window (pre @ c) [])"
    and "strict_prefix zs c \<Longrightarrow> length pre + length c < 2 ^ 64 \<Longrightarrow> faults (d (window pre zs))"
proof -
  show *: "d (window pre (c @ post)) = Inr (x, window (pre @ c) post)" for post
    using assms by (simp add: reads_as_def)
  show "d (window pre c) = Inr (x, window (pre @ c) [])"
    using * [of "[]"] by simp
  show "strict_prefix zs c \<Longrightarrow> length pre + length c < 2 ^ 64 \<Longrightarrow> faults (d (window pre zs))"
    using assms by (simp add: reads_as_def)
qed

lemma strict_prefix_append_cases:
  assumes "strict_prefix ys (a @ b)"
  obtains "strict_prefix ys a" | zs where "ys = a @ zs" "strict_prefix zs b"
proof (cases "strict_prefix ys a")
  case True
  then show ?thesis by (rule that(1))
next
  case False
  with assms have "\<exists>zs. ys = a @ zs \<and> strict_prefix zs b"
    by (auto simp: strict_prefix_def prefix_append)
  then show ?thesis using that(2) by blast
qed

lemma reads_return: "reads_as (\<lambda>r. Inr (x, r)) [] x"
  by (simp add: reads_as_def)

lemma reads_bind:
  assumes "reads_as d a x" and "reads_as (k x) b y"
  shows "reads_as (\<lambda>r. bindr (d r) (\<lambda>(x, r). k x r)) (a @ b) y"
proof (rule reads_asI)
  fix pre post :: bytes
  show "bindr (d (window pre ((a @ b) @ post))) (\<lambda>(x, r). k x r) = Inr (y, window (pre @ a @ b) post)"
    using reads_asD(1) [OF assms(1), of pre "b @ post"] reads_asD(1) [OF assms(2), of "pre @ a" post]
    by simp
next
  fix pre zs :: bytes
  assume "strict_prefix zs (a @ b)" and len: "length pre + length (a @ b) < 2 ^ 64"
  then show "faults (bindr (d (window pre zs)) (\<lambda>(x, r). k x r))"
  proof (cases rule: strict_prefix_append_cases)
    case 1
    then have "faults (d (window pre zs))"
      using len by (intro reads_asD(3) [OF assms(1)]) simp_all
    then show ?thesis by (rule faults_bindr)
  next
    case (2 us)
    have "faults (k x (window (pre @ a) us))"
      using 2(2) len by (intro reads_asD(3) [OF assms(2)]) simp_all
    then show ?thesis using 2(1) by (simp add: reads_asD(1) [OF assms(1)])
  qed
qed

lemma reads_last:
  assumes "reads_as d a x" and "\<And>r. k x r = Inr (y, r)"
  shows "reads_as (\<lambda>r. bindr (d r) (\<lambda>(x, r). k x r)) a y"
proof -
  have "k x = (\<lambda>r. Inr (y, r))" using assms(2) by auto
  then show ?thesis using reads_bind [OF assms(1), of k "[]" y] by (simp add: reads_return)
qed

text \<open>A pure check between two reads.\<close>

lemma reads_check:
  assumes "m = Inr v" and "reads_as (k v) a x"
  shows "reads_as (\<lambda>r. bindr m (\<lambda>v. k v r)) a x"
  using assms by simp

locale codec =
  fixes enc :: "'a \<Rightarrow> bytes"
    and dec :: "reader \<Rightarrow> ('a \<times> reader) res"
    and ok :: "'a \<Rightarrow> bool"
  assumes reads: "ok x \<Longrightarrow> reads_as dec (enc x) x"
begin

lemma dec_enc: "ok x \<Longrightarrow> dec (window pre (enc x @ post)) = Inr (x, window (pre @ enc x) post)"
  by (rule reads_asD(1) [OF reads])

lemma reads_many: "list_all ok xs \<Longrightarrow> reads_as (rd_many (length xs) dec) (concat (map enc xs)) xs"
proof (induction xs)
  case Nil
  show ?case by (simp add: reads_return [unfolded reads_as_def] reads_as_def)
next
  case (Cons x xs)
  then have "reads_as (\<lambda>r. bindr (dec r) (\<lambda>(x, r). bindr (rd_many (length xs) dec r) (\<lambda>(xs, r). Inr (x # xs, r))))
      (enc x @ concat (map enc xs)) (x # xs)"
    by (intro reads_bind [OF reads] reads_last) simp_all
  then show ?case by (simp add: reads_as_def)
qed

end

text \<open>A sequence of two fields is read by the two readers in turn.\<close>

definition rd_pair ::
  "(reader \<Rightarrow> ('a \<times> reader) res) \<Rightarrow> (reader \<Rightarrow> ('b \<times> reader) res) \<Rightarrow> reader \<Rightarrow> (('a \<times> 'b) \<times> reader) res"
where
  "rd_pair d1 d2 r = bindr (d1 r) (\<lambda>(x, r). bindr (d2 r) (\<lambda>(y, r). Inr ((x, y), r)))"

locale codec_pair = fst: codec enc1 dec1 ok1 + snd: codec enc2 dec2 ok2
  for enc1 :: "'a \<Rightarrow> bytes" and dec1 ok1 and enc2 :: "'b \<Rightarrow> bytes" and dec2 ok2
begin

lemma pair_codec:
  "codec (\<lambda>(x, y). enc1 x @ enc2 y) (rd_pair dec1 dec2) (\<lambda>(x, y). ok1 x \<and> ok2 y)"
proof (unfold_locales, clarify)
  fix x y assume "ok1 x" and "ok2 y"
  then show "reads_as (rd_pair dec1 dec2) (enc1 x @ enc2 y) (x, y)"
    unfolding rd_pair_def
    by (intro reads_bind [OF fst.reads] reads_last [OF snd.reads]) simp_all
qed

end

section \<open>The primitive codecs\<close>

lemma strict_prefix_length: "strict_prefix ys xs \<Longrightarrow> length ys < length xs"
  by (simp add: prefix_length_less)

interpretation byte: codec "\<lambda>b. [b]" rd_byte "\<lambda>_. True"
  by unfold_locales
    (auto simp: reads_as_def rd_byte_def rd_peek_def window_def strict_prefix_def prefix_Cons)

interpretation u64: codec le64 rd_u64 "\<lambda>_. True"
  by unfold_locales
    (auto simp: reads_as_def rd_simps rd_u64_def dest!: strict_prefix_length)

interpretation u32: codec le32 rd_u32 "\<lambda>_. True"
  by unfold_locales
    (auto simp: reads_as_def rd_simps rd_u32_def dest!: strict_prefix_length)

lemma reads_bytes: "n = length bs \<Longrightarrow> reads_as (rd_bytes n) bs bs"
  by (rule reads_asI) (auto simp: rd_simps rd_bytes_def dest!: strict_prefix_length)

text \<open>A \<open>u32\<close> count followed by the elements, and a \<open>u32\<close> length followed by a name.\<close>

definition enc_counted :: "('a \<Rightarrow> bytes) \<Rightarrow> 'a list \<Rightarrow> bytes" where
  "enc_counted e xs = le32 (of_nat (length xs)) @ concat (map e xs)"

context codec
begin

lemma counted_codec:
  "codec (enc_counted enc) (rd_counted dec) (\<lambda>xs. length xs < 2 ^ 32 \<and> list_all ok xs)"
proof (unfold_locales)
  fix xs :: "'a list"
  assume "length xs < 2 ^ 32 \<and> list_all ok xs"
  then show "reads_as (rd_counted dec) (enc_counted enc xs) xs"
    unfolding enc_counted_def rd_counted_def
    by (intro reads_bind [OF u32.reads]) (simp_all add: reads_many)
qed

end

definition push_str :: "bytes \<Rightarrow> bytes" where
  "push_str s = le32 (of_nat (length s)) @ s"

definition name_ok :: "bytes \<Rightarrow> bool" where
  "name_ok s \<longleftrightarrow> valid_utf8 s \<and> length s < 2 ^ 32"

interpretation str: codec push_str rd_str name_ok
proof
  fix s
  assume s: "name_ok s"
  then show "reads_as rd_str (push_str s) s"
    unfolding rd_str_def push_str_def
    by (intro reads_bind [OF u32.reads] reads_last [OF reads_bytes])
      (simp_all add: name_ok_def utf8_lossy_valid)
qed

interpretation words: codec "enc_counted le64" "rd_counted rd_u64"
  "\<lambda>xs. length xs < 2 ^ 32 \<and> list_all (\<lambda>_. True) xs"
  by (rule u64.counted_codec)

interpretation names: codec "enc_counted push_str" "rd_counted rd_str"
  "\<lambda>xs. length xs < 2 ^ 32 \<and> list_all name_ok xs"
  by (rule str.counted_codec)

section \<open>Readers on arbitrary input\<close>

text \<open>
  What a reader may do on a buffer of at most \<open>N\<close> bytes whatever they are: report an error, panic
  only if \<open>pn\<close> allows it, or return a value that satisfies \<open>P\<close> with the position still inside the
  buffer.
\<close>

definition rd_good :: "nat \<Rightarrow> reader \<Rightarrow> bool" where
  "rd_good N r \<longleftrightarrow> rd_pos r \<le> length (rd_buf r) \<and> length (rd_buf r) \<le> N"

definition rd_spec :: "bool \<Rightarrow> nat \<Rightarrow> (reader \<Rightarrow> ('a \<times> reader) res) \<Rightarrow> ('a \<Rightarrow> bool) \<Rightarrow> bool" where
  "rd_spec pn N d P \<longleftrightarrow> (\<forall>r. rd_good N r \<longrightarrow>
     (case d r of Inl (Fault msg) \<Rightarrow> True | Inl Panic \<Rightarrow> pn | Inl Diverge \<Rightarrow> False
      | Inr (x, r') \<Rightarrow> P x \<and> rd_good N r'))"

named_theorems spec_rules \<open>what each reader may do on arbitrary input\<close>

lemma rd_specD:
  assumes "rd_spec pn N d P" and "rd_good N r"
  shows "d r = Inr (x, r') \<Longrightarrow> P x" and "d r = Inr (x, r') \<Longrightarrow> rd_good N r'"
    and "d r \<noteq> Inl Diverge" and "\<not> pn \<Longrightarrow> d r \<noteq> Inl Panic"
  using assms by (auto simp: rd_spec_def split: sum.splits fault.splits)

lemma spec_return: "P x \<Longrightarrow> rd_spec pn N (\<lambda>r. Inr (x, r)) P"
  by (simp add: rd_spec_def)

lemma spec_bind:
  assumes "rd_spec pn N d P" and "\<And>x. P x \<Longrightarrow> rd_spec pn N (k x) Q"
  shows "rd_spec pn N (\<lambda>r. bindr (d r) (\<lambda>(x, r). k x r)) Q"
  unfolding rd_spec_def
proof (intro allI impI)
  fix r assume r: "rd_good N r"
  show "case bindr (d r) (\<lambda>(x, r). k x r) of Inl (Fault msg) \<Rightarrow> True | Inl Panic \<Rightarrow> pn
      | Inl Diverge \<Rightarrow> False | Inr (x, r') \<Rightarrow> Q x \<and> rd_good N r'"
  proof (cases "d r")
    case (Inl e)
    then show ?thesis
      using rd_specD(3,4) [OF assms(1) r] by (cases e) auto
  next
    case (Inr p)
    then obtain x r' where p: "d r = Inr (x, r')" by (cases p) auto
    show ?thesis
      using assms(2) [OF rd_specD(1) [OF assms(1) r p]] rd_specD(2) [OF assms(1) r p] p
      by (simp add: rd_spec_def)
  qed
qed

lemma spec_check:
  assumes "\<And>v. m = Inr v \<Longrightarrow> rd_spec pn N (k v) Q" and "m \<noteq> Inl Panic" and "m \<noteq> Inl Diverge"
  shows "rd_spec pn N (\<lambda>r. bindr m (\<lambda>v. k v r)) Q"
proof (cases m)
  case (Inl e)
  with assms(2,3) show ?thesis by (cases e) (simp_all add: rd_spec_def)
next
  case (Inr v)
  with assms(1) show ?thesis by simp
qed

lemma spec_weaken: "rd_spec pn N d P \<Longrightarrow> (\<And>x. P x \<Longrightarrow> Q x) \<Longrightarrow> rd_spec pn N d Q"
  by (fastforce simp: rd_spec_def split: sum.splits fault.splits)

lemma spec_if: "(b \<Longrightarrow> rd_spec pn N d P) \<Longrightarrow> (\<not> b \<Longrightarrow> rd_spec pn N e P) \<Longrightarrow>
    rd_spec pn N (\<lambda>r. if b then d r else e r) P"
  by (cases b) simp_all

lemma spec_byte [spec_rules]: "rd_spec pn N rd_byte (\<lambda>_. True)"
  by (auto simp: rd_spec_def rd_byte_def rd_peek_def rd_good_def)

lemma spec_u64 [spec_rules]: "rd_spec pn N rd_u64 (\<lambda>_. True)"
  by (auto simp: rd_spec_def rd_u64_def rd_good_def)

lemma spec_u32 [spec_rules]: "rd_spec pn N rd_u32 (\<lambda>_. True)"
  by (auto simp: rd_spec_def rd_u32_def rd_good_def)

lemma spec_bytes_may_panic: "rd_spec True N (rd_bytes n) (\<lambda>b. length b \<le> N)"
  by (auto simp: rd_spec_def rd_bytes_def rd_good_def)

lemma spec_bytes_small: "N + n < 2 ^ 64 \<Longrightarrow> rd_spec False N (rd_bytes n) (\<lambda>b. length b \<le> N)"
  by (auto simp: rd_spec_def rd_bytes_def rd_good_def)

lemma spec_bytes: "pn \<or> N + n < 2 ^ 64 \<Longrightarrow> rd_spec pn N (rd_bytes n) (\<lambda>b. length b \<le> N)"
  by (cases pn) (simp_all add: spec_bytes_may_panic spec_bytes_small)

text \<open>A name read through \<open>from_utf8_lossy\<close> is well-formed UTF-8.\<close>

lemma spec_str [spec_rules]:
  assumes "N \<le> 2 ^ 63"
  shows "rd_spec pn N rd_str (\<lambda>s. valid_utf8 s \<and> length s \<le> 3 * N)"
proof -
  have "rd_spec pn N (rd_bytes (unat (len :: u32))) (\<lambda>b. length b \<le> N)" for len
    using assms unat_u32_less [of len] by (intro spec_bytes) simp
  moreover have "rd_spec pn N (\<lambda>r. Inr (utf8_lossy b, r)) (\<lambda>s. valid_utf8 s \<and> length s \<le> 3 * N)"
    if "length b \<le> N" for b
    using that length_utf8_lossy [of b] by (intro spec_return) (simp add: valid_utf8_lossy)
  ultimately show ?thesis
    unfolding rd_str_def by (intro spec_bind [OF spec_u32] spec_bind)
qed

lemma spec_many:
  "rd_spec pn N d P \<Longrightarrow> rd_spec pn N (rd_many n d) (\<lambda>xs. length xs = n \<and> list_all P xs)"
proof (induction n)
  case 0
  then show ?case by (simp add: rd_spec_def)
next
  case (Suc n)
  have "rd_spec pn N (\<lambda>r. bindr (d r) (\<lambda>(x, r). bindr (rd_many n d r) (\<lambda>(xs, r). Inr (x # xs, r))))
      (\<lambda>xs. length xs = Suc n \<and> list_all P xs)"
    by (intro spec_bind [OF Suc.prems] spec_bind [OF Suc.IH [OF Suc.prems]] spec_return) simp
  then show ?case by (simp add: rd_spec_def)
qed

lemma spec_counted:
  assumes "rd_spec pn N d P"
  shows "rd_spec pn N (rd_counted d) (\<lambda>xs. length xs < 2 ^ 32 \<and> list_all P xs)"
proof -
  have "rd_spec pn N (rd_many (unat (n :: u32)) d) (\<lambda>xs. length xs < 2 ^ 32 \<and> list_all P xs)" for n
    using unat_u32_less [of n] by (intro spec_weaken [OF spec_many [OF assms]]) auto
  then show ?thesis
    unfolding rd_counted_def by (intro spec_bind [OF spec_u32])
qed

end
