(* ===== verification/Target_Types.thy ===== *)
theory Target_Types
  imports Prelude
begin

text \<open>
  The data the back end exchanges with the rest of the compiler: relocations, symbols and the
  \<open>MachineCode\<close> record, with the fields in the order of the record that \<open>mc_serialize::decode\<close>
  and \<open>encode_x64::lower\<close> build. Strings are their UTF-8 bytes.
\<close>

datatype reloc_kind = Abs64 | Rel32Call

datatype sect = Code | Data

datatype sym =
    Sym_Fn usize
  | Sym_String usize
  | Sym_VtableOff usize
  | Sym_Static usize
  | Sym_HeapBase
  | Sym_HelperItoa
  | Sym_HelperItoaErr
  | Sym_HelperScanInt
  | Sym_HelperRetain
  | Sym_HelperRelease
  | Sym_HelperAlloc
  | Sym_Import usize
  | Sym_Name usize
  | Sym_HelperExcEnter
  | Sym_HelperExcPop
  | Sym_HelperExcThrow
  | Sym_HelperExcRethrow
  | Sym_HelperExcLoad
  | Sym_HelperExcClear
  | Sym_ExcState usize
  | Sym_ArgvRsp

record reloc =
  r_kind :: reloc_kind
  r_section :: sect
  r_site :: usize
  r_sym :: sym

record machine_code =
  mc_code :: bytes
  mc_data :: bytes
  mc_fn_bases :: "usize list"
  mc_vtable_offsets :: "usize list"
  mc_vtable_names :: "bytes list"
  mc_static_offsets :: "usize list"
  mc_static_names :: "bytes list"
  mc_helper_itoa :: "usize option"
  mc_helper_itoa_err :: "usize option"
  mc_helper_scan_int :: "usize option"
  mc_helper_retain :: "usize option"
  mc_helper_release :: "usize option"
  mc_helper_alloc :: "usize option"
  mc_helper_exc_enter :: "usize option"
  mc_helper_exc_pop :: "usize option"
  mc_helper_exc_throw :: "usize option"
  mc_helper_exc_rethrow :: "usize option"
  mc_helper_exc_load :: "usize option"
  mc_helper_exc_clear :: "usize option"
  mc_exc_state_offset :: "usize option"
  mc_helper_argv :: "usize option"
  mc_import_names :: "(bytes \<times> bytes) list"
  mc_import_bases :: "usize list"
  mc_import_abs :: "u64 list"
  mc_exports :: "(bytes \<times> usize \<times> usize) list"
  mc_export_takes_receiver :: "bool list"
  mc_init_fn :: "usize option"
  mc_relocs :: "reloc list"
  mc_heap_size :: u64
  mc_strip_symbols :: bool

definition empty_mc :: machine_code where
  "empty_mc = \<lparr>mc_code = [], mc_data = [], mc_fn_bases = [], mc_vtable_offsets = [],
     mc_vtable_names = [], mc_static_offsets = [], mc_static_names = [],
     mc_helper_itoa = None, mc_helper_itoa_err = None, mc_helper_scan_int = None,
     mc_helper_retain = None, mc_helper_release = None, mc_helper_alloc = None,
     mc_helper_exc_enter = None, mc_helper_exc_pop = None, mc_helper_exc_throw = None,
     mc_helper_exc_rethrow = None, mc_helper_exc_load = None, mc_helper_exc_clear = None,
     mc_exc_state_offset = None, mc_helper_argv = None, mc_import_names = [],
     mc_import_bases = [], mc_import_abs = [], mc_exports = [],
     mc_export_takes_receiver = [], mc_init_fn = None, mc_relocs = [], mc_heap_size = 0,
     mc_strip_symbols = False\<rparr>"

end
