(* ===== verification/Mc_Serialize.thy ===== *)
theory Mc_Serialize
  imports Codec Target_Types
begin

text \<open>
  \<open>src/mc_serialize.rs\<close>: the MCM1 byte format of a \<open>machine_code\<close>. The writer is cut into the
  sections of the format in their order; the reader follows it call by call. The trailing
  sections (names, receiver flags, initializer, strip flag) may be absent from older buffers.
\<close>

section \<open>Symbols\<close>

definition MAGIC :: u32 where "MAGIC = 0x524D4331"

fun sym_tag :: "sym \<Rightarrow> u8 \<times> u64" where
  "sym_tag (Sym_Fn i) = (0, i)"
| "sym_tag (Sym_String off) = (1, off)"
| "sym_tag (Sym_VtableOff off) = (2, off)"
| "sym_tag (Sym_Static i) = (12, i)"
| "sym_tag Sym_HeapBase = (3, 0)"
| "sym_tag Sym_HelperItoa = (4, 0)"
| "sym_tag Sym_HelperItoaErr = (5, 0)"
| "sym_tag Sym_HelperScanInt = (6, 0)"
| "sym_tag Sym_HelperRetain = (7, 0)"
| "sym_tag Sym_HelperRelease = (8, 0)"
| "sym_tag Sym_HelperAlloc = (9, 0)"
| "sym_tag (Sym_Import i) = (10, i)"
| "sym_tag (Sym_Name i) = (11, i)"
| "sym_tag Sym_HelperExcEnter = (13, 0)"
| "sym_tag Sym_HelperExcPop = (14, 0)"
| "sym_tag Sym_HelperExcThrow = (15, 0)"
| "sym_tag Sym_HelperExcRethrow = (16, 0)"
| "sym_tag Sym_HelperExcLoad = (17, 0)"
| "sym_tag Sym_HelperExcClear = (18, 0)"
| "sym_tag (Sym_ExcState off) = (19, off)"
| "sym_tag Sym_ArgvRsp = (20, 0)"

definition sym_from :: "u8 \<Rightarrow> u64 \<Rightarrow> sym option" where
  "sym_from tag arg =
     (if tag = 0 then Some (Sym_Fn arg)
      else if tag = 1 then Some (Sym_String arg)
      else if tag = 2 then Some (Sym_VtableOff arg)
      else if tag = 12 then Some (Sym_Static arg)
      else if tag = 3 then Some Sym_HeapBase
      else if tag = 4 then Some Sym_HelperItoa
      else if tag = 5 then Some Sym_HelperItoaErr
      else if tag = 6 then Some Sym_HelperScanInt
      else if tag = 7 then Some Sym_HelperRetain
      else if tag = 8 then Some Sym_HelperRelease
      else if tag = 9 then Some Sym_HelperAlloc
      else if tag = 10 then Some (Sym_Import arg)
      else if tag = 11 then Some (Sym_Name arg)
      else if tag = 13 then Some Sym_HelperExcEnter
      else if tag = 14 then Some Sym_HelperExcPop
      else if tag = 15 then Some Sym_HelperExcThrow
      else if tag = 16 then Some Sym_HelperExcRethrow
      else if tag = 17 then Some Sym_HelperExcLoad
      else if tag = 18 then Some Sym_HelperExcClear
      else if tag = 19 then Some (Sym_ExcState arg)
      else if tag = 20 then Some Sym_ArgvRsp
      else None)"

lemma sym_from_tag [simp]: "sym_tag s = (tag, arg) \<Longrightarrow> sym_from tag arg = Some s"
  by (cases s) (auto simp: sym_from_def)

section \<open>The writer\<close>

definition enc_blob :: "bytes \<Rightarrow> bytes" where
  "enc_blob b = le64 (of_nat (length b)) @ b"

definition enc_layout :: "machine_code \<Rightarrow> bytes" where
  "enc_layout mc =
     enc_blob (mc_code mc) @ enc_blob (mc_data mc) @
     enc_counted le64 (mc_fn_bases mc) @
     enc_counted le64 (mc_vtable_offsets mc) @
     enc_counted le64 (mc_static_offsets mc)"

definition flag_if :: "usize option \<Rightarrow> u8 \<Rightarrow> u8" where
  "flag_if opt m = (if opt \<noteq> None then m else 0)"

definition opt_u64 :: "usize option \<Rightarrow> bytes" where
  "opt_u64 opt = (case opt of None \<Rightarrow> [] | Some x \<Rightarrow> le64 x)"

definition helper_flags :: "machine_code \<Rightarrow> u8" where
  "helper_flags mc =
     flag_if (mc_helper_itoa mc) 1 OR flag_if (mc_helper_itoa_err mc) 2 OR
     flag_if (mc_helper_scan_int mc) 4 OR flag_if (mc_helper_retain mc) 8 OR
     flag_if (mc_helper_release mc) 16 OR flag_if (mc_helper_alloc mc) 32"

definition enc_helpers :: "machine_code \<Rightarrow> bytes" where
  "enc_helpers mc = [helper_flags mc] @
     opt_u64 (mc_helper_itoa mc) @ opt_u64 (mc_helper_itoa_err mc) @
     opt_u64 (mc_helper_scan_int mc) @ opt_u64 (mc_helper_retain mc) @
     opt_u64 (mc_helper_release mc) @ opt_u64 (mc_helper_alloc mc)"

definition exc_flags :: "machine_code \<Rightarrow> u8" where
  "exc_flags mc =
     flag_if (mc_helper_exc_enter mc) 1 OR flag_if (mc_helper_exc_pop mc) 2 OR
     flag_if (mc_helper_exc_throw mc) 4 OR flag_if (mc_helper_exc_rethrow mc) 8 OR
     flag_if (mc_helper_exc_load mc) 16 OR flag_if (mc_helper_exc_clear mc) 32 OR
     flag_if (mc_exc_state_offset mc) 64 OR flag_if (mc_helper_argv mc) 128"

definition enc_exc_helpers :: "machine_code \<Rightarrow> bytes" where
  "enc_exc_helpers mc = [exc_flags mc] @
     opt_u64 (mc_helper_exc_enter mc) @ opt_u64 (mc_helper_exc_pop mc) @
     opt_u64 (mc_helper_exc_throw mc) @ opt_u64 (mc_helper_exc_rethrow mc) @
     opt_u64 (mc_helper_exc_load mc) @ opt_u64 (mc_helper_exc_clear mc) @
     opt_u64 (mc_exc_state_offset mc) @ opt_u64 (mc_helper_argv mc)"

definition enc_import :: "bytes \<times> bytes \<Rightarrow> bytes" where
  "enc_import = (\<lambda>(lib, entry). push_str lib @ push_str entry)"

definition enc_export :: "bytes \<times> usize \<times> usize \<Rightarrow> bytes" where
  "enc_export = (\<lambda>(name, fn_idx, arity). push_str name @ le32 (ucast fn_idx) @ le32 (ucast arity))"

definition enc_reloc :: "reloc \<Rightarrow> bytes" where
  "enc_reloc r = (case sym_tag (r_sym r) of (tag, arg) \<Rightarrow>
     [case r_kind r of Abs64 \<Rightarrow> 0 | Rel32Call \<Rightarrow> 1] @
     [case r_section r of Code \<Rightarrow> 0 | Data \<Rightarrow> 1] @
     le64 (r_site r) @ [tag] @ le64 arg)"

definition enc_tables :: "machine_code \<Rightarrow> bytes" where
  "enc_tables mc =
     enc_counted enc_import (mc_import_names mc) @
     enc_counted le64 (mc_import_bases mc) @
     enc_counted enc_export (mc_exports mc) @
     enc_counted enc_reloc (mc_relocs mc) @
     le64 (mc_heap_size mc)"

definition enc_flag :: "bool \<Rightarrow> bytes" where
  "enc_flag t = [if t then 1 else 0]"

definition enc_init_fn :: "usize option \<Rightarrow> bytes" where
  "enc_init_fn i = le32 (case i of None \<Rightarrow> 0xFFFFFFFF | Some i \<Rightarrow> ucast i)"

definition enc_trailing :: "machine_code \<Rightarrow> bytes" where
  "enc_trailing mc =
     enc_counted push_str (mc_vtable_names mc) @
     enc_counted push_str (mc_static_names mc) @
     enc_counted enc_flag (mc_export_takes_receiver mc) @
     enc_init_fn (mc_init_fn mc) @
     enc_flag (mc_strip_symbols mc)"

definition encode :: "machine_code \<Rightarrow> bytes" where
  "encode mc = le32 MAGIC @ enc_layout mc @ enc_helpers mc @ enc_exc_helpers mc @
     enc_tables mc @ enc_trailing mc"

section \<open>The reader\<close>

definition rd_blob :: "reader \<Rightarrow> (bytes \<times> reader) res" where
  "rd_blob r = bindr (rd_u64 r) (\<lambda>(n, r). rd_bytes (unat n) r)"

definition rd_opt :: "u8 \<Rightarrow> u8 \<Rightarrow> reader \<Rightarrow> (usize option \<times> reader) res" where
  "rd_opt flags m r = (if flags AND m \<noteq> 0 then bindr (rd_u64 r) (\<lambda>(x, r). Inr (Some x, r))
     else Inr (None, r))"

definition rd_import :: "reader \<Rightarrow> ((bytes \<times> bytes) \<times> reader) res" where
  "rd_import = rd_pair rd_str rd_str"

definition rd_export :: "reader \<Rightarrow> ((bytes \<times> usize \<times> usize) \<times> reader) res" where
  "rd_export r = bindr (rd_str r) (\<lambda>(name, r). bindr (rd_u32 r) (\<lambda>(fn_idx, r).
     bindr (rd_u32 r) (\<lambda>(arity, r). Inr ((name, ucast fn_idx, ucast arity), r))))"

definition reloc_kind_from :: "u8 \<Rightarrow> reloc_kind res" where
  "reloc_kind_from b = (if b = 0 then Inr Abs64 else if b = 1 then Inr Rel32Call
     else Inl (Fault ''machine code: bad reloc kind''))"

definition reloc_section_from :: "u8 \<Rightarrow> sect res" where
  "reloc_section_from b = (if b = 0 then Inr Code else if b = 1 then Inr Data
     else Inl (Fault ''machine code: bad reloc section''))"

definition rd_reloc :: "reader \<Rightarrow> (reloc \<times> reader) res" where
  "rd_reloc r = bindr (rd_byte r) (\<lambda>(kb, r). bindr (reloc_kind_from kb) (\<lambda>kind.
     bindr (rd_byte r) (\<lambda>(sb, r). bindr (reloc_section_from sb) (\<lambda>section.
     bindr (rd_u64 r) (\<lambda>(site, r). bindr (rd_byte r) (\<lambda>(tag, r). bindr (rd_u64 r) (\<lambda>(arg, r).
       case sym_from tag arg of
         None \<Rightarrow> Inl (Fault ''machine code: bad reloc sym'')
       | Some s \<Rightarrow> Inr (\<lparr>r_kind = kind, r_section = section, r_site = site, r_sym = s\<rparr>, r))))))))"

definition rd_flag :: "reader \<Rightarrow> (bool \<times> reader) res" where
  "rd_flag r = bindr (rd_byte r) (\<lambda>(b, r). Inr (b \<noteq> 0, r))"

definition rd_init_fn :: "reader \<Rightarrow> (usize option \<times> reader) res" where
  "rd_init_fn r = bindr (rd_u32 r) (\<lambda>(v, r). Inr (if v \<noteq> 0xFFFFFFFF then Some (ucast v) else None, r))"

text \<open>A trailing section: absent (the default) when the buffer is exhausted.\<close>

definition rd_tail :: "'a \<Rightarrow> (reader \<Rightarrow> ('a \<times> reader) res) \<Rightarrow> reader \<Rightarrow> ('a \<times> reader) res" where
  "rd_tail dflt d r = (if \<not> rd_is_empty r then d r else Inr (dflt, r))"

text \<open>
  Each part of \<open>decode\<close> fills its fields of the result, in the order in which the source reads
  them.
\<close>

definition dec_layout :: "machine_code \<Rightarrow> reader \<Rightarrow> (machine_code \<times> reader) res" where
  "dec_layout mc r =
     bindr (rd_blob r) (\<lambda>(code, r). bindr (rd_blob r) (\<lambda>(data, r).
     bindr (rd_counted rd_u64 r) (\<lambda>(fn_bases, r).
     bindr (rd_counted rd_u64 r) (\<lambda>(vtable_offsets, r).
     bindr (rd_counted rd_u64 r) (\<lambda>(static_offsets, r).
       Inr (mc\<lparr>mc_code := code, mc_data := data, mc_fn_bases := fn_bases,
         mc_vtable_offsets := vtable_offsets, mc_static_offsets := static_offsets\<rparr>, r))))))"

definition dec_helpers :: "machine_code \<Rightarrow> reader \<Rightarrow> (machine_code \<times> reader) res" where
  "dec_helpers mc r =
     bindr (rd_byte r) (\<lambda>(flags, r).
     bindr (rd_opt flags 1 r) (\<lambda>(itoa, r). bindr (rd_opt flags 2 r) (\<lambda>(itoa_err, r).
     bindr (rd_opt flags 4 r) (\<lambda>(scan_int, r). bindr (rd_opt flags 8 r) (\<lambda>(retain, r).
     bindr (rd_opt flags 16 r) (\<lambda>(release, r). bindr (rd_opt flags 32 r) (\<lambda>(alloc, r).
       Inr (mc\<lparr>mc_helper_itoa := itoa, mc_helper_itoa_err := itoa_err,
         mc_helper_scan_int := scan_int, mc_helper_retain := retain,
         mc_helper_release := release, mc_helper_alloc := alloc\<rparr>, r))))))))"

definition dec_exc_helpers :: "machine_code \<Rightarrow> reader \<Rightarrow> (machine_code \<times> reader) res" where
  "dec_exc_helpers mc r =
     bindr (rd_byte r) (\<lambda>(eflags, r).
     bindr (rd_opt eflags 1 r) (\<lambda>(enter, r). bindr (rd_opt eflags 2 r) (\<lambda>(pop, r).
     bindr (rd_opt eflags 4 r) (\<lambda>(throw, r). bindr (rd_opt eflags 8 r) (\<lambda>(rethrow, r).
     bindr (rd_opt eflags 16 r) (\<lambda>(load, r). bindr (rd_opt eflags 32 r) (\<lambda>(clear, r).
     bindr (rd_opt eflags 64 r) (\<lambda>(state, r). bindr (rd_opt eflags 128 r) (\<lambda>(argv, r).
       Inr (mc\<lparr>mc_helper_exc_enter := enter, mc_helper_exc_pop := pop,
         mc_helper_exc_throw := throw, mc_helper_exc_rethrow := rethrow,
         mc_helper_exc_load := load, mc_helper_exc_clear := clear,
         mc_exc_state_offset := state, mc_helper_argv := argv\<rparr>, r))))))))))"

definition dec_tables :: "machine_code \<Rightarrow> reader \<Rightarrow> (machine_code \<times> reader) res" where
  "dec_tables mc r =
     bindr (rd_counted rd_import r) (\<lambda>(import_names, r).
     bindr (rd_counted rd_u64 r) (\<lambda>(import_bases, r).
     bindr (rd_counted rd_export r) (\<lambda>(exports, r).
     bindr (rd_counted rd_reloc r) (\<lambda>(relocs, r).
     bindr (rd_u64 r) (\<lambda>(heap_size, r).
       Inr (mc\<lparr>mc_import_names := import_names, mc_import_bases := import_bases,
         mc_exports := exports, mc_relocs := relocs, mc_heap_size := heap_size\<rparr>, r))))))"

definition dec_trailing :: "machine_code \<Rightarrow> reader \<Rightarrow> (machine_code \<times> reader) res" where
  "dec_trailing mc r =
     bindr (rd_tail [] (rd_counted rd_str) r) (\<lambda>(vtable_names, r).
     bindr (rd_tail [] (rd_counted rd_str) r) (\<lambda>(static_names, r).
     bindr (rd_tail [] (rd_counted rd_flag) r) (\<lambda>(takes_receiver, r).
     bindr (rd_tail None rd_init_fn r) (\<lambda>(init_fn, r).
     bindr (rd_tail False rd_flag r) (\<lambda>(strip_symbols, r).
       Inr (mc\<lparr>mc_vtable_names := vtable_names, mc_static_names := static_names,
         mc_export_takes_receiver := takes_receiver, mc_init_fn := init_fn,
         mc_strip_symbols := strip_symbols\<rparr>, r))))))"

definition dec_core :: "reader \<Rightarrow> (machine_code \<times> reader) res" where
  "dec_core r = bindr (dec_layout empty_mc r) (\<lambda>(mc, r). bindr (dec_helpers mc r) (\<lambda>(mc, r).
     bindr (dec_exc_helpers mc r) (\<lambda>(mc, r). dec_tables mc r)))"

definition decode :: "bytes \<Rightarrow> machine_code res" where
  "decode bs =
     (if length bs < 4 \<or> from_le (take 4 bs) \<noteq> MAGIC then Inl (Fault ''machine code: bad magic'')
      else bindr (dec_core (rd_new (drop 4 bs))) (\<lambda>(mc, r).
        bindr (dec_trailing mc r) (\<lambda>(mc, r). Inr mc)))"

section \<open>The codecs of the elements\<close>

interpretation import: codec_pair push_str rd_str name_ok push_str rd_str name_ok ..

interpretation import_entry: codec enc_import rd_import "\<lambda>(lib, entry). name_ok lib \<and> name_ok entry"
  unfolding enc_import_def rd_import_def by (rule import.pair_codec)

definition export_ok :: "bytes \<times> usize \<times> usize \<Rightarrow> bool" where
  "export_ok = (\<lambda>(name, fn_idx, arity). name_ok name \<and> unat fn_idx < 2 ^ 32 \<and> unat arity < 2 ^ 32)"

lemma ucast_u32_u64:
  assumes "unat (x :: u64) < 2 ^ 32"
  shows "ucast (ucast x :: u32) = x"
proof -
  have "unat (ucast (ucast x :: u32) :: u64) = unat x"
    using assms by (simp add: unsigned_ucast_eq unsigned_take_bit_eq take_bit_nat_eq_self)
  then show ?thesis by (simp add: word_unat_eq_iff)
qed

interpretation export_entry: codec enc_export rd_export export_ok
proof
  fix x :: "bytes \<times> usize \<times> usize"
  assume "export_ok x"
  then show "reads_as rd_export (enc_export x) x"
    unfolding rd_export_def enc_export_def
    by (cases x)
      (auto intro!: reads_bind [OF str.reads] reads_bind [OF u32.reads] reads_last [OF u32.reads]
        simp: export_ok_def ucast_u32_u64)
qed

lemma reloc_from [simp]:
  "reloc_kind_from (case k of Abs64 \<Rightarrow> 0 | Rel32Call \<Rightarrow> 1) = Inr k"
  "reloc_section_from (case sc of Code \<Rightarrow> 0 | Data \<Rightarrow> 1) = Inr sc"
  by (cases k; simp add: reloc_kind_from_def) (cases sc; simp add: reloc_section_from_def)

interpretation reloc_entry: codec enc_reloc rd_reloc "\<lambda>_. True"
proof
  fix x :: reloc
  obtain tag arg where s: "sym_tag (r_sym x) = (tag, arg)" by fastforce
  then have "sym_from tag arg = Some (r_sym x)" by (rule sym_from_tag)
  then show "reads_as rd_reloc (enc_reloc x) x"
    unfolding rd_reloc_def enc_reloc_def s prod.case
    by (intro reads_bind [OF byte.reads] reads_check [OF reloc_from(1)] reads_check [OF reloc_from(2)]
        reads_bind [OF u64.reads] reads_last [OF u64.reads] TrueI)
      simp
qed

interpretation flag_entry: codec enc_flag rd_flag "\<lambda>_. True"
proof
  fix t
  show "reads_as rd_flag (enc_flag t) t"
    unfolding rd_flag_def enc_flag_def by (intro reads_last [OF byte.reads]) simp_all
qed

definition init_ok :: "usize option \<Rightarrow> bool" where
  "init_ok i \<longleftrightarrow> (case i of None \<Rightarrow> True | Some i \<Rightarrow> unat i < 2 ^ 32 - 1)"

lemma ucast_not_max: "unat (x :: u64) < 2 ^ 32 - 1 \<Longrightarrow> (ucast x :: u32) \<noteq> 0xFFFFFFFF"
proof
  assume x: "unat x < 2 ^ 32 - 1" and e: "(ucast x :: u32) = 0xFFFFFFFF"
  from x have "x = ucast (ucast x :: u32)" by (simp add: ucast_u32_u64)
  then have "x = 0xFFFFFFFF" using e by simp
  then show False using x by simp
qed

interpretation init_entry: codec enc_init_fn rd_init_fn init_ok
proof
  fix i :: "usize option"
  assume "init_ok i"
  then show "reads_as rd_init_fn (enc_init_fn i) i"
    unfolding rd_init_fn_def enc_init_fn_def
    by (intro reads_last [OF u32.reads])
      (auto simp: init_ok_def ucast_u32_u64 ucast_not_max split: option.splits)
qed

interpretation import_list: codec "enc_counted enc_import" "rd_counted rd_import"
  "\<lambda>xs. length xs < 2 ^ 32 \<and> list_all (\<lambda>(lib, entry). name_ok lib \<and> name_ok entry) xs"
  by (rule import_entry.counted_codec)

interpretation export_list: codec "enc_counted enc_export" "rd_counted rd_export"
  "\<lambda>xs. length xs < 2 ^ 32 \<and> list_all export_ok xs"
  by (rule export_entry.counted_codec)

interpretation reloc_list: codec "enc_counted enc_reloc" "rd_counted rd_reloc"
  "\<lambda>xs. length xs < 2 ^ 32 \<and> list_all (\<lambda>_. True) xs"
  by (rule reloc_entry.counted_codec)

interpretation flag_list: codec "enc_counted enc_flag" "rd_counted rd_flag"
  "\<lambda>xs. length xs < 2 ^ 32 \<and> list_all (\<lambda>_. True) xs"
  by (rule flag_entry.counted_codec)

interpretation blob: codec enc_blob rd_blob "\<lambda>b. length b < 2 ^ 64"
proof
  fix b :: bytes
  assume "length b < 2 ^ 64"
  then show "reads_as rd_blob (enc_blob b) b"
    unfolding rd_blob_def enc_blob_def
    by (intro reads_bind [OF u64.reads] reads_bytes) simp_all
qed

lemma reads_opt:
  assumes "(flags AND m \<noteq> 0) = (opt \<noteq> None)"
  shows "reads_as (rd_opt flags m) (opt_u64 opt) opt"
proof (cases opt)
  case None
  with assms show ?thesis by (simp add: reads_as_def rd_opt_def opt_u64_def)
next
  case (Some x)
  with assms have "rd_opt flags m = (\<lambda>r. bindr (rd_u64 r) (\<lambda>(x, r). Inr (Some x, r)))"
    by (auto simp: rd_opt_def)
  then show ?thesis
    using Some by (auto simp: opt_u64_def intro!: reads_last [OF u64.reads])
qed

lemma helper_flag_bits:
  "(helper_flags mc AND 1 \<noteq> 0) = (mc_helper_itoa mc \<noteq> None)"
  "(helper_flags mc AND 2 \<noteq> 0) = (mc_helper_itoa_err mc \<noteq> None)"
  "(helper_flags mc AND 4 \<noteq> 0) = (mc_helper_scan_int mc \<noteq> None)"
  "(helper_flags mc AND 8 \<noteq> 0) = (mc_helper_retain mc \<noteq> None)"
  "(helper_flags mc AND 16 \<noteq> 0) = (mc_helper_release mc \<noteq> None)"
  "(helper_flags mc AND 32 \<noteq> 0) = (mc_helper_alloc mc \<noteq> None)"
  by (simp_all add: helper_flags_def flag_if_def)

lemma exc_flag_bits:
  "(exc_flags mc AND 1 \<noteq> 0) = (mc_helper_exc_enter mc \<noteq> None)"
  "(exc_flags mc AND 2 \<noteq> 0) = (mc_helper_exc_pop mc \<noteq> None)"
  "(exc_flags mc AND 4 \<noteq> 0) = (mc_helper_exc_throw mc \<noteq> None)"
  "(exc_flags mc AND 8 \<noteq> 0) = (mc_helper_exc_rethrow mc \<noteq> None)"
  "(exc_flags mc AND 16 \<noteq> 0) = (mc_helper_exc_load mc \<noteq> None)"
  "(exc_flags mc AND 32 \<noteq> 0) = (mc_helper_exc_clear mc \<noteq> None)"
  "(exc_flags mc AND 64 \<noteq> 0) = (mc_exc_state_offset mc \<noteq> None)"
  "(exc_flags mc AND 128 \<noteq> 0) = (mc_helper_argv mc \<noteq> None)"
  by (simp_all add: exc_flags_def flag_if_def)

section \<open>Every section is read back\<close>

text \<open>What the target's \<open>usize\<close>, \<open>u32\<close> and \<open>String\<close> types and the 32-bit fields of the format allow.\<close>

definition serializable :: "machine_code \<Rightarrow> bool" where
  "serializable mc \<longleftrightarrow>
     length (mc_code mc) < 2 ^ 64 \<and> length (mc_data mc) < 2 ^ 64 \<and>
     length (mc_fn_bases mc) < 2 ^ 32 \<and> length (mc_vtable_offsets mc) < 2 ^ 32 \<and>
     length (mc_static_offsets mc) < 2 ^ 32 \<and>
     length (mc_import_names mc) < 2 ^ 32 \<and>
     list_all (\<lambda>(lib, entry). name_ok lib \<and> name_ok entry) (mc_import_names mc) \<and>
     length (mc_import_bases mc) < 2 ^ 32 \<and>
     length (mc_exports mc) < 2 ^ 32 \<and> list_all export_ok (mc_exports mc) \<and>
     length (mc_relocs mc) < 2 ^ 32 \<and>
     length (mc_vtable_names mc) < 2 ^ 32 \<and> list_all name_ok (mc_vtable_names mc) \<and>
     length (mc_static_names mc) < 2 ^ 32 \<and> list_all name_ok (mc_static_names mc) \<and>
     length (mc_export_takes_receiver mc) < 2 ^ 32 \<and> init_ok (mc_init_fn mc)"

lemma list_all_True [simp]: "list_all (\<lambda>_. True) xs"
  by (simp add: list_all_iff)

lemma reads_layout:
  assumes "serializable mc"
  shows "reads_as (dec_layout acc) (enc_layout mc)
     (acc\<lparr>mc_code := mc_code mc, mc_data := mc_data mc, mc_fn_bases := mc_fn_bases mc,
       mc_vtable_offsets := mc_vtable_offsets mc, mc_static_offsets := mc_static_offsets mc\<rparr>)"
  unfolding dec_layout_def enc_layout_def
  by (intro reads_bind [OF blob.reads] reads_bind [OF words.reads] reads_last [OF words.reads])
    (use assms in \<open>simp_all add: serializable_def\<close>)

lemma reads_helpers:
  "reads_as (dec_helpers acc) (enc_helpers mc)
     (acc\<lparr>mc_helper_itoa := mc_helper_itoa mc, mc_helper_itoa_err := mc_helper_itoa_err mc,
       mc_helper_scan_int := mc_helper_scan_int mc, mc_helper_retain := mc_helper_retain mc,
       mc_helper_release := mc_helper_release mc, mc_helper_alloc := mc_helper_alloc mc\<rparr>)"
  unfolding dec_helpers_def enc_helpers_def
  by (intro reads_bind [OF byte.reads] reads_bind [OF reads_opt] reads_last [OF reads_opt]
      helper_flag_bits TrueI refl)

lemma reads_exc_helpers:
  "reads_as (dec_exc_helpers acc) (enc_exc_helpers mc)
     (acc\<lparr>mc_helper_exc_enter := mc_helper_exc_enter mc, mc_helper_exc_pop := mc_helper_exc_pop mc,
       mc_helper_exc_throw := mc_helper_exc_throw mc, mc_helper_exc_rethrow := mc_helper_exc_rethrow mc,
       mc_helper_exc_load := mc_helper_exc_load mc, mc_helper_exc_clear := mc_helper_exc_clear mc,
       mc_exc_state_offset := mc_exc_state_offset mc, mc_helper_argv := mc_helper_argv mc\<rparr>)"
  unfolding dec_exc_helpers_def enc_exc_helpers_def
  by (intro reads_bind [OF byte.reads] reads_bind [OF reads_opt] reads_last [OF reads_opt]
      exc_flag_bits TrueI refl)

lemma reads_tables:
  assumes "serializable mc"
  shows "reads_as (dec_tables acc) (enc_tables mc)
     (acc\<lparr>mc_import_names := mc_import_names mc, mc_import_bases := mc_import_bases mc,
       mc_exports := mc_exports mc, mc_relocs := mc_relocs mc, mc_heap_size := mc_heap_size mc\<rparr>)"
  unfolding dec_tables_def enc_tables_def
  by (intro reads_bind [OF import_list.reads] reads_bind [OF words.reads] reads_bind [OF export_list.reads]
      reads_bind [OF reloc_list.reads] reads_last [OF u64.reads])
    (use assms in \<open>simp_all add: serializable_def\<close>)

text \<open>The fields that every buffer carries.\<close>

definition core_of :: "machine_code \<Rightarrow> machine_code" where
  "core_of mc = mc\<lparr>mc_vtable_names := [], mc_static_names := [], mc_export_takes_receiver := [],
     mc_init_fn := None, mc_strip_symbols := False, mc_import_abs := []\<rparr>"

definition enc_core :: "machine_code \<Rightarrow> bytes" where
  "enc_core mc = enc_layout mc @ enc_helpers mc @ enc_exc_helpers mc @ enc_tables mc"

lemma reads_core:
  assumes "serializable mc"
  shows "reads_as dec_core (enc_core mc) (core_of mc)"
proof -
  have "reads_as dec_core (enc_core mc)
      (empty_mc\<lparr>mc_code := mc_code mc, mc_data := mc_data mc, mc_fn_bases := mc_fn_bases mc,
       mc_vtable_offsets := mc_vtable_offsets mc, mc_static_offsets := mc_static_offsets mc,
       mc_helper_itoa := mc_helper_itoa mc, mc_helper_itoa_err := mc_helper_itoa_err mc,
       mc_helper_scan_int := mc_helper_scan_int mc, mc_helper_retain := mc_helper_retain mc,
       mc_helper_release := mc_helper_release mc, mc_helper_alloc := mc_helper_alloc mc,
       mc_helper_exc_enter := mc_helper_exc_enter mc, mc_helper_exc_pop := mc_helper_exc_pop mc,
       mc_helper_exc_throw := mc_helper_exc_throw mc, mc_helper_exc_rethrow := mc_helper_exc_rethrow mc,
       mc_helper_exc_load := mc_helper_exc_load mc, mc_helper_exc_clear := mc_helper_exc_clear mc,
       mc_exc_state_offset := mc_exc_state_offset mc, mc_helper_argv := mc_helper_argv mc,
       mc_import_names := mc_import_names mc, mc_import_bases := mc_import_bases mc,
       mc_exports := mc_exports mc, mc_relocs := mc_relocs mc, mc_heap_size := mc_heap_size mc\<rparr>)"
    unfolding dec_core_def enc_core_def
    by (intro reads_bind [OF reads_layout [OF assms]] reads_bind [OF reads_helpers]
        reads_bind [OF reads_exc_helpers] reads_tables [OF assms])
  then show ?thesis by (cases mc) (simp add: empty_mc_def core_of_def)
qed

lemma rd_tail_reads:
  "reads_as d c x \<Longrightarrow> c \<noteq> [] \<Longrightarrow>
   rd_tail dflt d (window pre (c @ post)) = Inr (x, window (pre @ c) post)"
  by (simp add: rd_tail_def reads_asD(1))

lemma enc_counted_neq_Nil [simp]: "enc_counted e xs \<noteq> []"
  by (simp add: enc_counted_def)

lemma rd_tail_reads_end:
  "reads_as d c x \<Longrightarrow> c \<noteq> [] \<Longrightarrow> rd_tail dflt d (window pre c) = Inr (x, window (pre @ c) [])"
  using rd_tail_reads [of d c x dflt pre "[]"] by simp

lemma dec_trailing_enc:
  assumes "serializable mc"
  shows "\<exists>r. dec_trailing acc (window pre (enc_trailing mc)) =
     Inr (acc\<lparr>mc_vtable_names := mc_vtable_names mc, mc_static_names := mc_static_names mc,
       mc_export_takes_receiver := mc_export_takes_receiver mc, mc_init_fn := mc_init_fn mc,
       mc_strip_symbols := mc_strip_symbols mc\<rparr>, r)"
proof -
  have n: "rd_tail [] (rd_counted rd_str) (window pre (enc_counted push_str xs @ post)) =
      Inr (xs, window (pre @ enc_counted push_str xs) post)"
    if "length xs < 2 ^ 32" "list_all name_ok xs" for xs pre post
    using that by (intro rd_tail_reads names.reads) simp_all
  have f: "rd_tail [] (rd_counted rd_flag) (window pre (enc_counted enc_flag xs @ post)) =
      Inr (xs, window (pre @ enc_counted enc_flag xs) post)" if "length xs < 2 ^ 32" for xs pre post
    using that by (intro rd_tail_reads flag_list.reads) simp_all
  have i: "rd_tail None rd_init_fn (window pre (enc_init_fn x @ post)) =
      Inr (x, window (pre @ enc_init_fn x) post)" if "init_ok x" for x pre post
    using that by (intro rd_tail_reads init_entry.reads) (simp_all add: enc_init_fn_def)
  have b: "rd_tail False rd_flag (window pre (enc_flag x)) = Inr (x, window (pre @ enc_flag x) [])" for x pre
    by (intro rd_tail_reads_end flag_entry.reads) (simp_all add: enc_flag_def)
  show ?thesis
    using assms unfolding dec_trailing_def enc_trailing_def serializable_def
    by (simp add: n f i b)
qed

lemma decode_window:
  "decode (le32 MAGIC @ bs) = bindr (dec_core (window [] bs)) (\<lambda>(mc, r).
     bindr (dec_trailing mc r) (\<lambda>(mc, r). Inr mc))"
  by (simp add: decode_def rd_new_window)

lemma encode_alt: "encode mc = le32 MAGIC @ enc_core mc @ enc_trailing mc"
  by (simp add: encode_def enc_core_def)

section \<open>The round trip\<close>

lemma decode_encode_core_trailing:
  assumes "serializable mc"
  shows "decode (encode mc) = Inr (mc\<lparr>mc_import_abs := []\<rparr>)"
proof -
  obtain r where "dec_trailing (core_of mc) (window (enc_core mc) (enc_trailing mc)) =
      Inr ((core_of mc)\<lparr>mc_vtable_names := mc_vtable_names mc, mc_static_names := mc_static_names mc,
       mc_export_takes_receiver := mc_export_takes_receiver mc, mc_init_fn := mc_init_fn mc,
       mc_strip_symbols := mc_strip_symbols mc\<rparr>, r)"
    using dec_trailing_enc [OF assms] by blast
  then show ?thesis
    using reads_asD(1) [OF reads_core [OF assms], of "[]" "enc_trailing mc"]
    by (simp add: encode_alt decode_window) (simp add: core_of_def)
qed

text \<open>
  C2. Decoding the bytes of a machine code gives the machine code back, every field of it but the
  runtime-only import addresses, which are never stored.
\<close>

theorem decode_encode:
  assumes "serializable mc"
  shows "decode (encode mc) = Inr (mc\<lparr>mc_import_abs := []\<rparr>)"
  using assms by (rule decode_encode_core_trailing)

section \<open>Arbitrary input\<close>

text \<open>The conditions of \<open>serializable\<close>, grouped by the part of the reader that establishes them.\<close>

definition ser_layout :: "machine_code \<Rightarrow> bool" where
  "ser_layout mc \<longleftrightarrow> mc_import_abs mc = [] \<and>
     length (mc_code mc) < 2 ^ 64 \<and> length (mc_data mc) < 2 ^ 64 \<and>
     length (mc_fn_bases mc) < 2 ^ 32 \<and> length (mc_vtable_offsets mc) < 2 ^ 32 \<and>
     length (mc_static_offsets mc) < 2 ^ 32"

definition ser_tables :: "machine_code \<Rightarrow> bool" where
  "ser_tables mc \<longleftrightarrow>
     length (mc_import_names mc) < 2 ^ 32 \<and>
     list_all (\<lambda>(lib, entry). name_ok lib \<and> name_ok entry) (mc_import_names mc) \<and>
     length (mc_import_bases mc) < 2 ^ 32 \<and>
     length (mc_exports mc) < 2 ^ 32 \<and> list_all export_ok (mc_exports mc) \<and>
     length (mc_relocs mc) < 2 ^ 32"

definition ser_trailing :: "machine_code \<Rightarrow> bool" where
  "ser_trailing mc \<longleftrightarrow>
     length (mc_vtable_names mc) < 2 ^ 32 \<and> list_all name_ok (mc_vtable_names mc) \<and>
     length (mc_static_names mc) < 2 ^ 32 \<and> list_all name_ok (mc_static_names mc) \<and>
     length (mc_export_takes_receiver mc) < 2 ^ 32 \<and> init_ok (mc_init_fn mc)"

lemma serializable_split:
  "ser_layout mc \<Longrightarrow> ser_tables mc \<Longrightarrow> ser_trailing mc \<Longrightarrow> serializable mc"
  by (simp add: serializable_def ser_layout_def ser_tables_def ser_trailing_def)

lemma spec_blob_may_panic: "rd_spec True N rd_blob (\<lambda>b. length b \<le> N)"
  unfolding rd_blob_def by (intro spec_bind [OF spec_u64] spec_bytes_may_panic)

lemma spec_opt: "rd_spec pn N (rd_opt flags m) (\<lambda>_. True)"
  unfolding rd_opt_def by (intro spec_if spec_bind [OF spec_u64] spec_return) simp_all

lemma spec_name:
  "N \<le> 2 ^ 63 \<Longrightarrow> rd_spec pn N rd_str (\<lambda>s. N \<le> 2 ^ 30 \<longrightarrow> name_ok s)"
  by (rule spec_weaken [OF spec_str]) (auto simp: name_ok_def)

lemma spec_import:
  "N \<le> 2 ^ 63 \<Longrightarrow> rd_spec pn N rd_import (\<lambda>x. N \<le> 2 ^ 30 \<longrightarrow> (\<lambda>(lib, entry). name_ok lib \<and> name_ok entry) x)"
  unfolding rd_import_def rd_pair_def
  by (intro spec_bind [OF spec_name] spec_return) simp_all

lemma unat_ucast_u32_less: "unat (ucast (w :: u32) :: u64) < 2 ^ 32"
  using unat_u32_less [of w] by (simp add: unsigned_ucast_eq take_bit_nat_eq_self)

lemma spec_export:
  "N \<le> 2 ^ 63 \<Longrightarrow> rd_spec pn N rd_export (\<lambda>x. N \<le> 2 ^ 30 \<longrightarrow> export_ok x)"
  unfolding rd_export_def
  by (intro spec_bind [OF spec_name] spec_bind [OF spec_u32] spec_return)
    (simp_all add: export_ok_def unat_ucast_u32_less [simplified])

lemma spec_reloc: "rd_spec pn N rd_reloc (\<lambda>_. True)"
  unfolding rd_reloc_def
  by (intro spec_bind [OF spec_byte] spec_bind [OF spec_u64] spec_check)
    (auto simp: rd_spec_def reloc_kind_from_def reloc_section_from_def split: option.splits)

lemma spec_flag: "rd_spec pn N rd_flag (\<lambda>_. True)"
  unfolding rd_flag_def by (intro spec_bind [OF spec_byte] spec_return) simp

lemma spec_init_fn: "rd_spec pn N rd_init_fn init_ok"
proof -
  have "unat (ucast v :: u64) < 2 ^ 32 - 1" if "v \<noteq> 0xFFFFFFFF" for v :: u32
  proof -
    have "unat v \<noteq> 2 ^ 32 - 1"
      using that by (simp add: word_unat_eq_iff)
    then show ?thesis
      using unat_u32_less [of v] by (simp add: unsigned_ucast_eq take_bit_nat_eq_self)
  qed
  then show ?thesis
    unfolding rd_init_fn_def
    by (intro spec_bind [OF spec_u32] spec_return) (simp add: init_ok_def)
qed

lemma spec_tail: "P dflt \<Longrightarrow> rd_spec pn N d P \<Longrightarrow> rd_spec pn N (rd_tail dflt d) P"
  unfolding rd_tail_def by (auto simp: rd_spec_def)

lemma spec_layout:
  assumes "N < 2 ^ 64" and "mc_import_abs acc = []"
  shows "rd_spec True N (dec_layout acc) ser_layout"
  unfolding dec_layout_def
  by (intro spec_bind [OF spec_blob_may_panic] spec_bind [OF spec_counted [OF spec_u64]] spec_return)
    (use assms in \<open>auto simp: ser_layout_def\<close>)

lemma spec_helpers: "ser_layout acc \<Longrightarrow> rd_spec pn N (dec_helpers acc) ser_layout"
  unfolding dec_helpers_def
  by (intro spec_bind [OF spec_byte] spec_bind [OF spec_opt] spec_return) (simp add: ser_layout_def)

lemma spec_exc_helpers: "ser_layout acc \<Longrightarrow> rd_spec pn N (dec_exc_helpers acc) ser_layout"
  unfolding dec_exc_helpers_def
  by (intro spec_bind [OF spec_byte] spec_bind [OF spec_opt] spec_return) (simp add: ser_layout_def)

lemma list_all_imp: "list_all (\<lambda>x. b \<longrightarrow> P x) xs \<Longrightarrow> b \<Longrightarrow> list_all P xs"
  by (simp add: list_all_iff)

lemma spec_tables:
  assumes "N \<le> 2 ^ 63" and "ser_layout acc"
  shows "rd_spec pn N (dec_tables acc) (\<lambda>mc. ser_layout mc \<and> (N \<le> 2 ^ 30 \<longrightarrow> ser_tables mc))"
  unfolding dec_tables_def
  by (intro spec_bind [OF spec_counted [OF spec_import]] spec_bind [OF spec_counted [OF spec_u64]]
      spec_bind [OF spec_counted [OF spec_export]] spec_bind [OF spec_counted [OF spec_reloc]]
      spec_bind [OF spec_u64] spec_return assms(1))
    (use assms(2) in \<open>auto simp: ser_layout_def ser_tables_def dest: list_all_imp\<close>)

lemma spec_trailing:
  assumes "N \<le> 2 ^ 63" and "ser_layout acc" and "N \<le> 2 ^ 30 \<longrightarrow> ser_tables acc"
  shows "rd_spec pn N (dec_trailing acc)
     (\<lambda>mc. core_of mc = core_of acc \<and> ser_layout mc \<and> (N \<le> 2 ^ 30 \<longrightarrow> ser_tables mc \<and> ser_trailing mc))"
  unfolding dec_trailing_def
  by (intro spec_bind [OF spec_tail [OF _ spec_counted [OF spec_name]]]
      spec_bind [OF spec_tail [OF _ spec_counted [OF spec_flag]]]
      spec_bind [OF spec_tail [OF _ spec_init_fn]] spec_bind [OF spec_tail [OF _ spec_flag]]
      spec_return assms(1))
    (use assms(2,3) in \<open>auto simp: core_of_def ser_layout_def ser_tables_def ser_trailing_def init_ok_def
      dest: list_all_imp\<close>)

lemma rd_good_new: "length bs \<le> N \<Longrightarrow> rd_good N (rd_new bs)"
  by (simp add: rd_good_def rd_new_def)

lemma spec_core:
  assumes "N \<le> 2 ^ 63"
  shows "rd_spec True N dec_core (\<lambda>mc. ser_layout mc \<and> (N \<le> 2 ^ 30 \<longrightarrow> ser_tables mc))"
  unfolding dec_core_def
  by (intro spec_bind [OF spec_layout] spec_bind [OF spec_helpers] spec_bind [OF spec_exc_helpers] spec_tables)
    (use assms in \<open>simp_all add: empty_mc_def\<close>)

lemma decode_Inr:
  assumes "decode bs = Inr mc"
  obtains acc r r' where "dec_core (rd_new (drop 4 bs)) = Inr (acc, r)" and "dec_trailing acc r = Inr (mc, r')"
  using assms by (auto simp: decode_def bindr_Inr_conv split: if_splits)

text \<open>
  C3. Whatever the bytes are, a machine code that \<open>decode\<close> accepts can be stored again without loss:
  its encoding decodes to the same machine code. Names made of ill-formed UTF-8 are already
  normalised by the first decoding.
\<close>

theorem decode_canonical:
  assumes "length bs \<le> 2 ^ 30" and "decode bs = Inr mc"
  shows "decode (encode mc) = Inr mc"
proof -
  from assms(2) obtain acc r r' where c: "dec_core (rd_new (drop 4 bs)) = Inr (acc, r)"
    and t: "dec_trailing acc r = Inr (mc, r')" by (rule decode_Inr)
  have new: "rd_good (2 ^ 30) (rd_new (drop 4 bs))" using assms(1) by (intro rd_good_new) simp
  have core: "rd_spec True (2 ^ 30) dec_core (\<lambda>mc. ser_layout mc \<and> (2 ^ 30 \<le> (2 ^ 30 :: nat) \<longrightarrow> ser_tables mc))"
    by (rule spec_core) simp
  from rd_specD(1,2) [OF core new c] have acc: "ser_layout acc" "ser_tables acc" and r: "rd_good (2 ^ 30) r"
    by auto
  have "rd_spec True (2 ^ 30) (dec_trailing acc) (\<lambda>mc. core_of mc = core_of acc \<and> ser_layout mc \<and>
      (2 ^ 30 \<le> (2 ^ 30 :: nat) \<longrightarrow> ser_tables mc \<and> ser_trailing mc))"
    using acc by (intro spec_trailing) simp_all
  from rd_specD(1) [OF this r t] have mc: "ser_layout mc" "ser_tables mc" "ser_trailing mc" by auto
  then have "decode (encode mc) = Inr (mc\<lparr>mc_import_abs := []\<rparr>)"
    by (intro decode_encode_core_trailing serializable_split)
  moreover have "mc\<lparr>mc_import_abs := []\<rparr> = mc"
    using mc(1) by (simp add: ser_layout_def)
  ultimately show ?thesis by simp
qed

text \<open>Only one reader can panic: the one of the two length-prefixed blobs.\<close>

definition huge_blob :: "reader \<Rightarrow> bool" where
  "huge_blob r = (case rd_u64 r of Inr (n, r') \<Rightarrow> 2 ^ 63 \<le> unat n | _ \<Rightarrow> False)"

lemma rd_blob_panic:
  assumes "rd_good (2 ^ 63) r" and "rd_blob r = Inl Panic"
  shows "huge_blob r"
proof (cases "rd_u64 r")
  case (Inl e)
  with assms(2) rd_specD(4) [OF spec_u64 [of False] assms(1)] show ?thesis
    by (simp add: rd_blob_def)
next
  case (Inr p)
  then obtain n r' where p: "rd_u64 r = Inr (n, r')" by (cases p) auto
  have r': "rd_good (2 ^ 63) r'" by (rule rd_specD(2) [OF spec_u64 assms(1) p])
  have "rd_bytes (unat n) r' = Inl Panic" using assms(2) p by (simp add: rd_blob_def)
  then have "2 ^ 64 \<le> rd_pos r' + unat n" by (auto simp: rd_bytes_def split: if_splits)
  then show ?thesis using r' p by (simp add: huge_blob_def rd_good_def)
qed

lemma spec_blob_rest:
  "rd_spec False N (\<lambda>r. bindr (rd_counted rd_u64 r) (\<lambda>(fn_bases, r).
     bindr (rd_counted rd_u64 r) (\<lambda>(vtable_offsets, r).
     bindr (rd_counted rd_u64 r) (\<lambda>(static_offsets, r).
       Inr (acc\<lparr>mc_code := code, mc_data := data, mc_fn_bases := fn_bases,
         mc_vtable_offsets := vtable_offsets, mc_static_offsets := static_offsets\<rparr>, r))))) (\<lambda>_. True)"
  by (intro spec_bind [OF spec_counted [OF spec_u64]] spec_return TrueI)

lemma dec_layout_panic:
  assumes "rd_good (2 ^ 63) r" and "dec_layout acc r = Inl Panic"
  shows "huge_blob r \<or> (\<exists>code r1. rd_blob r = Inr (code, r1) \<and> huge_blob r1)"
proof (cases "rd_blob r")
  case (Inl e)
  with assms(2) have "rd_blob r = Inl Panic" by (simp add: dec_layout_def)
  then show ?thesis using rd_blob_panic [OF assms(1)] by blast
next
  case (Inr p)
  then obtain code r1 where p: "rd_blob r = Inr (code, r1)" by (cases p) auto
  have r1: "rd_good (2 ^ 63) r1" by (rule rd_specD(2) [OF spec_blob_may_panic assms(1) p])
  show ?thesis
  proof (cases "rd_blob r1")
    case (Inl e)
    with assms(2) p have "rd_blob r1 = Inl Panic" by (simp add: dec_layout_def)
    then show ?thesis using rd_blob_panic [OF r1] p by blast
  next
    case (Inr q)
    then obtain data r2 where q: "rd_blob r1 = Inr (data, r2)" by (cases q) auto
    have "rd_good (2 ^ 63) r2" by (rule rd_specD(2) [OF spec_blob_may_panic r1 q])
    from rd_specD(4) [OF spec_blob_rest [where acc = acc and code = code and data = data] this] assms(2) p q show ?thesis
      by (simp add: dec_layout_def)
  qed
qed

lemma bindr_value_Inl: "bindr m (\<lambda>(x, r). Inr x) = Inl e \<longleftrightarrow> m = Inl e"
  by (cases m) auto

text \<open>
  C4. \<open>decode\<close> panics only on a buffer whose code or data length field is at least \<open>2 ^ 63\<close>: every
  other malformed buffer is rejected with an error message.
\<close>

theorem decode_panic_cause:
  assumes "length bs \<le> 2 ^ 63" and "decode bs = Inl Panic"
  shows "let r = rd_new (drop 4 bs) in
     huge_blob r \<or> (\<exists>code r1. rd_blob r = Inr (code, r1) \<and> huge_blob r1)"
proof -
  let ?r = "rd_new (drop 4 bs)"
  have r: "rd_good (2 ^ 63) ?r" using assms(1) by (intro rd_good_new) simp
  have "dec_layout empty_mc ?r = Inl Panic"
  proof (cases "dec_layout empty_mc ?r")
    case (Inl e)
    with assms(2) show ?thesis by (auto simp: decode_def dec_core_def split: if_splits)
  next
    case (Inr p)
    then obtain acc r1 where p: "dec_layout empty_mc ?r = Inr (acc, r1)" by (cases p) auto
    have lay: "rd_spec True (2 ^ 63) (dec_layout empty_mc) ser_layout"
      by (rule spec_layout) (simp_all add: empty_mc_def)
    have acc: "ser_layout acc" and r1: "rd_good (2 ^ 63) r1"
      using rd_specD(1,2) [OF lay r p] by auto
    have rest: "rd_spec False (2 ^ 63) (\<lambda>r. bindr (dec_helpers acc r) (\<lambda>(mc, r).
        bindr (dec_exc_helpers mc r) (\<lambda>(mc, r). bindr (dec_tables mc r) (\<lambda>(mc, r). dec_trailing mc r)))) (\<lambda>_. True)"
      using acc
      by (intro spec_bind [OF spec_helpers] spec_bind [OF spec_exc_helpers] spec_bind [OF spec_tables]
          spec_weaken [OF spec_trailing]) auto
    have "decode bs = bindr (bindr (dec_helpers acc r1) (\<lambda>(mc, r).
        bindr (dec_exc_helpers mc r) (\<lambda>(mc, r). bindr (dec_tables mc r) (\<lambda>(mc, r). dec_trailing mc r))))
        (\<lambda>(mc, r). Inr mc)"
      using assms(2) p by (auto simp: decode_def dec_core_def bindr_assoc case_prod_unfold split: if_splits)
    then have "bindr (dec_helpers acc r1) (\<lambda>(mc, r).
        bindr (dec_exc_helpers mc r) (\<lambda>(mc, r). bindr (dec_tables mc r) (\<lambda>(mc, r). dec_trailing mc r))) = Inl Panic"
      unfolding assms(2) by (rule bindr_value_Inl [THEN iffD1, OF sym])
    with rd_specD(4) [OF rest r1] show ?thesis by simp
  qed
  with dec_layout_panic [OF r] show ?thesis by (simp add: Let_def)
qed

lemma decode_overflow:
  assumes "2 ^ 64 \<le> unat n + 8" and "length rest < 2 ^ 63"
  shows "decode (le32 MAGIC @ le64 n @ rest) = Inl Panic"
proof -
  have "rd_blob (window [] (le64 n @ rest)) = Inl Panic"
    using assms unat_u64_less [of n]
    by (simp add: rd_blob_def rd_simps rd_u64_window [of "[]", simplified] rd_bytes_def)
  then show ?thesis
    by (simp add: decode_window dec_core_def dec_layout_def)
qed

text \<open>
  A code length within 8 of \<open>2 ^ 64\<close> makes \<open>decode\<close> panic instead of returning an error: the
  bounds check \<open>self.pos + n > self.bytes.len()\<close> overflows.
\<close>

theorem decode_length_overflow_panics:
  assumes "2 ^ 64 \<le> unat n + 8" and "length rest < 2 ^ 63"
  shows "decode (le32 MAGIC @ le64 n @ rest) = Inl Panic"
  using assms by (rule decode_overflow)


section \<open>Concrete machine codes\<close>

text \<open>A machine code that uses every table, and buffers that are not the writer's.\<close>

definition sample_mc :: machine_code where
  "sample_mc = empty_mc\<lparr>
     mc_code := [0x55, 0x48, 0x89, 0xE5, 0xC3], mc_data := [0x48, 0x69, 0],
     mc_fn_bases := [0, 5], mc_vtable_offsets := [3], mc_vtable_names := [ascii ''A''],
     mc_static_offsets := [11], mc_static_names := [ascii ''A::x''],
     mc_helper_itoa := Some 64, mc_helper_release := Some 152, mc_helper_exc_pop := Some 576,
     mc_helper_argv := Some 24,
     mc_import_names := [(ascii ''libm.so'', ascii ''sqrt'')], mc_import_bases := [4096],
     mc_import_abs := [7], mc_exports := [(ascii ''add'', 0, 2)],
     mc_export_takes_receiver := [True], mc_init_fn := Some 1,
     mc_relocs := [\<lparr>r_kind = Abs64, r_section = Code, r_site = 4, r_sym = Sym_ExcState 64\<rparr>,
       \<lparr>r_kind = Rel32Call, r_section = Code, r_site = 8, r_sym = Sym_Fn 1\<rparr>],
     mc_heap_size := 4096, mc_strip_symbols := True\<rparr>"

definition empty_buffer :: bytes where
  "empty_buffer = le32 MAGIC @ replicate 54 0"

text \<open>The same with one vtable name, the ill-formed byte \<open>0xFF\<close>, and no later section.\<close>

definition lossy_buffer :: bytes where
  "lossy_buffer = empty_buffer @ [1, 0, 0, 0, 1, 0, 0, 0, 0xFF]"

lemma serializable_sample: "serializable sample_mc"
  by (simp add: serializable_def sample_mc_def empty_mc_def name_ok_def export_ok_def init_ok_def ascii_def
      valid_utf8_ascii)

theorem decode_encode_witness:
  "serializable sample_mc \<and> decode (encode sample_mc) = Inr (sample_mc\<lparr>mc_import_abs := []\<rparr>)"
  using serializable_sample decode_encode [OF serializable_sample] by simp

lemma decode_lossy_buffer:
  "decode lossy_buffer = Inr (empty_mc\<lparr>mc_vtable_names := [[0xEF, 0xBF, 0xBD]]\<rparr>)"
  by code_simp

theorem decode_canonical_witness:
  "length lossy_buffer \<le> 2 ^ 30 \<and>
   decode (encode (empty_mc\<lparr>mc_vtable_names := [[0xEF, 0xBF, 0xBD]]\<rparr>)) =
     Inr (empty_mc\<lparr>mc_vtable_names := [[0xEF, 0xBF, 0xBD]]\<rparr>)"
proof -
  have "length lossy_buffer \<le> 2 ^ 30" by (simp add: lossy_buffer_def empty_buffer_def)
  then show ?thesis using decode_canonical [OF _ decode_lossy_buffer] by simp
qed

lemma decode_huge: "decode (le32 MAGIC @ le64 0xFFFFFFFFFFFFFFFF) = Inl Panic"
  using decode_overflow [of "0xFFFFFFFFFFFFFFFF" "[]"] by simp

theorem decode_panic_cause_witness:
  "let r = rd_new (drop 4 (le32 MAGIC @ le64 0xFFFFFFFFFFFFFFFF)) in
     huge_blob r \<or> (\<exists>code r1. rd_blob r = Inr (code, r1) \<and> huge_blob r1)"
  by (rule decode_panic_cause [OF _ decode_huge]) simp

theorem decode_length_overflow_panics_witness:
  "decode (le32 MAGIC @ le64 0xFFFFFFFFFFFFFFFF @ [1, 2, 3]) = Inl Panic"
  by (rule decode_length_overflow_panics) simp_all


end
