(* ===== verification/Ir.thy ===== *)
theory Ir
  imports Prelude
begin

text \<open>
  The intermediate representation the back end consumes (\<open>rubyc::native::ir\<close>), as the sources of
  the back end use it: the instructions they match on with the operands they read, the
  terminators, functions and programs. A virtual register and a block id are the numbers they
  wrap; immediates keep their width. Operands that no code of the back end reads are left out.
\<close>

type_synonym vreg = nat
type_synonym block_id = nat

datatype bin_op = Op_Add | Op_Sub | Op_Mul | Op_Div | Op_Rem | Op_UDiv | Op_URem | Op_And | Op_Or
  | Op_BitAnd | Op_BitOr | Op_BitXor | Op_Shl | Op_Shr | Op_ShrShr | Op_Is

datatype cmp_op = Cmp_Eq | Cmp_Ne | Cmp_Lt | Cmp_Gt | Cmp_Le | Cmp_Ge

datatype fbin_op = FOp_Add | FOp_Sub | FOp_Mul | FOp_Div

datatype fcmp_op = FCmp_Eq | FCmp_Ne | FCmp_Lt | FCmp_Gt | FCmp_Le | FCmp_Ge

datatype (plugins only: code size) instr =
    I_Const vreg i64
  | I_FConst vreg u64
  | I_Mov vreg vreg
  | I_Raw bytes
  | I_Neg vreg vreg
  | I_FNeg vreg vreg
  | I_Bin bin_op vreg vreg vreg
  | I_Cmp cmp_op vreg vreg vreg
  | I_FBin fbin_op vreg vreg vreg
  | I_FCmp fcmp_op vreg vreg vreg
  | I_F2I vreg vreg
  | I_I2F vreg vreg
  | I_CallByName vreg vreg "vreg list"
  | I_CallFn vreg nat "vreg list"
  | I_CallStatic vreg nat "vreg list"
  | I_CallImport vreg nat "vreg list"
  | I_CallFnAddr vreg vreg "vreg list"
  | I_CallVirt vreg u32 vreg "vreg list"
  | I_LoadImport vreg nat
  | I_Alloc vreg u32
  | I_AllocDyn vreg vreg
  | I_VTableAddr vreg nat
  | I_LoadStaticAddr vreg nat
  | I_FnAddr vreg nat
  | I_StackAlloc vreg
  | I_LoadStrAddr vreg u32
  | I_BuildArgv vreg
  | I_LoadField vreg vreg u32
  | I_LoadByte vreg vreg u32
  | I_StoreField vreg u32 vreg
  | I_MemCpy vreg vreg vreg
  | I_MemCmp vreg vreg vreg vreg
  | I_WriteInt vreg
  | I_EWriteInt vreg
  | I_WriteString vreg
  | I_WriteStr u32 u32
  | I_EWriteStr u32 u32
  | I_ScanInt vreg
  | I_Retain vreg
  | I_Release vreg u32
  | I_Drop vreg
  | I_HandlerEnter vreg
  | I_HandlerPop
  | I_LoadExc vreg
  | I_ClearInflight
  | I_Exit
  | I_TaskAlloc vreg u32
  | I_Suspend vreg
  | I_CoroutineResume vreg vreg

datatype terminator =
    T_Ret "vreg option"
  | T_Exit
  | T_ExitWith vreg
  | T_Branch "vreg option" block_id block_id
  | T_Unwind vreg
  | T_Rethrow

record block =
  b_instrs :: "instr list"
  b_term :: terminator

text \<open>\<open>f_receiver\<close> says whether the \<open>receiver\<close> of the function differs from \<open>ReceiverKind::None\<close>.\<close>

record ir_function =
  f_name :: string
  f_vregs :: nat
  f_arity :: nat
  f_receiver :: bool
  f_blocks :: "block list"

record program =
  p_functions :: "ir_function list"
  p_strings :: bytes
  p_vtables :: "(bytes \<times> usize list) list"
  p_statics :: "(bytes \<times> bytes) list"
  p_imports :: "(bytes \<times> bytes) list"
  p_exports :: "(bytes \<times> usize \<times> usize) list"
  p_init :: "usize option"
  p_heap_size :: u64

end
