(* ===== verification/Regalloc.thy ===== *)
theory Regalloc
  imports Ir "HOL-Library.While_Combinator" "HOL-Library.Product_Lexorder"
begin

text \<open>
  \<open>src/x86/regalloc.rs\<close>: linear-scan register allocation. Virtual registers and positions are
  natural numbers (the source's \<open>u32\<close> position counter stays below \<open>2 ^ 32\<close> for any function that
  fits in memory); slot numbers keep their 32 bits. A \<open>BTreeSet\<close> is its sorted list without
  duplicates, a \<open>BTreeMap\<close> the list of its entries in key order.
\<close>

section \<open>Registers and locations\<close>

datatype phys = Rbx | R12 | R13 | R14 | R15

definition POOL :: "phys list" where "POOL = [Rbx, R12, R13, R14, R15]"

fun phys_id :: "phys \<Rightarrow> u8" where
  "phys_id Rbx = 3"
| "phys_id R12 = 12"
| "phys_id R13 = 13"
| "phys_id R14 = 14"
| "phys_id R15 = 15"

definition needs_rex :: "phys \<Rightarrow> bool" where "needs_rex r = (r \<noteq> Rbx)"

datatype loc = In_Reg phys | In_Slot u32

record allocation =
  al_loc :: "loc list"
  al_spills :: u32

record range =
  rg_vreg :: vreg
  rg_start :: nat
  rg_end :: nat

section \<open>Uses and definitions\<close>

fun raw_uses_and_defs :: "instr \<Rightarrow> vreg option \<times> vreg list" where
  "raw_uses_and_defs (I_Const dst _) = (Some dst, [])"
| "raw_uses_and_defs (I_FConst dst _) = (Some dst, [])"
| "raw_uses_and_defs (I_Neg dst a) = (Some dst, [a])"
| "raw_uses_and_defs (I_FNeg dst a) = (Some dst, [a])"
| "raw_uses_and_defs (I_Mov dst a) = (Some dst, [a])"
| "raw_uses_and_defs (I_Raw _) = (None, [])"
| "raw_uses_and_defs (I_Bin _ dst a b) = (Some dst, [a, b])"
| "raw_uses_and_defs (I_Cmp _ dst a b) = (Some dst, [a, b])"
| "raw_uses_and_defs (I_FBin _ dst a b) = (Some dst, [a, b])"
| "raw_uses_and_defs (I_FCmp _ dst a b) = (Some dst, [a, b])"
| "raw_uses_and_defs (I_F2I dst src) = (Some dst, [src])"
| "raw_uses_and_defs (I_I2F dst src) = (Some dst, [src])"
| "raw_uses_and_defs (I_CallByName dst recv args) = (Some dst, [recv] @ args @ [dst])"
| "raw_uses_and_defs (I_CallFn dst _ args) = (Some dst, args @ [dst])"
| "raw_uses_and_defs (I_CallStatic dst _ args) = (Some dst, args @ [dst])"
| "raw_uses_and_defs (I_CallImport dst _ args) = (Some dst, args @ [dst])"
| "raw_uses_and_defs (I_CallFnAddr dst target args) = (Some dst, args @ [target] @ [dst])"
| "raw_uses_and_defs (I_LoadImport dst _) = (Some dst, [dst])"
| "raw_uses_and_defs (I_CallVirt dst _ recv args) = (Some dst, [recv] @ args @ [dst])"
| "raw_uses_and_defs (I_Alloc dst _) = (Some dst, [])"
| "raw_uses_and_defs (I_VTableAddr dst _) = (Some dst, [])"
| "raw_uses_and_defs (I_LoadStaticAddr dst _) = (Some dst, [])"
| "raw_uses_and_defs (I_FnAddr dst _) = (Some dst, [])"
| "raw_uses_and_defs (I_StackAlloc dst) = (Some dst, [])"
| "raw_uses_and_defs (I_LoadStrAddr dst _) = (Some dst, [])"
| "raw_uses_and_defs (I_BuildArgv dst) = (Some dst, [])"
| "raw_uses_and_defs (I_AllocDyn dst n) = (Some dst, [n])"
| "raw_uses_and_defs (I_LoadField dst base _) = (Some dst, [base])"
| "raw_uses_and_defs (I_LoadByte dst base _) = (Some dst, [base])"
| "raw_uses_and_defs (I_StoreField base _ src) = (None, [base, src])"
| "raw_uses_and_defs (I_MemCpy dst src len) = (None, [dst, src, len])"
| "raw_uses_and_defs (I_MemCmp dst a b len) = (Some dst, [a, b, len])"
| "raw_uses_and_defs (I_WriteInt src) = (None, [src])"
| "raw_uses_and_defs (I_EWriteInt src) = (None, [src])"
| "raw_uses_and_defs (I_WriteString src) = (None, [src])"
| "raw_uses_and_defs (I_Retain src) = (None, [src])"
| "raw_uses_and_defs (I_Release src _) = (None, [src])"
| "raw_uses_and_defs (I_Drop src) = (None, [src])"
| "raw_uses_and_defs (I_HandlerEnter dst) = (Some dst, [])"
| "raw_uses_and_defs I_HandlerPop = (None, [])"
| "raw_uses_and_defs I_ClearInflight = (None, [])"
| "raw_uses_and_defs (I_LoadExc dst) = (Some dst, [])"
| "raw_uses_and_defs (I_WriteStr _ _) = (None, [])"
| "raw_uses_and_defs (I_EWriteStr _ _) = (None, [])"
| "raw_uses_and_defs I_Exit = (None, [])"
| "raw_uses_and_defs (I_ScanInt _) = (None, [])"
| "raw_uses_and_defs (I_TaskAlloc dst _) = (Some dst, [])"
| "raw_uses_and_defs (I_Suspend state) = (None, [state])"
| "raw_uses_and_defs (I_CoroutineResume task dst) = (Some dst, [task])"

text \<open>\<open>sort_unstable\<close> and \<open>dedup\<close> on the uses.\<close>

definition uses_and_defs :: "instr \<Rightarrow> vreg option \<times> vreg list" where
  "uses_and_defs i = (case raw_uses_and_defs i of (d, u) \<Rightarrow> (d, remdups (sort u)))"

section \<open>Positions, gen, kill and successors\<close>

fun block_entries :: "nat \<Rightarrow> block list \<Rightarrow> nat list" where
  "block_entries slots [] = []"
| "block_entries slots (b # bs) = slots # block_entries (slots + length (b_instrs b) + 1) bs"

definition bt_insert :: "nat \<Rightarrow> nat list \<Rightarrow> nat list" where
  "bt_insert = insort_insert"

definition gen_insert :: "nat list \<Rightarrow> nat \<Rightarrow> nat list \<Rightarrow> nat list" where
  "gen_insert kill v gen = (if v \<notin> set kill then bt_insert v gen else gen)"

definition gen_kill_instr :: "instr \<Rightarrow> nat list \<times> nat list \<Rightarrow> nat list \<times> nat list" where
  "gen_kill_instr i = (\<lambda>(gen, kill). case uses_and_defs i of (d, u) \<Rightarrow>
     (fold (gen_insert kill) u gen,
      case d of None \<Rightarrow> kill | Some d \<Rightarrow> bt_insert d kill))"

definition gen_term :: "terminator \<Rightarrow> nat list \<Rightarrow> nat list \<Rightarrow> nat list" where
  "gen_term t kill gen = (case t of
     T_Branch cond _ _ \<Rightarrow> (case cond of Some c \<Rightarrow> gen_insert kill c gen | None \<Rightarrow> gen)
   | T_Ret (Some v) \<Rightarrow> gen_insert kill v gen
   | T_ExitWith v \<Rightarrow> gen_insert kill v gen
   | _ \<Rightarrow> gen)"

definition gen_kill :: "block \<Rightarrow> nat list \<times> nat list" where
  "gen_kill b = (case fold gen_kill_instr (b_instrs b) ([], []) of (gen, kill) \<Rightarrow>
     (gen_term (b_term b) kill gen, kill))"

definition upward_uses :: "block \<Rightarrow> nat list" where "upward_uses b = fst (gen_kill b)"
definition kill_set :: "block \<Rightarrow> nat list" where "kill_set b = snd (gen_kill b)"

definition succs :: "block \<Rightarrow> nat list" where
  "succs b = (case b_term b of T_Branch _ if_true if_false \<Rightarrow> [if_true, if_false] | _ \<Rightarrow> [])"

section \<open>The live-in fixpoint\<close>

text \<open>The live-in and live-out sets of every block, and whether the last sweep changed one.\<close>

record live_sets =
  ls_changed :: bool
  ls_in :: "nat list list"
  ls_out :: "nat list list"

fun union_in :: "nat list list \<Rightarrow> nat list \<Rightarrow> nat list \<Rightarrow> nat list res" where
  "union_in ins [] out = Inr out"
| "union_in ins (s # ss) out = bindr (idx ins s) (\<lambda>i. union_in ins ss (fold bt_insert i out))"

definition through :: "nat list \<Rightarrow> nat list \<Rightarrow> nat list \<Rightarrow> nat list" where
  "through gen kill out = fold (\<lambda>v inn. if v \<notin> set kill then bt_insert v inn else inn) out gen"

definition live_block :: "block list \<Rightarrow> nat \<Rightarrow> live_sets \<Rightarrow> live_sets res" where
  "live_block bs bi st =
     bindr (union_in (ls_in st) (succs (bs ! bi)) []) (\<lambda>out.
       let inn = through (upward_uses (bs ! bi)) (kill_set (bs ! bi)) out
       in Inr (if out \<noteq> ls_out st ! bi \<or> inn \<noteq> ls_in st ! bi
         then st\<lparr>ls_changed := True, ls_in := (ls_in st)[bi := inn], ls_out := (ls_out st)[bi := out]\<rparr>
         else st))"

fun live_blocks :: "block list \<Rightarrow> nat list \<Rightarrow> live_sets \<Rightarrow> live_sets res" where
  "live_blocks bs [] st = Inr st"
| "live_blocks bs (bi # bis) st = bindr (live_block bs bi st) (live_blocks bs bis)"

definition live_sweep :: "block list \<Rightarrow> live_sets \<Rightarrow> live_sets res" where
  "live_sweep bs st = live_blocks bs (rev [0..<length bs]) (st\<lparr>ls_changed := False\<rparr>)"

definition live_start :: "block list \<Rightarrow> live_sets" where
  "live_start bs = \<lparr>ls_changed = True, ls_in = replicate (length bs) [], ls_out = replicate (length bs) []\<rparr>"

definition liveness :: "block list \<Rightarrow> live_sets res" where
  "liveness bs =
     (case while_option (\<lambda>s. case s of Inl _ \<Rightarrow> False | Inr st \<Rightarrow> ls_changed st)
        (\<lambda>s. bindr s (live_sweep bs)) (Inr (live_start bs)) of
       None \<Rightarrow> Inl Diverge
     | Some s \<Rightarrow> s)"

section \<open>Intervals\<close>

fun touch :: "nat \<Rightarrow> nat \<Rightarrow> (nat \<times> nat \<times> nat) list \<Rightarrow> (nat \<times> nat \<times> nat) list" where
  "touch v pos [] = [(v, pos, pos)]"
| "touch v pos ((k, s, e) # m) =
     (if v < k then (v, pos, pos) # (k, s, e) # m
      else if v = k then (k, min s pos, max e pos) # m
      else (k, s, e) # touch v pos m)"

fun or_insert :: "nat \<Rightarrow> (nat \<times> nat \<times> nat) list \<Rightarrow> (nat \<times> nat \<times> nat) list" where
  "or_insert v [] = [(v, 0, 0)]"
| "or_insert v ((k, s, e) # m) =
     (if v < k then (v, 0, 0) # (k, s, e) # m
      else if v = k then (k, s, e) # m
      else (k, s, e) # or_insert v m)"

text \<open>The calls of \<open>touch\<close>, in order: the pairs of a virtual register and a position.\<close>

fun instr_touches :: "nat \<Rightarrow> instr list \<Rightarrow> (nat \<times> nat) list" where
  "instr_touches pos [] = []"
| "instr_touches pos (i # is) = (case uses_and_defs i of (d, u) \<Rightarrow>
     map (\<lambda>v. (v, pos)) u @ (case d of None \<Rightarrow> [] | Some v \<Rightarrow> [(v, pos)])) @ instr_touches (pos + 1) is"

definition term_touches :: "nat \<Rightarrow> terminator \<Rightarrow> (nat \<times> nat) list" where
  "term_touches pos t = (case t of
     T_Branch (Some c) _ _ \<Rightarrow> [(c, pos)]
   | T_Ret (Some v) \<Rightarrow> [(v, pos)]
   | T_ExitWith v \<Rightarrow> [(v, pos)]
   | _ \<Rightarrow> [])"

definition block_touches :: "nat \<Rightarrow> nat list \<Rightarrow> nat list \<Rightarrow> block \<Rightarrow> (nat \<times> nat) list" where
  "block_touches entry live_in live_out b =
     map (\<lambda>v. (v, entry)) live_in @
     map (\<lambda>v. (v, entry + length (b_instrs b))) live_out @
     instr_touches entry (b_instrs b) @
     term_touches (entry + length (b_instrs b)) (b_term b)"

definition incoming :: "ir_function \<Rightarrow> nat" where
  "incoming f = f_arity f + (if f_receiver f then 1 else 0)"

definition all_touches :: "ir_function \<Rightarrow> live_sets \<Rightarrow> (nat \<times> nat) list" where
  "all_touches f st =
     map (\<lambda>v. (v, 0)) [0..<incoming f] @
     concat (map (\<lambda>bi. block_touches (block_entries 0 (f_blocks f) ! bi)
        (ls_in st ! bi) (ls_out st ! bi) (f_blocks f ! bi)) [0..<length (f_blocks f)])"

definition build_ranges :: "ir_function \<Rightarrow> live_sets \<Rightarrow> (nat \<times> nat \<times> nat) list" where
  "build_ranges f st = fold or_insert [0..<f_vregs f]
     (fold (\<lambda>(v, pos). touch v pos) (all_touches f st) [])"

definition ordered_ranges :: "ir_function \<Rightarrow> live_sets \<Rightarrow> range list" where
  "ordered_ranges f st = sort_key (\<lambda>r. (rg_start r, rg_end r, rg_vreg r))
     (map (\<lambda>(v, s, e). \<lparr>rg_vreg = v, rg_start = s, rg_end = e\<rparr>) (build_ranges f st))"

section \<open>The linear scan\<close>

text \<open>An active entry is (end position, pool index, virtual register).\<close>

record scan_state =
  sc_loc :: "loc list"
  sc_free :: "nat list"
  sc_active :: "(nat \<times> nat \<times> vreg) list"
  sc_spills :: u32

fun expire :: "nat \<Rightarrow> (nat \<times> nat \<times> vreg) list \<Rightarrow> nat list \<Rightarrow> (nat \<times> nat \<times> vreg) list \<times> nat list" where
  "expire start [] free = ([], free)"
| "expire start (a # as) free =
     (if fst a < start then expire start as (sort (free @ [fst (snd a)]))
      else (case expire start as free of (as', free') \<Rightarrow> (a # as', free')))"

text \<open>\<open>max_by_key\<close> returns the last of several maximal elements.\<close>

fun furthest :: "(nat \<times> nat \<times> vreg) list \<Rightarrow> (nat \<times> nat \<times> vreg) option" where
  "furthest [] = None"
| "furthest (a # as) = (case furthest as of None \<Rightarrow> Some a
     | Some m \<Rightarrow> if fst a > fst m then Some a else Some m)"

fun retarget :: "nat \<Rightarrow> vreg \<Rightarrow> (nat \<times> nat \<times> vreg) list \<Rightarrow> (nat \<times> nat \<times> vreg) list" where
  "retarget pool v [] = []"
| "retarget pool v ((e, p, r) # as) =
     (if p = pool then (e, p, v) # as else (e, p, r) # retarget pool v as)"

definition set_loc :: "loc list \<Rightarrow> nat \<Rightarrow> loc \<Rightarrow> loc list res" where
  "set_loc ls v l = (if v < length ls then Inr (ls[v := l]) else Inl Panic)"

definition scan_step :: "range \<Rightarrow> scan_state \<Rightarrow> scan_state res" where
  "scan_step iv st0 =
     (case expire (rg_start iv) (sc_active st0) (sc_free st0) of (active, free) \<Rightarrow>
     (let st = st0\<lparr>sc_active := active, sc_free := free\<rparr> in
      case free of
        pool # rest \<Rightarrow>
          bindr (set_loc (sc_loc st) (rg_vreg iv) (In_Reg (POOL ! pool))) (\<lambda>ls.
            Inr (st\<lparr>sc_loc := ls, sc_free := rest,
              sc_active := active @ [(rg_end iv, pool, rg_vreg iv)]\<rparr>))
      | [] \<Rightarrow>
          (case furthest active of
             Some (e, pool, resident) \<Rightarrow>
               if e > rg_end iv then
                 bindr (set_loc (sc_loc st) (rg_vreg iv) (In_Reg (POOL ! pool))) (\<lambda>ls.
                 bindr (set_loc ls resident (In_Slot (sc_spills st))) (\<lambda>ls.
                   Inr (st\<lparr>sc_loc := ls, sc_spills := sc_spills st + 1,
                     sc_active := retarget pool (rg_vreg iv) active\<rparr>)))
               else
                 bindr (set_loc (sc_loc st) (rg_vreg iv) (In_Slot (sc_spills st))) (\<lambda>ls.
                   Inr (st\<lparr>sc_loc := ls, sc_spills := sc_spills st + 1\<rparr>))
           | None \<Rightarrow>
               bindr (set_loc (sc_loc st) (rg_vreg iv) (In_Slot (sc_spills st))) (\<lambda>ls.
                 Inr (st\<lparr>sc_loc := ls, sc_spills := sc_spills st + 1\<rparr>)))))"

fun scan :: "range list \<Rightarrow> scan_state \<Rightarrow> scan_state res" where
  "scan [] st = Inr st"
| "scan (iv # ivs) st = bindr (scan_step iv st) (scan ivs)"

definition scan_start :: "nat \<Rightarrow> scan_state" where
  "scan_start vregs = \<lparr>sc_loc = replicate vregs (In_Slot 0xFFFFFFFF), sc_free = [0..<length POOL],
     sc_active = [], sc_spills = 0\<rparr>"

definition allocate :: "ir_function \<Rightarrow> allocation res" where
  "allocate f =
     bindr (liveness (f_blocks f)) (\<lambda>live.
     bindr (scan (ordered_ranges f live) (scan_start (f_vregs f))) (\<lambda>st.
       Inr \<lparr>al_loc = sc_loc st, al_spills = sc_spills st\<rparr>))"

end
