(* ===== verification/Regalloc_Live.thy ===== *)
theory Regalloc_Live
  imports Regalloc
begin

text \<open>
  The dataflow part of the allocator: what \<open>gen\<close> and \<open>kill\<close> hold, the equations the fixpoint
  satisfies, its termination, and that the computed live-in sets are exactly the registers that
  some path reads before writing.
\<close>

section \<open>Sorted sets\<close>

definition bt_ok :: "nat list \<Rightarrow> bool" where "bt_ok xs \<longleftrightarrow> sorted xs \<and> distinct xs"

lemma bt_ok_Nil [simp]: "bt_ok []" by (simp add: bt_ok_def)

lemma set_bt_insert [simp]: "set (bt_insert v xs) = insert v (set xs)"
  by (simp add: bt_insert_def set_insort_insert)

lemma bt_ok_insert [simp]: "bt_ok xs \<Longrightarrow> bt_ok (bt_insert v xs)"
  by (simp add: bt_ok_def bt_insert_def sorted_insort_insert distinct_insort_insert)

lemma set_fold_bt_insert [simp]: "set (fold bt_insert ys xs) = set ys \<union> set xs"
  by (induction ys arbitrary: xs) auto

lemma bt_ok_fold_insert [simp]: "bt_ok xs \<Longrightarrow> bt_ok (fold bt_insert ys xs)"
  by (induction ys arbitrary: xs) auto

lemma bt_ok_set_eq: "bt_ok xs \<Longrightarrow> bt_ok ys \<Longrightarrow> set xs = set ys \<Longrightarrow> xs = ys"
  by (simp add: bt_ok_def sorted_distinct_set_unique)

lemma bt_ok_length: "bt_ok xs \<Longrightarrow> length xs = card (set xs)"
  by (simp add: bt_ok_def distinct_card)

lemma bt_ok_length_less:
  assumes "bt_ok xs" and "bt_ok ys" and "set xs \<subseteq> set ys" and "xs \<noteq> ys"
  shows "length xs < length ys"
proof -
  have "set xs \<subset> set ys" using assms bt_ok_set_eq by blast
  then show ?thesis using assms by (simp add: bt_ok_length psubset_card_mono)
qed

lemma set_through [simp]: "set (through gen kill out) = set gen \<union> (set out - set kill)"
  by (induction out arbitrary: gen) (auto simp: through_def)

lemma bt_ok_through [simp]: "bt_ok gen \<Longrightarrow> bt_ok (through gen kill out)"
  by (induction out arbitrary: gen) (auto simp: through_def)

section \<open>Gen and kill\<close>

definition uses :: "instr \<Rightarrow> vreg set" where "uses i = set (snd (uses_and_defs i))"
definition defs :: "instr \<Rightarrow> vreg set" where "defs i = set_option (fst (uses_and_defs i))"
definition term_uses :: "terminator \<Rightarrow> vreg set" where "term_uses t = fst ` set (term_touches 0 t)"

lemma set_gen_insert [simp]:
  "set (gen_insert kill v gen) = set gen \<union> ({v} - set kill)"
  by (auto simp: gen_insert_def)

lemma bt_ok_gen_insert [simp]: "bt_ok gen \<Longrightarrow> bt_ok (gen_insert kill v gen)"
  by (simp add: gen_insert_def)

lemma set_fold_gen_insert [simp]:
  "set (fold (gen_insert kill) us gen) = set gen \<union> (set us - set kill)"
  by (induction us arbitrary: gen) auto

lemma bt_ok_fold_gen_insert [simp]: "bt_ok gen \<Longrightarrow> bt_ok (fold (gen_insert kill) us gen)"
  by (induction us arbitrary: gen) auto

lemma gen_kill_instr_sets:
  "set (fst (gen_kill_instr i (gen, kill))) = set gen \<union> (uses i - set kill)"
  "set (snd (gen_kill_instr i (gen, kill))) = set kill \<union> defs i"
  by (auto simp: gen_kill_instr_def uses_def defs_def split: prod.splits option.splits)

lemma gen_kill_instr_ok: "bt_ok gen \<Longrightarrow> bt_ok (fst (gen_kill_instr i (gen, kill)))"
  by (auto simp: gen_kill_instr_def split: prod.splits)

text \<open>The registers that a list of instructions reads before writing them.\<close>

fun exposed :: "instr list \<Rightarrow> vreg set" where
  "exposed [] = {}"
| "exposed (i # is) = uses i \<union> (exposed is - defs i)"

lemma fold_gen_kill:
  "set (fst (fold gen_kill_instr is (gen, kill))) = set gen \<union> (exposed is - set kill) \<and>
   set (snd (fold gen_kill_instr is (gen, kill))) = set kill \<union> \<Union> (defs ` set is) \<and>
   (bt_ok gen \<longrightarrow> bt_ok (fst (fold gen_kill_instr is (gen, kill))))"
proof (induction "is" arbitrary: gen kill)
  case Nil
  then show ?case by simp
next
  case (Cons i "is")
  obtain g k where gk: "gen_kill_instr i (gen, kill) = (g, k)" by fastforce
  have s: "set g = set gen \<union> (uses i - set kill)" "set k = set kill \<union> defs i"
    "bt_ok gen \<longrightarrow> bt_ok g"
    using gen_kill_instr_sets [of i gen kill] gen_kill_instr_ok [of gen i kill] by (simp_all add: gk)
  show ?case using s Cons.IH [of g k] by (auto simp: gk)
qed

lemma set_gen_term: "set (gen_term t kill gen) = set gen \<union> (term_uses t - set kill)"
  by (auto simp: gen_term_def term_uses_def term_touches_def split: terminator.splits option.splits)

lemma bt_ok_gen_term: "bt_ok gen \<Longrightarrow> bt_ok (gen_term t kill gen)"
  by (auto simp: gen_term_def split: terminator.splits option.splits)

lemma set_kill: "set (kill_set b) = \<Union> (defs ` set (b_instrs b))"
  using fold_gen_kill [of "b_instrs b" "[]" "[]"]
  by (simp add: kill_set_def gen_kill_def case_prod_unfold)

lemma set_upward_uses:
  "set (upward_uses b) = exposed (b_instrs b) \<union> (term_uses (b_term b) - \<Union> (defs ` set (b_instrs b)))"
  using fold_gen_kill [of "b_instrs b" "[]" "[]"]
  by (simp add: upward_uses_def gen_kill_def case_prod_unfold set_gen_term)

lemma bt_ok_upward_uses [simp]: "bt_ok (upward_uses b)"
  using fold_gen_kill [of "b_instrs b" "[]" "[]"]
  by (simp add: upward_uses_def gen_kill_def case_prod_unfold bt_ok_gen_term)

section \<open>The dataflow equations at the fixpoint\<close>

definition outs :: "nat list list \<Rightarrow> block \<Rightarrow> vreg set" where
  "outs ins b = (\<Union>s\<in>set (succs b). set (ins ! s))"

lemma union_in_Inr:
  "union_in ins ss out = Inr out' \<Longrightarrow>
   (\<forall>s\<in>set ss. s < length ins) \<and> set out' = set out \<union> (\<Union>s\<in>set ss. set (ins ! s)) \<and>
   (bt_ok out \<longrightarrow> bt_ok out')"
proof (induction ss arbitrary: out)
  case (Cons s ss)
  then obtain i where "idx ins s = Inr i" "union_in ins ss (fold bt_insert i out) = Inr out'"
    by (auto simp: bindr_Inr_conv)
  with Cons.IH [of "fold bt_insert i out"] show ?case by (auto simp: idx_Inr_conv)
qed simp

lemma union_in_no_diverge: "union_in ins ss out \<noteq> Inl Diverge"
  by (induction ss arbitrary: out) (auto simp: bindr_Inl_conv idx_def)

lemma union_in_total: "\<forall>s\<in>set ss. s < length ins \<Longrightarrow> \<exists>out'. union_in ins ss out = Inr out'"
  by (induction ss arbitrary: out) auto

text \<open>Both sets of the block satisfy their equation.\<close>

definition block_stable :: "block list \<Rightarrow> live_sets \<Rightarrow> nat \<Rightarrow> bool" where
  "block_stable bs st bi \<longleftrightarrow>
     (\<forall>s\<in>set (succs (bs ! bi)). s < length (ls_in st)) \<and>
     set (ls_out st ! bi) = outs (ls_in st) (bs ! bi) \<and>
     set (ls_in st ! bi) = set (upward_uses (bs ! bi)) \<union> (outs (ls_in st) (bs ! bi) - set (kill_set (bs ! bi)))"

lemma live_block_unchanged:
  assumes "live_block bs bi st = Inr st'" and "\<not> ls_changed st'"
  shows "st' = st \<and> block_stable bs st bi"
proof -
  from assms(1) obtain out where o: "union_in (ls_in st) (succs (bs ! bi)) [] = Inr out"
    and s: "st' = (if out \<noteq> ls_out st ! bi \<or> through (upward_uses (bs ! bi)) (kill_set (bs ! bi)) out \<noteq> ls_in st ! bi
         then st\<lparr>ls_changed := True,
           ls_in := (ls_in st)[bi := through (upward_uses (bs ! bi)) (kill_set (bs ! bi)) out],
           ls_out := (ls_out st)[bi := out]\<rparr>
         else st)"
    by (auto simp: live_block_def bindr_Inr_conv Let_def)
  have e: "out = ls_out st ! bi" "through (upward_uses (bs ! bi)) (kill_set (bs ! bi)) out = ls_in st ! bi" "st' = st"
    using assms(2) s by (auto split: if_splits)
  have "set (ls_in st ! bi) = set (upward_uses (bs ! bi)) \<union> (set out - set (kill_set (bs ! bi)))"
    unfolding e(2) [symmetric] by simp
  then show ?thesis
    using union_in_Inr [OF o] e by (simp add: block_stable_def outs_def)
qed

lemma live_block_changed_mono:
  "live_block bs bi st = Inr st' \<Longrightarrow> ls_changed st \<Longrightarrow> ls_changed st'"
  by (auto simp: live_block_def bindr_Inr_conv Let_def split: if_splits)

lemma live_blocks_changed_mono:
  "live_blocks bs bis st = Inr st' \<Longrightarrow> ls_changed st \<Longrightarrow> ls_changed st'"
proof (induction bis arbitrary: st)
  case (Cons bi bis)
  then show ?case using live_block_changed_mono by (fastforce simp: bindr_Inr_conv)
qed simp

lemma live_blocks_unchanged:
  "live_blocks bs bis st = Inr st' \<Longrightarrow> \<not> ls_changed st' \<Longrightarrow>
   st' = st \<and> (\<forall>bi\<in>set bis. block_stable bs st bi)"
proof (induction bis arbitrary: st)
  case (Cons bi bis)
  then obtain s1 where s1: "live_block bs bi st = Inr s1" "live_blocks bs bis s1 = Inr st'"
    by (auto simp: bindr_Inr_conv)
  have "\<not> ls_changed s1" using live_blocks_changed_mono [OF s1(2)] Cons.prems(2) by blast
  then have "s1 = st \<and> block_stable bs st bi" using live_block_unchanged [OF s1(1)] by simp
  with Cons.IH [OF s1(2) Cons.prems(2)] show ?case by simp
qed simp

definition sweep_inv :: "block list \<Rightarrow> live_sets res \<Rightarrow> bool" where
  "sweep_inv bs s = (case s of Inl e \<Rightarrow> True
     | Inr st \<Rightarrow> ls_changed st \<or> (\<exists>st0. live_sweep bs st0 = Inr st))"

lemma block_stable_flag [simp]: "block_stable bs (st\<lparr>ls_changed := c\<rparr>) bi = block_stable bs st bi"
  by (simp add: block_stable_def)

lemma liveness_stable:
  assumes "liveness bs = Inr st" and "bi < length bs"
  shows "block_stable bs st bi"
proof -
  let ?b = "\<lambda>s. case s of Inl _ \<Rightarrow> False | Inr st \<Rightarrow> ls_changed st"
  let ?c = "\<lambda>s. bindr s (live_sweep bs)"
  have w: "while_option ?b ?c (Inr (live_start bs)) = Some (Inr st)"
    using assms(1) by (auto simp: liveness_def split: option.splits)
  have "sweep_inv bs (Inr st)"
  proof (rule while_option_rule [OF _ w])
    show "sweep_inv bs (?c s)" if "sweep_inv bs s" "?b s" for s
      using that by (auto simp: sweep_inv_def bindr_def split: sum.splits)
    show "sweep_inv bs (Inr (live_start bs))" by (simp add: sweep_inv_def live_start_def)
  qed
  moreover have "\<not> ls_changed st" using while_option_stop [OF w] by simp
  ultimately obtain st0 where "live_sweep bs st0 = Inr st" by (auto simp: sweep_inv_def)
  with \<open>\<not> ls_changed st\<close> live_blocks_unchanged [of bs "rev [0..<length bs]" _ st] assms(2)
  show ?thesis by (fastforce simp: live_sweep_def)
qed

section \<open>Termination\<close>

definition all_gen :: "block list \<Rightarrow> vreg set" where
  "all_gen bs = (\<Union>b\<in>set bs. set (upward_uses b))"

lemma finite_all_gen [simp]: "finite (all_gen bs)" by (simp add: all_gen_def)

text \<open>The sets only grow, and stay within the registers that some block reads.\<close>

definition live_inv :: "block list \<Rightarrow> live_sets \<Rightarrow> bool" where
  "live_inv bs st \<longleftrightarrow> length (ls_in st) = length bs \<and> length (ls_out st) = length bs \<and>
     (\<forall>bi<length bs. bt_ok (ls_in st ! bi) \<and> bt_ok (ls_out st ! bi) \<and>
        set (ls_in st ! bi) \<subseteq> all_gen bs \<and>
        ((\<forall>s\<in>set (succs (bs ! bi)). s < length bs) \<longrightarrow> set (ls_out st ! bi) \<subseteq> outs (ls_in st) (bs ! bi)) \<and>
        set (ls_out st ! bi) \<subseteq> all_gen bs \<and>
        set (ls_in st ! bi) \<subseteq> set (upward_uses (bs ! bi)) \<union> (set (ls_out st ! bi) - set (kill_set (bs ! bi))))"

definition live_size :: "live_sets \<Rightarrow> nat" where
  "live_size st = (\<Sum>xs\<leftarrow>ls_in st. length xs) + (\<Sum>xs\<leftarrow>ls_out st. length xs)"

lemma sum_list_map_update:
  "i < length xs \<Longrightarrow> (\<Sum>x\<leftarrow>xs[i := y]. (f x :: nat)) + f (xs ! i) = (\<Sum>x\<leftarrow>xs. f x) + f y"
  by (induction xs arbitrary: i) (auto split: nat.splits)

lemma live_block_step:
  assumes inv: "live_inv bs st" and bi: "bi < length bs" and r: "live_block bs bi st = Inr st'"
  shows "live_inv bs st' \<and>
    (st' = st \<or> live_size st < live_size st')"
proof -
  let ?b = "bs ! bi"
  from r obtain out where o: "union_in (ls_in st) (succs ?b) [] = Inr out"
    and s: "st' = (if out \<noteq> ls_out st ! bi \<or> through (upward_uses ?b) (kill_set ?b) out \<noteq> ls_in st ! bi
         then st\<lparr>ls_changed := True,
           ls_in := (ls_in st)[bi := through (upward_uses ?b) (kill_set ?b) out],
           ls_out := (ls_out st)[bi := out]\<rparr>
         else st)"
    by (auto simp: live_block_def bindr_Inr_conv Let_def)
  let ?inn = "through (upward_uses ?b) (kill_set ?b) out"
  have lens: "length (ls_in st) = length bs" "length (ls_out st) = length bs"
    using inv by (simp_all add: live_inv_def)
  have out: "\<forall>s\<in>set (succs ?b). s < length bs" "set out = outs (ls_in st) ?b" "bt_ok out"
    using union_in_Inr [OF o] lens by (simp_all add: outs_def)
  have old: "bt_ok (ls_in st ! bi)" "bt_ok (ls_out st ! bi)" "set (ls_out st ! bi) \<subseteq> set out"
    using inv bi out unfolding live_inv_def by simp_all
  have "set (ls_in st ! bi) \<subseteq> set (upward_uses ?b) \<union> (set (ls_out st ! bi) - set (kill_set ?b))"
    using inv bi unfolding live_inv_def by blast
  then have oldin: "set (ls_in st ! bi) \<subseteq> set ?inn" using old(3) by auto
  have V: "set out \<subseteq> all_gen bs"
    using inv out(1) unfolding out(2) outs_def live_inv_def by blast
  have V': "set ?inn \<subseteq> all_gen bs" using V nth_mem [OF bi] by (fastforce simp: all_gen_def simp del: nth_mem)
  show ?thesis
  proof (cases "st' = st")
    case True
    then show ?thesis using inv by simp
  next
    case False
    with s have st': "st' = st\<lparr>ls_changed := True, ls_in := (ls_in st)[bi := ?inn], ls_out := (ls_out st)[bi := out]\<rparr>"
      and diff: "out \<noteq> ls_out st ! bi \<or> ?inn \<noteq> ls_in st ! bi"
      by (auto split: if_splits)
    have grow: "set (ls_in st ! k) \<subseteq> set ((ls_in st)[bi := ?inn] ! k)" for k
      using oldin bi lens by (cases "k = bi") auto
    have growo: "outs (ls_in st) b \<subseteq> outs ((ls_in st)[bi := ?inn]) b" for b
      unfolding outs_def using grow by blast
    have "live_inv bs st'"
      unfolding live_inv_def
    proof (intro conjI allI impI)
      fix k assume k: "k < length bs"
      show "bt_ok (ls_in st' ! k)" "bt_ok (ls_out st' ! k)"
        using inv k out(3) lens bi by (cases "k = bi"; simp add: st' live_inv_def)+
      show "set (ls_in st' ! k) \<subseteq> all_gen bs" "set (ls_out st' ! k) \<subseteq> all_gen bs"
        using inv k V V' lens bi by (cases "k = bi"; simp add: st' live_inv_def)+
      show "set (ls_in st' ! k) \<subseteq> set (upward_uses (bs ! k)) \<union> (set (ls_out st' ! k) - set (kill_set (bs ! k)))"
        using inv k lens bi by (cases "k = bi"; simp add: st' live_inv_def)
      show "set (ls_out st' ! k) \<subseteq> outs (ls_in st') (bs ! k)"
        if "\<forall>s\<in>set (succs (bs ! k)). s < length bs"
      proof (cases "k = bi")
        case True
        then show ?thesis using growo [of ?b] out(2) lens bi by (simp add: st')
      next
        case False
        then show ?thesis
          using inv k that growo [of "bs ! k"] lens bi unfolding live_inv_def st' by fastforce
      qed
    qed (simp_all add: st' lens)
    moreover have "length (ls_in st ! bi) + length (ls_out st ! bi) < length ?inn + length out"
    proof -
      have le: "length (ls_in st ! bi) \<le> length ?inn" "length (ls_out st ! bi) \<le> length out"
        using old oldin out(3) by (simp_all add: bt_ok_length card_mono)
      from diff show ?thesis
      proof
        assume "out \<noteq> ls_out st ! bi"
        then show ?thesis using bt_ok_length_less [OF old(2) out(3) old(3)] le(1) by fastforce
      next
        assume "?inn \<noteq> ls_in st ! bi"
        then show ?thesis using bt_ok_length_less [OF old(1) _ oldin] le(2) by fastforce
      qed
    qed
    then have "live_size st < live_size st'"
      using sum_list_map_update [of bi "ls_in st" length ?inn] sum_list_map_update [of bi "ls_out st" length out]
        bi lens by (simp add: live_size_def st')
    ultimately show ?thesis by simp
  qed
qed

lemma live_blocks_step:
  "live_inv bs st \<Longrightarrow> \<forall>bi\<in>set bis. bi < length bs \<Longrightarrow> live_blocks bs bis st = Inr st' \<Longrightarrow>
   live_inv bs st' \<and> (st' = st \<or> live_size st < live_size st')"
proof (induction bis arbitrary: st)
  case (Cons bi bis)
  then obtain s1 where s1: "live_block bs bi st = Inr s1" "live_blocks bs bis s1 = Inr st'"
    by (auto simp: bindr_Inr_conv)
  have "live_inv bs s1 \<and> (s1 = st \<or> live_size st < live_size s1)"
    using live_block_step [OF Cons.prems(1) _ s1(1)] Cons.prems(2) by simp
  with Cons.IH [of s1] Cons.prems(2) s1(2) show ?case by force
qed simp

lemma live_blocks_no_diverge: "live_blocks bs bis st \<noteq> Inl Diverge"
proof (induction bis arbitrary: st)
  case (Cons bi bis)
  then show ?case
    by (auto simp: bindr_Inl_conv live_block_def Let_def union_in_no_diverge)
qed simp

lemma live_inv_flag [simp]: "live_inv bs (st\<lparr>ls_changed := c\<rparr>) = live_inv bs st"
  by (simp add: live_inv_def)

lemma live_size_flag [simp]: "live_size (st\<lparr>ls_changed := c\<rparr>) = live_size st"
  by (simp add: live_size_def)

lemma live_sweep_step:
  assumes "live_inv bs st" and "live_sweep bs st = Inr st'"
  shows "live_inv bs st' \<and> (\<not> ls_changed st' \<or> live_size st < live_size st')"
  using live_blocks_step [of bs "st\<lparr>ls_changed := False\<rparr>" "rev [0..<length bs]" st'] assms
  by (auto simp: live_sweep_def)

lemma live_size_bound:
  assumes "live_inv bs st"
  shows "live_size st \<le> 2 * (length bs * card (all_gen bs))"
proof -
  have le: "(\<Sum>xs\<leftarrow>xss. length xs) \<le> length xss * card (all_gen bs)"
    if "\<forall>xs\<in>set xss. bt_ok xs \<and> set xs \<subseteq> all_gen bs" for xss
    using that
    by (induction xss) (auto simp: bt_ok_length intro!: add_mono card_mono)
  have "\<forall>xs\<in>set (ls_in st). bt_ok xs \<and> set xs \<subseteq> all_gen bs" "\<forall>xs\<in>set (ls_out st). bt_ok xs \<and> set xs \<subseteq> all_gen bs"
    using assms unfolding live_inv_def by (metis in_set_conv_nth)+
  from le [OF this(1)] le [OF this(2)] assms show ?thesis by (simp add: live_size_def live_inv_def)
qed

lemma live_inv_start: "live_inv bs (live_start bs)"
  by (simp add: live_inv_def live_start_def)

lemma liveness_terminates:
  "\<exists>s. while_option (\<lambda>s. case s of Inl _ \<Rightarrow> False | Inr st \<Rightarrow> ls_changed st)
      (\<lambda>s. bindr s (live_sweep bs)) (Inr (live_start bs)) = Some s"
proof -
  let ?B = "2 * (length bs * card (all_gen bs))"
  let ?P = "\<lambda>s. case s of Inl e \<Rightarrow> True | Inr st \<Rightarrow> live_inv bs st"
  let ?f = "\<lambda>s. case s of Inl _ \<Rightarrow> 0 | Inr st \<Rightarrow> 2 * (?B - live_size st) + (if ls_changed st then 1 else 0) + 1"
  have step: "?P (bindr s (live_sweep bs)) \<and> ?f (bindr s (live_sweep bs)) < ?f s"
    if P: "?P s" and b: "case s of Inl _ \<Rightarrow> False | Inr st \<Rightarrow> ls_changed st" for s
  proof -
    obtain st where s: "s = Inr st" "live_inv bs st" "ls_changed st"
      using P b by (cases s) auto
    show ?thesis
    proof (cases "live_sweep bs st")
      case (Inl e)
      then show ?thesis by (simp add: s)
    next
      case (Inr st')
      note step = live_sweep_step [OF s(2) Inr]
      have "live_size st' \<le> ?B" using live_size_bound step by blast
      then show ?thesis using step s Inr live_blocks_step [of bs "st\<lparr>ls_changed := False\<rparr>" "rev [0..<length bs]" st']
        by (auto simp: live_sweep_def)
    qed
  qed
  show ?thesis
    by (rule measure_while_option_Some [where P = ?P and f = ?f, OF step])
      (simp_all add: live_inv_start)
qed

lemma liveness_inv:
  assumes "liveness bs = s"
  shows "case s of Inl e \<Rightarrow> e \<noteq> Diverge | Inr st \<Rightarrow> live_inv bs st"
proof -
  let ?P = "\<lambda>s. case s of Inl e \<Rightarrow> e \<noteq> Diverge | Inr st \<Rightarrow> live_inv bs st"
  obtain t where w: "while_option (\<lambda>s. case s of Inl _ \<Rightarrow> False | Inr st \<Rightarrow> ls_changed st)
      (\<lambda>s. bindr s (live_sweep bs)) (Inr (live_start bs)) = Some t"
    using liveness_terminates by blast
  have "?P t"
  proof (rule while_option_rule [OF _ w])
    show "?P (bindr s (live_sweep bs))" if "?P s" and "case s of Inl _ \<Rightarrow> False | Inr st \<Rightarrow> ls_changed st" for s
      using that live_sweep_step [of bs] live_blocks_no_diverge
      by (auto simp: bindr_def live_sweep_def split: sum.splits)
    show "?P (Inr (live_start bs))" by (simp add: live_inv_start)
  qed
  then show ?thesis using assms by (simp add: liveness_def w)
qed

section \<open>Exactness\<close>

text \<open>
  \<open>live bs v b i\<close>: some path from instruction \<open>i\<close> of block \<open>b\<close> reads \<open>v\<close> before writing it.
\<close>

inductive live :: "block list \<Rightarrow> vreg \<Rightarrow> nat \<Rightarrow> nat \<Rightarrow> bool" for bs v where
  live_use: "b < length bs \<Longrightarrow> i < length (b_instrs (bs ! b)) \<Longrightarrow> v \<in> uses (b_instrs (bs ! b) ! i) \<Longrightarrow>
    live bs v b i"
| live_skip: "b < length bs \<Longrightarrow> i < length (b_instrs (bs ! b)) \<Longrightarrow> v \<notin> defs (b_instrs (bs ! b) ! i) \<Longrightarrow>
    live bs v b (Suc i) \<Longrightarrow> live bs v b i"
| live_term: "b < length bs \<Longrightarrow> i = length (b_instrs (bs ! b)) \<Longrightarrow> v \<in> term_uses (b_term (bs ! b)) \<Longrightarrow>
    live bs v b i"
| live_succ: "b < length bs \<Longrightarrow> i = length (b_instrs (bs ! b)) \<Longrightarrow> s \<in> set (succs (bs ! b)) \<Longrightarrow>
    live bs v s 0 \<Longrightarrow> live bs v b i"

inductive_cases live_end_cases: "live bs v b (length (b_instrs (bs ! b)))"

lemma live_in_range: "live bs v b i \<Longrightarrow> b < length bs \<and> i \<le> length (b_instrs (bs ! b))"
  by (induction rule: live.induct) auto

text \<open>What must be available before a suffix of a block, given what is needed at its end.\<close>

definition needed :: "instr list \<Rightarrow> vreg set \<Rightarrow> vreg set" where
  "needed is T = exposed is \<union> (T - \<Union> (defs ` set is))"

lemma needed_simps [simp]:
  "needed [] T = T"
  "needed (i # is) T = uses i \<union> (needed is T - defs i)"
  by (auto simp: needed_def)

lemma needed_drop:
  "i < length xs \<Longrightarrow> needed (drop i xs) T = uses (xs ! i) \<union> (needed (drop (Suc i) xs) T - defs (xs ! i))"
  by (simp flip: Cons_nth_drop_Suc)

lemma stable_in_needed:
  assumes "block_stable bs st b"
  shows "set (ls_in st ! b) = needed (b_instrs (bs ! b)) (term_uses (b_term (bs ! b)) \<union> set (ls_out st ! b))"
  using assms by (auto simp: block_stable_def needed_def set_upward_uses set_kill)

lemma live_needed:
  assumes "\<forall>b<length bs. block_stable bs st b" and "live bs v b i"
  shows "v \<in> needed (drop i (b_instrs (bs ! b))) (term_uses (b_term (bs ! b)) \<union> set (ls_out st ! b))"
  using assms(2)
proof (induction rule: live.induct)
  case (live_succ b i s)
  have "v \<in> set (ls_in st ! s)"
    using live_succ.IH stable_in_needed [of bs st s] assms(1) live_in_range [OF live_succ.hyps(4)] by simp
  then have "v \<in> set (ls_out st ! b)"
    using assms(1) live_succ.hyps by (auto simp: block_stable_def outs_def)
  then show ?case using live_succ.hyps by simp
qed (simp_all add: needed_drop)

lemma needed_live:
  assumes "b < length bs" and "\<forall>v\<in>T. live bs v b (length (b_instrs (bs ! b)))"
    and "i \<le> length (b_instrs (bs ! b))" and "v \<in> needed (drop i (b_instrs (bs ! b))) T"
  shows "live bs v b i"
  using assms(3,4)
proof (induction rule: inc_induct)
  case base
  then show ?case using assms(2) by simp
next
  case (step n)
  then show ?case using assms(1) by (auto simp: needed_drop intro: live_use live_skip)
qed

definition live_sound :: "block list \<Rightarrow> live_sets \<Rightarrow> bool" where
  "live_sound bs st \<longleftrightarrow> length (ls_in st) = length bs \<and> length (ls_out st) = length bs \<and>
     (\<forall>b<length bs. (\<forall>v\<in>set (ls_in st ! b). live bs v b 0) \<and>
        (\<forall>v\<in>set (ls_out st ! b). live bs v b (length (b_instrs (bs ! b)))))"

lemma live_block_sound:
  assumes inv: "live_sound bs st" and bi: "bi < length bs" and r: "live_block bs bi st = Inr st'"
  shows "live_sound bs st'"
proof -
  let ?b = "bs ! bi"
  from r obtain out where o: "union_in (ls_in st) (succs ?b) [] = Inr out"
    and s: "st' = (if out \<noteq> ls_out st ! bi \<or> through (upward_uses ?b) (kill_set ?b) out \<noteq> ls_in st ! bi
         then st\<lparr>ls_changed := True,
           ls_in := (ls_in st)[bi := through (upward_uses ?b) (kill_set ?b) out],
           ls_out := (ls_out st)[bi := out]\<rparr>
         else st)"
    by (auto simp: live_block_def bindr_Inr_conv Let_def)
  have out: "live bs v bi (length (b_instrs ?b))" if v: "v \<in> set out" for v
  proof -
    obtain s where "s \<in> set (succs ?b)" "v \<in> set (ls_in st ! s)" "s < length bs"
      using v union_in_Inr [OF o] inv by (auto simp: live_sound_def)
    then show ?thesis using inv bi by (auto simp: live_sound_def intro: live_succ)
  qed
  have "live bs v bi 0" if "v \<in> set (through (upward_uses ?b) (kill_set ?b) out)" for v
  proof (rule needed_live [OF bi, of "term_uses (b_term ?b) \<union> set out"])
    show "v \<in> needed (drop 0 (b_instrs ?b)) (term_uses (b_term ?b) \<union> set out)"
      using that by (auto simp: needed_def set_upward_uses set_kill)
  qed (use out bi in \<open>auto intro: live_term\<close>)
  then show ?thesis using inv out bi s by (auto simp: live_sound_def nth_list_update)
qed

lemma live_blocks_sound:
  "live_sound bs st \<Longrightarrow> \<forall>bi\<in>set bis. bi < length bs \<Longrightarrow> live_blocks bs bis st = Inr st' \<Longrightarrow> live_sound bs st'"
proof (induction bis arbitrary: st)
  case (Cons bi bis)
  then show ?case using live_block_sound by (fastforce simp: bindr_Inr_conv)
qed simp

lemma live_sound_flag [simp]: "live_sound bs (st\<lparr>ls_changed := c\<rparr>) = live_sound bs st"
  by (simp add: live_sound_def)

lemma liveness_sound:
  assumes "liveness bs = Inr st"
  shows "live_sound bs st"
proof -
  let ?P = "\<lambda>s :: live_sets res. case s of Inl e \<Rightarrow> True | Inr st \<Rightarrow> live_sound bs st"
  have w: "while_option (\<lambda>s. case s of Inl _ \<Rightarrow> False | Inr st \<Rightarrow> ls_changed st)
      (\<lambda>s. bindr s (live_sweep bs)) (Inr (live_start bs)) = Some (Inr st)"
    using assms by (auto simp: liveness_def split: option.splits)
  have "?P (Inr st)"
  proof (rule while_option_rule [where P = ?P, OF _ w])
    show "?P (bindr s (live_sweep bs))" if "?P s" and "case s of Inl _ \<Rightarrow> False | Inr st \<Rightarrow> ls_changed st" for s
      using that live_blocks_sound [of bs "_\<lparr>ls_changed := False\<rparr>" "rev [0..<length bs]"]
      by (auto simp: bindr_def live_sweep_def split: sum.splits)
    show "?P (Inr (live_start bs))" by (simp add: live_sound_def live_start_def)
  qed
  then show ?thesis by simp
qed

lemma liveness_stable_all: "liveness bs = Inr st \<Longrightarrow> \<forall>b<length bs. block_stable bs st b"
  using liveness_stable by blast

lemma liveness_exact_in:
  assumes "liveness bs = Inr st" and "b < length bs"
  shows "v \<in> set (ls_in st ! b) \<longleftrightarrow> live bs v b 0"
  using live_needed [OF liveness_stable_all [OF assms(1)], of v b 0] liveness_sound [OF assms(1)] assms(2)
    stable_in_needed [OF liveness_stable [OF assms]]
  by (auto simp: live_sound_def)

text \<open>With branch targets in range the sweeps never panic.\<close>

lemma live_blocks_total:
  "live_inv bs st \<Longrightarrow> \<forall>b\<in>set bs. \<forall>s\<in>set (succs b). s < length bs \<Longrightarrow>
   \<forall>bi\<in>set bis. bi < length bs \<Longrightarrow> \<exists>st'. live_blocks bs bis st = Inr st'"
proof (induction bis arbitrary: st)
  case (Cons bi bis)
  have "\<forall>s\<in>set (succs (bs ! bi)). s < length (ls_in st)"
  proof -
    have "bs ! bi \<in> set bs" using Cons.prems(3) by simp
    then show ?thesis using Cons.prems(1,2) unfolding live_inv_def by metis
  qed
  then obtain out where "union_in (ls_in st) (succs (bs ! bi)) [] = Inr out"
    using union_in_total by blast
  then obtain s1 where s1: "live_block bs bi st = Inr s1"
    by (simp add: live_block_def Let_def)
  have "live_inv bs s1" using live_block_step [OF Cons.prems(1) _ s1] Cons.prems(3) by simp
  with Cons.IH [of s1] Cons.prems show ?case by (simp add: s1)
qed simp

lemma liveness_total:
  assumes "\<forall>b\<in>set bs. \<forall>s\<in>set (succs b). s < length bs"
  shows "\<exists>st. liveness bs = Inr st"
proof -
  let ?P = "\<lambda>s :: live_sets res. \<exists>st. s = Inr st \<and> live_inv bs st"
  obtain t where w: "while_option (\<lambda>s. case s of Inl _ \<Rightarrow> False | Inr st \<Rightarrow> ls_changed st)
      (\<lambda>s. bindr s (live_sweep bs)) (Inr (live_start bs)) = Some t"
    using liveness_terminates by blast
  have "?P t"
  proof (rule while_option_rule [where P = ?P, OF _ w])
    show "?P (bindr s (live_sweep bs))" if s: "?P s" and "case s of Inl _ \<Rightarrow> False | Inr st \<Rightarrow> ls_changed st" for s
    proof -
      obtain st where st: "s = Inr st" "live_inv bs st" using s by blast
      obtain st' where "live_sweep bs st = Inr st'"
        using live_blocks_total [of bs "st\<lparr>ls_changed := False\<rparr>" "rev [0..<length bs]"] st assms
        by (auto simp: live_sweep_def)
      then show ?thesis using st live_sweep_step by auto
    qed
  qed (simp add: live_inv_start)
  then show ?thesis by (auto simp: liveness_def w)
qed

end
