(* ===== verification/Regalloc_Scan.thy ===== *)
theory Regalloc_Scan
  imports Regalloc "HOL-Library.Multiset"
begin

text \<open>
  The interval part of the allocator: what the range map holds, and the invariant of the linear
  scan - two ranges that overlap never share a location.
\<close>

section \<open>The range map\<close>

definition keyed :: "(nat \<times> nat \<times> nat) list \<Rightarrow> bool" where
  "keyed m \<longleftrightarrow> sorted (map fst m) \<and> distinct (map fst m)"

lemma fst_set_touch: "fst ` set (touch v pos m) = insert v (fst ` set m)"
  by (induction v pos m rule: touch.induct) auto

lemma fst_set_or_insert: "fst ` set (or_insert v m) = insert v (fst ` set m)"
  by (induction v m rule: or_insert.induct) auto

lemma keyed_Cons: "keyed ((k, x) # m) \<longleftrightarrow> keyed m \<and> (\<forall>k'\<in>fst ` set m. k < k')"
  by (auto simp: keyed_def) (metis fst_conv image_eqI order_le_imp_less_or_eq)+

lemma keyed_touch: "keyed m \<Longrightarrow> keyed (touch v pos m)"
proof (induction v pos m rule: touch.induct)
  case (2 v pos k s e m)
  then show ?case by (auto simp: keyed_Cons fst_set_touch)
qed (simp add: keyed_def)

lemma keyed_or_insert: "keyed m \<Longrightarrow> keyed (or_insert v m)"
proof (induction v m rule: or_insert.induct)
  case (2 v k s e m)
  then show ?case by (auto simp: keyed_Cons fst_set_or_insert)
qed (simp add: keyed_def)

text \<open>\<open>covers m v p\<close>: the range of \<open>v\<close> contains position \<open>p\<close>.\<close>

definition covers :: "(nat \<times> nat \<times> nat) list \<Rightarrow> nat \<Rightarrow> nat \<Rightarrow> bool" where
  "covers m v p \<longleftrightarrow> (\<exists>s e. (v, s, e) \<in> set m \<and> s \<le> p \<and> p \<le> e)"

lemma covers_simps [simp]:
  "covers [] v p \<longleftrightarrow> False"
  "covers ((k, s, e) # m) v p \<longleftrightarrow> (k = v \<and> s \<le> p \<and> p \<le> e) \<or> covers m v p"
  by (auto simp: covers_def)

lemma covers_touch_mono: "covers m w q \<Longrightarrow> covers (touch v p m) w q"
  by (induction v p m rule: touch.induct) auto

lemma covers_touch: "covers (touch v p m) v p"
  by (induction v p m rule: touch.induct) auto

lemma covers_or_insert: "covers m w q \<Longrightarrow> covers (or_insert v m) w q"
  by (induction v m rule: or_insert.induct) auto

lemma fold_touch:
  "keyed m \<Longrightarrow> keyed (fold (\<lambda>(v, pos). touch v pos) ts m) \<and>
   fst ` set (fold (\<lambda>(v, pos). touch v pos) ts m) = fst ` set m \<union> fst ` set ts \<and>
   (\<forall>v p. covers m v p \<or> (v, p) \<in> set ts \<longrightarrow> covers (fold (\<lambda>(v, pos). touch v pos) ts m) v p)"
proof (induction ts arbitrary: m)
  case (Cons t ts)
  obtain v p where t: "t = (v, p)" by fastforce
  from Cons.IH [of "touch v p m"] Cons.prems
  show ?case
    by (auto simp: t keyed_touch fst_set_touch covers_touch covers_touch_mono)
qed simp

lemma fold_or_insert:
  "keyed m \<Longrightarrow> keyed (fold or_insert vs m) \<and> fst ` set (fold or_insert vs m) = fst ` set m \<union> set vs \<and>
   (\<forall>v p. covers m v p \<longrightarrow> covers (fold or_insert vs m) v p)"
proof (induction vs arbitrary: m)
  case (Cons v vs)
  from Cons.IH [of "or_insert v m"] Cons.prems
  show ?case by (auto simp: keyed_or_insert fst_set_or_insert covers_or_insert)
qed simp

lemma build_ranges_props:
  shows keyed_build_ranges: "keyed (build_ranges f st)"
    and keys_build_ranges: "fst ` set (build_ranges f st) = {..<f_vregs f} \<union> fst ` set (all_touches f st)"
    and covers_build_ranges: "(v, p) \<in> set (all_touches f st) \<Longrightarrow> covers (build_ranges f st) v p"
  using fold_touch [of "[]" "all_touches f st"]
    fold_or_insert [of "fold (\<lambda>(v, pos). touch v pos) (all_touches f st) []" "[0..<f_vregs f]"]
  by (auto simp: build_ranges_def keyed_def)

section \<open>The order of the ranges\<close>

lemma set_ordered_ranges:
  "r \<in> set (ordered_ranges f st) \<longleftrightarrow> (rg_vreg r, rg_start r, rg_end r) \<in> set (build_ranges f st)"
  by (cases r) (force simp: ordered_ranges_def image_iff)

lemma distinct_ordered_ranges: "distinct (map rg_vreg (ordered_ranges f st))"
proof -
  let ?m = "map (\<lambda>(v, s, e). \<lparr>rg_vreg = v, rg_start = s, rg_end = e\<rparr>) (build_ranges f st)"
  have m: "map rg_vreg ?m = map fst (build_ranges f st)" by auto
  have "distinct (map rg_vreg ?m)"
    unfolding m using keyed_build_ranges [of f st] by (simp add: keyed_def)
  moreover have "mset (map rg_vreg (ordered_ranges f st)) = mset (map rg_vreg ?m)"
    by (simp only: ordered_ranges_def mset_map mset_sort)
  ultimately show ?thesis by (metis mset_eq_imp_distinct_iff)
qed

lemma sorted_ordered_ranges: "sorted (map rg_start (ordered_ranges f st))"
proof -
  have "sorted (map (\<lambda>r. (rg_start r, rg_end r, rg_vreg r)) (ordered_ranges f st))"
    by (simp add: ordered_ranges_def)
  then show ?thesis
    by (auto simp: sorted_iff_nth_mono less_eq_prod_def) (meson order_le_less)
qed

section \<open>The invariant of the scan\<close>

definition overlap :: "range \<Rightarrow> range \<Rightarrow> bool" where
  "overlap r r' \<longleftrightarrow> rg_start r \<le> rg_end r' \<and> rg_start r' \<le> rg_end r"

abbreviation pool_of :: "nat \<times> nat \<times> vreg \<Rightarrow> nat" where "pool_of a \<equiv> fst (snd a)"

definition pools_ok :: "(nat \<times> nat \<times> vreg) list \<Rightarrow> nat list \<Rightarrow> bool" where
  "pools_ok act free \<longleftrightarrow> distinct (map pool_of act @ free) \<and>
     (\<forall>p\<in>set (map pool_of act @ free). p < length POOL)"

text \<open>
  \<open>cur\<close> is the start of the range processed last. A register location belongs to an active entry
  or to a range that ended before \<open>cur\<close>.
\<close>

definition homes_ok :: "nat \<Rightarrow> range list \<Rightarrow> loc list \<Rightarrow> (nat \<times> nat \<times> vreg) list \<Rightarrow> nat \<Rightarrow> bool" where
  "homes_ok cur rs ls act spills \<longleftrightarrow>
     (\<forall>r\<in>set rs. rg_vreg r < length ls \<and>
        (case ls ! rg_vreg r of
           In_Reg ph \<Rightarrow> \<exists>p<length POOL. ph = POOL ! p \<and>
             (rg_end r < cur \<or> (\<exists>e\<ge>rg_end r. (e, p, rg_vreg r) \<in> set act))
         | In_Slot k \<Rightarrow> unat k < spills))"

definition residents_ok :: "range list \<Rightarrow> loc list \<Rightarrow> (nat \<times> nat \<times> vreg) list \<Rightarrow> bool" where
  "residents_ok rs ls act \<longleftrightarrow>
     (\<forall>(e, p, v)\<in>set act. v \<in> rg_vreg ` set rs \<and> ls ! v = In_Reg (POOL ! p))"

definition apart :: "range list \<Rightarrow> loc list \<Rightarrow> bool" where
  "apart rs ls \<longleftrightarrow> (\<forall>r\<in>set rs. \<forall>r'\<in>set rs. rg_vreg r \<noteq> rg_vreg r' \<longrightarrow>
     (ls ! rg_vreg r = ls ! rg_vreg r' \<longrightarrow> \<not> overlap r r' \<and> (\<exists>ph. ls ! rg_vreg r = In_Reg ph)))"

definition scan_inv :: "nat \<Rightarrow> range list \<Rightarrow> scan_state \<Rightarrow> bool" where
  "scan_inv cur rs st \<longleftrightarrow> pools_ok (sc_active st) (sc_free st) \<and>
     homes_ok cur rs (sc_loc st) (sc_active st) (unat (sc_spills st)) \<and>
     residents_ok rs (sc_loc st) (sc_active st) \<and> apart rs (sc_loc st) \<and>
     unat (sc_spills st) \<le> length rs"

lemma POOL_inj: "p < length POOL \<Longrightarrow> q < length POOL \<Longrightarrow> POOL ! p = POOL ! q \<longleftrightarrow> p = q"
proof -
  have "distinct POOL" by (simp add: POOL_def)
  then show "p < length POOL \<Longrightarrow> q < length POOL \<Longrightarrow> POOL ! p = POOL ! q \<longleftrightarrow> p = q"
    by (simp add: nth_eq_iff_index_eq)
qed

lemma expire_filter: "fst (expire start act free) = filter (\<lambda>a. \<not> fst a < start) act"
  by (induction start act free rule: expire.induct) (auto split: prod.splits)

lemma expire_mset:
  "mset (map pool_of (fst (expire start act free)) @ snd (expire start act free)) = mset (map pool_of act @ free)"
  by (induction start act free rule: expire.induct) (auto split: prod.splits)

lemma pools_ok_expire:
  "pools_ok act free \<Longrightarrow> pools_ok (fst (expire start act free)) (snd (expire start act free))"
  unfolding pools_ok_def
  using expire_mset [of start act free] mset_eq_imp_distinct_iff mset_eq_setD by metis

lemma furthest_in: "furthest act = Some a \<Longrightarrow> a \<in> set act"
  by (induction act arbitrary: a) (auto split: option.splits if_splits)

lemma set_retarget:
  "distinct (map pool_of act) \<Longrightarrow> (e, p, r) \<in> set act \<Longrightarrow>
   set (retarget p v act) = insert (e, p, v) {a \<in> set act. pool_of a \<noteq> p}"
proof (induction act)
  case (Cons a act)
  obtain e' p' r' where a: "a = (e', p', r')" by (cases a)
  show ?case
  proof (cases "p' = p")
    case True
    then have "\<forall>b\<in>set act. pool_of b \<noteq> p" using Cons.prems(1) by (auto simp: a)
    then have "(e', p', r') = (e, p, r)" using Cons.prems(2) by (auto simp: a)
    with True \<open>\<forall>b\<in>set act. pool_of b \<noteq> p\<close> show ?thesis by (auto simp: a)
  next
    case False
    then show ?thesis using Cons by (auto simp: a)
  qed
qed simp

lemma pools_retarget: "map pool_of (retarget p v act) = map pool_of act"
  by (induction p v act rule: retarget.induct) auto

text \<open>Expiry keeps the invariant with the start of the new range as the current position.\<close>

lemma scan_inv_expire:
  assumes "scan_inv cur rs st" and "cur \<le> start"
  shows "scan_inv start rs (st\<lparr>sc_active := fst (expire start (sc_active st) (sc_free st)),
     sc_free := snd (expire start (sc_active st) (sc_free st))\<rparr>)"
proof -
  have "homes_ok start rs (sc_loc st) (filter (\<lambda>a. \<not> fst a < start) (sc_active st)) (unat (sc_spills st))"
    unfolding homes_ok_def
  proof (intro ballI conjI)
    fix r assume r: "r \<in> set rs"
    have old: "rg_vreg r < length (sc_loc st) \<and> (case sc_loc st ! rg_vreg r of
        In_Reg ph \<Rightarrow> \<exists>p<length POOL. ph = POOL ! p \<and>
          (rg_end r < cur \<or> (\<exists>e\<ge>rg_end r. (e, p, rg_vreg r) \<in> set (sc_active st)))
      | In_Slot k \<Rightarrow> unat k < unat (sc_spills st))"
      using assms(1) r by (simp add: scan_inv_def homes_ok_def)
    then show "rg_vreg r < length (sc_loc st)" by simp
    from old show "case sc_loc st ! rg_vreg r of
        In_Reg ph \<Rightarrow> \<exists>p<length POOL. ph = POOL ! p \<and>
          (rg_end r < start \<or> (\<exists>e\<ge>rg_end r. (e, p, rg_vreg r) \<in> set (filter (\<lambda>a. \<not> fst a < start) (sc_active st))))
      | In_Slot k \<Rightarrow> unat k < unat (sc_spills st)"
      using assms(2) by (auto split: loc.splits) (metis leI order_le_less_trans)+
  qed
  then show ?thesis
    using assms(1) pools_ok_expire [of "sc_active st" "sc_free st" start]
    by (auto simp: scan_inv_def expire_filter residents_ok_def)
qed

lemma update_other:
  "v \<notin> rg_vreg ` set rs \<Longrightarrow> r \<in> set rs \<Longrightarrow> ls[v := l] ! rg_vreg r = ls ! rg_vreg r \<and> rg_vreg r \<noteq> v"
  by (metis image_eqI nth_list_update_neq)

text \<open>The three ways of giving the new range a location.\<close>

lemma scan_inv_assign:
  assumes inv: "scan_inv (rg_start iv) rs st" and free: "sc_free st = pool # rest"
    and new: "rg_vreg iv \<notin> rg_vreg ` set rs" and n: "rg_vreg iv < length (sc_loc st)"
  shows "scan_inv (rg_start iv) (iv # rs) (st\<lparr>sc_loc := (sc_loc st)[rg_vreg iv := In_Reg (POOL ! pool)],
     sc_free := rest, sc_active := sc_active st @ [(rg_end iv, pool, rg_vreg iv)]\<rparr>)"
proof -
  let ?v = "rg_vreg iv" and ?ls = "(sc_loc st)[rg_vreg iv := In_Reg (POOL ! pool)]"
  have pools: "pools_ok (sc_active st) (pool # rest)" and homes: "homes_ok (rg_start iv) rs (sc_loc st) (sc_active st) (unat (sc_spills st))"
    and res: "residents_ok rs (sc_loc st) (sc_active st)" and ap: "apart rs (sc_loc st)"
    using inv free by (simp_all add: scan_inv_def)
  have other: "?ls ! rg_vreg r = sc_loc st ! rg_vreg r \<and> rg_vreg r \<noteq> ?v" if "r \<in> set rs" for r
    using new that by (rule update_other)
  have noclash: "rg_end r < rg_start iv" if r: "r \<in> set rs" and eq: "sc_loc st ! rg_vreg r = In_Reg (POOL ! pool)" for r
  proof -
    have "pool < length POOL" "pool \<notin> pool_of ` set (sc_active st)"
      using pools by (auto simp: pools_ok_def)
    moreover obtain p where "p < length POOL" "POOL ! pool = POOL ! p"
      "rg_end r < rg_start iv \<or> (\<exists>e. (e, p, rg_vreg r) \<in> set (sc_active st))"
      using homes r eq unfolding homes_ok_def by force
    ultimately show ?thesis using POOL_inj by force
  qed
  have "pools_ok (sc_active st @ [(rg_end iv, pool, ?v)]) rest"
    using pools by (auto simp: pools_ok_def)
  moreover have "homes_ok (rg_start iv) (iv # rs) ?ls (sc_active st @ [(rg_end iv, pool, ?v)]) (unat (sc_spills st))"
    using homes other n pools unfolding homes_ok_def pools_ok_def
    by (auto split: loc.splits) (metis other)+
  moreover have "residents_ok (iv # rs) ?ls (sc_active st @ [(rg_end iv, pool, ?v)])"
    using res new n by (fastforce simp: residents_ok_def nth_list_update)
  moreover have "apart (iv # rs) ?ls"
    unfolding apart_def
  proof (intro ballI impI)
    fix r r' assume r: "r \<in> set (iv # rs)" "r' \<in> set (iv # rs)" "rg_vreg r \<noteq> rg_vreg r'"
      "?ls ! rg_vreg r = ?ls ! rg_vreg r'"
    consider "r = iv" "r' \<in> set rs" | "r' = iv" "r \<in> set rs" | "r \<in> set rs" "r' \<in> set rs"
      using r by auto
    then show "\<not> overlap r r' \<and> (\<exists>ph. ?ls ! rg_vreg r = In_Reg ph)"
    proof cases
      case 1
      then show ?thesis using noclash [of r'] other [of r'] r n by (auto simp: overlap_def dest: sym)
    next
      case 2
      then show ?thesis using noclash [of r] other [of r] r n by (auto simp: overlap_def dest: sym)
    next
      case 3
      then show ?thesis using ap r other unfolding apart_def by metis
    qed
  qed
  ultimately show ?thesis using inv unfolding scan_inv_def by simp
qed

lemma scan_inv_spill:
  assumes inv: "scan_inv (rg_start iv) rs st" and small: "length rs + 1 < 2 ^ 32"
    and new: "rg_vreg iv \<notin> rg_vreg ` set rs" and n: "rg_vreg iv < length (sc_loc st)"
  shows "scan_inv (rg_start iv) (iv # rs) (st\<lparr>sc_loc := (sc_loc st)[rg_vreg iv := In_Slot (sc_spills st)],
     sc_spills := sc_spills st + 1\<rparr>)"
proof -
  let ?v = "rg_vreg iv" and ?ls = "(sc_loc st)[rg_vreg iv := In_Slot (sc_spills st)]"
  have le: "unat (sc_spills st) \<le> length rs" using inv by (simp add: scan_inv_def)
  then have suc: "unat (sc_spills st + 1) = unat (sc_spills st) + 1"
    using small by (intro unat_Suc_u32) simp
  have homes: "homes_ok (rg_start iv) rs (sc_loc st) (sc_active st) (unat (sc_spills st))"
    and res: "residents_ok rs (sc_loc st) (sc_active st)" and ap: "apart rs (sc_loc st)"
    using inv by (simp_all add: scan_inv_def)
  have other: "?ls ! rg_vreg r = sc_loc st ! rg_vreg r \<and> rg_vreg r \<noteq> ?v" if "r \<in> set rs" for r
    using new that by (rule update_other)
  have fresh: "sc_loc st ! rg_vreg r \<noteq> In_Slot (sc_spills st)" if "r \<in> set rs" for r
    using that homes unfolding homes_ok_def by force
  have "homes_ok (rg_start iv) (iv # rs) ?ls (sc_active st) (unat (sc_spills st) + 1)"
    unfolding homes_ok_def
  proof (intro ballI)
    fix r assume r: "r \<in> set (iv # rs)"
    show "rg_vreg r < length ?ls \<and> (case ?ls ! rg_vreg r of
        In_Reg ph \<Rightarrow> \<exists>p<length POOL. ph = POOL ! p \<and>
          (rg_end r < rg_start iv \<or> (\<exists>e\<ge>rg_end r. (e, p, rg_vreg r) \<in> set (sc_active st)))
      | In_Slot k \<Rightarrow> unat k < unat (sc_spills st) + 1)"
    proof (cases "r \<in> set rs")
      case True
      then have "rg_vreg r < length (sc_loc st) \<and> (case sc_loc st ! rg_vreg r of
          In_Reg ph \<Rightarrow> \<exists>p<length POOL. ph = POOL ! p \<and>
            (rg_end r < rg_start iv \<or> (\<exists>e\<ge>rg_end r. (e, p, rg_vreg r) \<in> set (sc_active st)))
        | In_Slot k \<Rightarrow> unat k < unat (sc_spills st))"
        using homes by (simp add: homes_ok_def)
      then show ?thesis using other [OF True] by (auto split: loc.splits)
    next
      case False
      then show ?thesis using r n by simp
    qed
  qed
  moreover have "residents_ok (iv # rs) ?ls (sc_active st)"
    using res new n by (fastforce simp: residents_ok_def nth_list_update)
  moreover have "apart (iv # rs) ?ls"
    using ap n other fresh unfolding apart_def by (auto) (metis other fresh)+
  ultimately show ?thesis using inv le unfolding scan_inv_def by (simp add: suc)
qed

lemma scan_inv_steal:
  assumes inv: "scan_inv (rg_start iv) rs st" and small: "length rs + 1 < 2 ^ 32"
    and new: "rg_vreg iv \<notin> rg_vreg ` set rs" and n: "rg_vreg iv < length (sc_loc st)"
    and act: "(e, pool, resident) \<in> set (sc_active st)" and e: "rg_end iv < e"
  shows "scan_inv (rg_start iv) (iv # rs) (st\<lparr>sc_loc := (sc_loc st)[rg_vreg iv := In_Reg (POOL ! pool), resident := In_Slot (sc_spills st)],
     sc_spills := sc_spills st + 1, sc_active := retarget pool (rg_vreg iv) (sc_active st)\<rparr>)"
proof -
  let ?v = "rg_vreg iv" and ?act = "sc_active st"
  let ?ls = "(sc_loc st)[?v := In_Reg (POOL ! pool), resident := In_Slot (sc_spills st)]"
  let ?act' = "retarget pool ?v ?act"
  have le: "unat (sc_spills st) \<le> length rs" using inv by (simp add: scan_inv_def)
  then have suc: "unat (sc_spills st + 1) = unat (sc_spills st) + 1"
    using small by (intro unat_Suc_u32) simp
  have pools: "pools_ok ?act (sc_free st)" and homes: "homes_ok (rg_start iv) rs (sc_loc st) ?act (unat (sc_spills st))"
    and res: "residents_ok rs (sc_loc st) ?act" and ap: "apart rs (sc_loc st)"
    using inv by (simp_all add: scan_inv_def)
  have pl: "pool < length POOL" and dp: "distinct (map pool_of ?act)"
    using pools act by (force simp: pools_ok_def)+
  have act': "set ?act' = insert (e, pool, ?v) {a \<in> set ?act. pool_of a \<noteq> pool}"
    by (rule set_retarget [OF dp act])
  have same: "a = (e, pool, resident)" if "a \<in> set ?act" "pool_of a = pool" for a
    using dp that act by (auto simp: distinct_map inj_on_def)
  obtain r0 where r0: "r0 \<in> set rs" "resident = rg_vreg r0" and lres: "sc_loc st ! resident = In_Reg (POOL ! pool)"
    using res act by (auto simp: residents_ok_def)
  have rn: "resident < length (sc_loc st)" "resident \<noteq> ?v"
    using homes r0 new by (auto simp: homes_ok_def) (metis image_eqI)
  have lv: "?ls ! ?v = In_Reg (POOL ! pool)" "?ls ! resident = In_Slot (sc_spills st)"
    using n rn by (auto simp: nth_list_update)
  have other: "?ls ! rg_vreg r = sc_loc st ! rg_vreg r \<and> rg_vreg r \<noteq> ?v"
    if "r \<in> set rs" "rg_vreg r \<noteq> resident" for r
    using update_other [OF new that(1)] that(2) by simp
  have fresh: "sc_loc st ! rg_vreg r \<noteq> In_Slot (sc_spills st)" if "r \<in> set rs" for r
    using that homes unfolding homes_ok_def by force
  have noclash: "rg_end r < rg_start iv"
    if r: "r \<in> set rs" "rg_vreg r \<noteq> resident" and eq: "sc_loc st ! rg_vreg r = In_Reg (POOL ! pool)" for r
  proof -
    obtain p where p: "p < length POOL" "POOL ! pool = POOL ! p"
      "rg_end r < rg_start iv \<or> (\<exists>e. (e, p, rg_vreg r) \<in> set ?act)"
      using homes r eq unfolding homes_ok_def by force
    then have "p = pool" using POOL_inj pl by simp
    then show ?thesis using p(3) same r(2) by force
  qed
  have "pools_ok ?act' (sc_free st)"
    using pools by (simp add: pools_ok_def pools_retarget)
  moreover have "homes_ok (rg_start iv) (iv # rs) ?ls ?act' (unat (sc_spills st) + 1)"
    unfolding homes_ok_def
  proof (intro ballI)
    fix r assume r: "r \<in> set (iv # rs)"
    show "rg_vreg r < length ?ls \<and> (case ?ls ! rg_vreg r of
        In_Reg ph \<Rightarrow> \<exists>p<length POOL. ph = POOL ! p \<and>
          (rg_end r < rg_start iv \<or> (\<exists>e\<ge>rg_end r. (e, p, rg_vreg r) \<in> set ?act'))
      | In_Slot k \<Rightarrow> unat k < unat (sc_spills st) + 1)"
    proof -
      consider "r = iv" | "r \<in> set rs" "rg_vreg r = resident" | "r \<in> set rs" "rg_vreg r \<noteq> resident"
        using r by auto
      then show ?thesis
      proof cases
        case 1
        have "(e, pool, ?v) \<in> set ?act'" using act' by simp
        with 1 show ?thesis using n lv e pl order_less_imp_le by fastforce
      next
        case 2
        then show ?thesis using rn lv by simp
      next
        case 3
        have old: "rg_vreg r < length (sc_loc st) \<and> (case sc_loc st ! rg_vreg r of
            In_Reg ph \<Rightarrow> \<exists>p<length POOL. ph = POOL ! p \<and>
              (rg_end r < rg_start iv \<or> (\<exists>e\<ge>rg_end r. (e, p, rg_vreg r) \<in> set ?act))
          | In_Slot k \<Rightarrow> unat k < unat (sc_spills st))"
          using homes 3(1) by (simp add: homes_ok_def)
        have keep: "(e', p, rg_vreg r) \<in> set ?act'" if "(e', p, rg_vreg r) \<in> set ?act" for e' p
          using that act' same 3(2) by fastforce
        show ?thesis
        proof (cases "sc_loc st ! rg_vreg r")
          case (In_Reg ph)
          then obtain p where "p < length POOL" "ph = POOL ! p"
            "rg_end r < rg_start iv \<or> (\<exists>e\<ge>rg_end r. (e, p, rg_vreg r) \<in> set ?act)"
            using old by auto
          then show ?thesis using In_Reg old other [OF 3] keep by auto
        next
          case (In_Slot k)
          then show ?thesis using old other [OF 3] by simp
        qed
      qed
    qed
  qed
  moreover have "residents_ok (iv # rs) ?ls ?act'"
    unfolding residents_ok_def
  proof (intro ballI)
    fix a assume "a \<in> set ?act'"
    then consider "a = (e, pool, ?v)" | "a \<in> set ?act" "pool_of a \<noteq> pool" using act' by auto
    then show "case a of (e, p, v) \<Rightarrow> v \<in> rg_vreg ` set (iv # rs) \<and> ?ls ! v = In_Reg (POOL ! p)"
    proof cases
      case 1
      then show ?thesis using lv by simp
    next
      case 2
      obtain e' p' v' where a: "a = (e', p', v')" by (cases a)
      have v': "v' \<in> rg_vreg ` set rs" "sc_loc st ! v' = In_Reg (POOL ! p')"
        using res 2(1) by (auto simp: residents_ok_def a)
      have "p' < length POOL" using pools 2(1) by (force simp: pools_ok_def a)
      then have "v' \<noteq> resident" using v' lres POOL_inj pl 2(2) by (auto simp: a)
      then show ?thesis using v' other by (auto simp: a)
    qed
  qed
  moreover have "apart (iv # rs) ?ls"
    unfolding apart_def
  proof (intro ballI impI)
    fix r r' assume r: "r \<in> set (iv # rs)" "r' \<in> set (iv # rs)" "rg_vreg r \<noteq> rg_vreg r'"
      "?ls ! rg_vreg r = ?ls ! rg_vreg r'"
    have one: "?ls ! rg_vreg y \<noteq> In_Slot (sc_spills st)" if "y \<in> set (iv # rs)" "rg_vreg y \<noteq> resident" for y
      using that lv(1) other [of y] fresh [of y] by (cases "y = iv") simp_all
    have ne: "rg_vreg r \<noteq> resident" "rg_vreg r' \<noteq> resident"
      using one [of r] one [of r'] r lv(2) by metis+
    consider "r = iv" "r' \<in> set rs" | "r' = iv" "r \<in> set rs" | "r \<in> set rs" "r' \<in> set rs"
      using r by auto
    then show "\<not> overlap r r' \<and> (\<exists>ph. ?ls ! rg_vreg r = In_Reg ph)"
    proof cases
      case 1
      then have "sc_loc st ! rg_vreg r' = In_Reg (POOL ! pool)" using other [of r'] r(4) lv(1) ne by simp
      then show ?thesis using 1 noclash [of r'] lv(1) ne by (simp add: overlap_def)
    next
      case 2
      then have "sc_loc st ! rg_vreg r = In_Reg (POOL ! pool)" using other [of r] r(4) lv(1) ne by simp
      then show ?thesis using 2 noclash [of r] other [of r] ne by (simp add: overlap_def)
    next
      case 3
      then show ?thesis using ap r other ne unfolding apart_def by auto
    qed
  qed
  ultimately show ?thesis using le unfolding scan_inv_def by (simp add: suc)
qed

section \<open>The whole scan\<close>

lemma scan_step_ok:
  assumes inv: "scan_inv cur rs st" and cur: "cur \<le> rg_start iv"
    and new: "rg_vreg iv \<notin> rg_vreg ` set rs" and n: "rg_vreg iv < length (sc_loc st)"
    and small: "length rs + 1 < 2 ^ 32"
  shows "\<exists>st'. scan_step iv st = Inr st' \<and> scan_inv (rg_start iv) (iv # rs) st' \<and>
    length (sc_loc st') = length (sc_loc st)"
proof -
  obtain act free where x: "expire (rg_start iv) (sc_active st) (sc_free st) = (act, free)" by fastforce
  let ?s = "st\<lparr>sc_active := act, sc_free := free\<rparr>"
  have i: "scan_inv (rg_start iv) rs ?s" using scan_inv_expire [OF inv cur] by (simp add: x)
  show ?thesis
  proof (cases free)
    case (Cons pool rest)
    then show ?thesis
      using scan_inv_assign [OF i _ new, of pool rest] n by (simp add: scan_step_def x set_loc_def)
  next
    case Nil
    note spill = scan_inv_spill [OF i small new]
    show ?thesis
    proof (cases "furthest act")
      case None
      then show ?thesis using spill n by (simp add: scan_step_def x Nil set_loc_def)
    next
      case (Some a)
      obtain e pool resident where a: "a = (e, pool, resident)" by (cases a)
      have m: "(e, pool, resident) \<in> set act" using furthest_in [OF Some] by (simp add: a)
      then obtain r where "r \<in> set rs" "resident = rg_vreg r"
        using i by (auto simp: scan_inv_def residents_ok_def)
      then have "resident < length (sc_loc st)" using i by (auto simp: scan_inv_def homes_ok_def)
      then show ?thesis
        using spill scan_inv_steal [OF i small new, of e pool resident] n m Some
        by (cases "rg_end iv < e") (simp_all add: scan_step_def x Nil a set_loc_def)
    qed
  qed
qed

lemma scan_ok:
  "scan_inv cur done st \<Longrightarrow> sorted (map rg_start rs) \<Longrightarrow> \<forall>r\<in>set rs. cur \<le> rg_start r \<Longrightarrow>
   distinct (map rg_vreg rs) \<Longrightarrow> rg_vreg ` set rs \<inter> rg_vreg ` set done = {} \<Longrightarrow>
   \<forall>r\<in>set rs. rg_vreg r < length (sc_loc st) \<Longrightarrow> length rs + length done < 2 ^ 32 \<Longrightarrow>
   \<exists>st' cur'. scan rs st = Inr st' \<and> scan_inv cur' (rev rs @ done) st' \<and> length (sc_loc st') = length (sc_loc st)"
proof (induction rs arbitrary: cur "done" st)
  case Nil
  then show ?case by auto
next
  case (Cons iv rs)
  obtain s1 where s1: "scan_step iv st = Inr s1" "scan_inv (rg_start iv) (iv # done) s1"
    "length (sc_loc s1) = length (sc_loc st)"
    using scan_step_ok [OF Cons.prems(1), of iv] Cons.prems by auto
  have "\<exists>st' cur'. scan rs s1 = Inr st' \<and> scan_inv cur' (rev rs @ iv # done) st' \<and>
      length (sc_loc st') = length (sc_loc s1)"
    using Cons.prems s1 by (intro Cons.IH [of "rg_start iv"]) auto
  then show ?case using s1 by auto
qed

lemma scan_inv_start: "scan_inv 0 [] (scan_start n)"
  by (auto simp: scan_inv_def scan_start_def pools_ok_def homes_ok_def residents_ok_def apart_def)

end
