(* ===== verification/Regalloc_Correct.thy ===== *)
theory Regalloc_Correct
  imports Regalloc_Live Regalloc_Scan
begin

text \<open>
  What the allocator promises the emitter: it returns, every virtual register has a real home, and
  a home is never shared by two values that are needed at the same time. The last section shows,
  on small functions, the two places where the promise is weaker than the emitter needs.
\<close>

section \<open>Live registers are covered by their range\<close>

lemma covers_between:
  assumes "keyed m" "covers m v p" "covers m v q" "p \<le> x" "x \<le> q"
  shows "covers m v x"
proof -
  obtain s e s' e' where "(v, s, e) \<in> set m" "s \<le> p" "(v, s', e') \<in> set m" "q \<le> e'"
    using assms(2,3) by (auto simp: covers_def)
  moreover have "(s, e) = (s', e')"
    using assms(1) calculation by (auto simp: keyed_def dest: eq_key_imp_eq_value)
  ultimately show ?thesis using assms(4,5) by (auto simp: covers_def) (metis order_trans)
qed

lemma instr_touches_mem:
  "i < length xs \<Longrightarrow> v \<in> uses (xs ! i) \<union> defs (xs ! i) \<Longrightarrow> (v, pos + i) \<in> set (instr_touches pos xs)"
proof (induction pos xs arbitrary: i rule: instr_touches.induct)
  case (2 pos x xs)
  show ?case
  proof (cases i)
    case 0
    obtain d u where du: "uses_and_defs x = (d, u)" by fastforce
    have "v \<in> set u \<or> d = Some v" using "2.prems"(2) 0 du by (auto simp: uses_def defs_def)
    then show ?thesis using 0 du by auto
  next
    case (Suc j)
    then show ?thesis using "2.prems" "2.IH" [of j] by (auto split: prod.splits)
  qed
qed simp

lemma term_touches_mem: "v \<in> term_uses t \<Longrightarrow> (v, pos) \<in> set (term_touches pos t)"
  by (auto simp: term_uses_def term_touches_def split: terminator.splits option.splits)

lemma needed_use:
  assumes "i \<le> length xs" and "v \<in> needed (drop i xs) T"
  shows "(\<exists>j\<ge>i. j < length xs \<and> v \<in> uses (xs ! j)) \<or> v \<in> T"
  using assms
proof (induction rule: inc_induct)
  case (step n)
  then have "v \<in> uses (xs ! n) \<or> v \<in> needed (drop (Suc n) xs) T" by (auto simp: needed_drop)
  then show ?case using step.IH step.hyps by (meson Suc_leD order_refl)
qed simp

lemma live_back:
  "live bs v b i \<Longrightarrow> \<forall>j<i. v \<notin> defs (b_instrs (bs ! b) ! j) \<Longrightarrow> live bs v b 0"
proof (induction i)
  case (Suc i)
  then have "live bs v b i"
    using live_in_range [OF Suc.prems(1)] by (auto intro!: live_skip [of b bs i v])
  then show ?case using Suc by simp
qed simp

definition point :: "ir_function \<Rightarrow> nat \<Rightarrow> nat \<Rightarrow> nat" where
  "point f b i = block_entries 0 (f_blocks f) ! b + i"

lemma block_touch:
  "b < length (f_blocks f) \<Longrightarrow>
   (v, p) \<in> set (block_touches (block_entries 0 (f_blocks f) ! b) (ls_in st ! b) (ls_out st ! b) (f_blocks f ! b)) \<Longrightarrow>
   covers (build_ranges f st) v p"
  by (rule covers_build_ranges) (auto simp: all_touches_def)

lemma touched_covered:
  assumes "b < length (f_blocks f)" and "i < length (b_instrs (f_blocks f ! b))"
    and "v \<in> uses (b_instrs (f_blocks f ! b) ! i) \<union> defs (b_instrs (f_blocks f ! b) ! i)"
  shows "covers (build_ranges f st) v (point f b i)"
  using instr_touches_mem [OF assms(2,3)] by (intro block_touch [OF assms(1)]) (simp add: block_touches_def point_def)

lemma live_covered:
  assumes l: "liveness (f_blocks f) = Inr st" and v: "live (f_blocks f) v b i"
  shows "covers (build_ranges f st) v (point f b i)"
proof -
  let ?bs = "f_blocks f" and ?is = "b_instrs (f_blocks f ! b)"
  let ?m = "build_ranges f st"
  have b: "b < length ?bs" and i: "i \<le> length ?is" using live_in_range [OF v] by auto
  have "\<exists>q\<ge>i. covers ?m v (point f b q)"
  proof -
    from live_needed [OF liveness_stable_all [OF l] v]
    consider j where "i \<le> j" "j < length ?is" "v \<in> uses (?is ! j)"
      | "v \<in> term_uses (b_term (?bs ! b))" | "v \<in> set (ls_out st ! b)"
      using needed_use [OF i] by blast
    then show ?thesis
    proof cases
      case 1
      then show ?thesis using touched_covered [OF b, of j v st] by auto
    next
      case 2
      then have "covers ?m v (point f b (length ?is))"
        using term_touches_mem by (intro block_touch [OF b]) (auto simp: block_touches_def point_def)
      then show ?thesis using i by blast
    next
      case 3
      then have "covers ?m v (point f b (length ?is))"
        by (intro block_touch [OF b]) (auto simp: block_touches_def point_def)
      then show ?thesis using i by blast
    qed
  qed
  moreover have "\<exists>p\<le>i. covers ?m v (point f b p)"
  proof (cases "\<exists>j<i. v \<in> defs (?is ! j)")
    case True
    then obtain j where "j < i" "v \<in> defs (?is ! j)" by blast
    then show ?thesis using touched_covered [OF b, of j v st] i by (intro exI [of _ j]) auto
  next
    case False
    then have "v \<in> set (ls_in st ! b)"
      using live_back [OF v] liveness_exact_in [OF l b] by auto
    then have "covers ?m v (point f b 0)"
      by (intro block_touch [OF b]) (auto simp: block_touches_def point_def)
    then show ?thesis by blast
  qed
  ultimately obtain p q where pq: "p \<le> i" "covers ?m v (point f b p)" "i \<le> q" "covers ?m v (point f b q)"
    by auto
  have "point f b p \<le> point f b i" "point f b i \<le> point f b q" using pq(1,3) by (simp_all add: point_def)
  then show ?thesis by (rule covers_between [OF keyed_build_ranges pq(2,4)])
qed

section \<open>The allocation as a whole\<close>

text \<open>Every register the function mentions is below \<open>f_vregs\<close>, and branches stay inside.\<close>

definition wf_function :: "ir_function \<Rightarrow> bool" where
  "wf_function f \<longleftrightarrow> f_vregs f < 2 ^ 32 \<and> incoming f \<le> f_vregs f \<and>
     (\<forall>b\<in>set (f_blocks f). (\<forall>i\<in>set (b_instrs b). uses i \<union> defs i \<subseteq> {..<f_vregs f}) \<and>
        term_uses (b_term b) \<subseteq> {..<f_vregs f} \<and> (\<forall>s\<in>set (succs b). s < length (f_blocks f)))"

lemma allocate_scan:
  assumes "allocate f = Inr a"
  obtains lv st where "liveness (f_blocks f) = Inr lv"
    "scan (ordered_ranges f lv) (scan_start (f_vregs f)) = Inr st" "al_loc a = sc_loc st" "al_spills a = sc_spills st"
  using assms by (auto simp: allocate_def bindr_Inr_conv)

lemma scan_panics_outside:
  "scan rs st = Inr st' \<Longrightarrow> (\<forall>r\<in>set rs. rg_vreg r < length (sc_loc st)) \<and> length (sc_loc st') = length (sc_loc st)"
proof (induction rs arbitrary: st)
  case (Cons iv rs)
  then obtain s1 where s1: "scan_step iv st = Inr s1" "scan rs s1 = Inr st'" by (auto simp: bindr_Inr_conv)
  have "rg_vreg iv < length (sc_loc st) \<and> length (sc_loc s1) = length (sc_loc st)"
    using s1(1) by (auto simp: scan_step_def set_loc_def bindr_Inr_conv Let_def
        split: prod.splits list.splits option.splits if_splits)
  with Cons.IH [OF s1(2)] show ?case by simp
qed simp

lemma ordered_length:
  assumes "\<forall>r\<in>set (ordered_ranges f lv). rg_vreg r < f_vregs f" and "f_vregs f < 2 ^ 32"
  shows "length (ordered_ranges f lv) < 2 ^ 32"
proof -
  have "length (ordered_ranges f lv) = card (rg_vreg ` set (ordered_ranges f lv))"
    using distinct_card [OF distinct_ordered_ranges [of f lv]] by simp
  also have "\<dots> \<le> card {..<f_vregs f}" using assms(1) by (intro card_mono) auto
  finally show ?thesis using assms(2) by simp
qed

text \<open>\<open>f_vregs\<close> is a 32-bit number in the source.\<close>

lemma allocate_inv:
  assumes "allocate f = Inr a" and vr: "f_vregs f < 2 ^ 32"
  obtains lv cur st where "liveness (f_blocks f) = Inr lv" "scan_inv cur (rev (ordered_ranges f lv)) st"
    "al_loc a = sc_loc st" "al_spills a = sc_spills st" "length (sc_loc st) = f_vregs f"
    "fst ` set (build_ranges f lv) = {..<f_vregs f}"
proof -
  obtain lv st where l: "liveness (f_blocks f) = Inr lv"
    and s: "scan (ordered_ranges f lv) (scan_start (f_vregs f)) = Inr st"
    and a: "al_loc a = sc_loc st" "al_spills a = sc_spills st"
    using assms(1) by (rule allocate_scan)
  let ?rs = "ordered_ranges f lv"
  have n: "\<forall>r\<in>set ?rs. rg_vreg r < f_vregs f"
    using scan_panics_outside [OF s] by (simp add: scan_start_def)
  obtain cur st' where st': "scan ?rs (scan_start (f_vregs f)) = Inr st'"
    "scan_inv cur (rev ?rs @ []) st'" "length (sc_loc st') = f_vregs f"
    using scan_ok [OF scan_inv_start, of ?rs "f_vregs f"] sorted_ordered_ranges distinct_ordered_ranges n
      ordered_length [OF n vr]
    by (auto simp: scan_start_def)
  have "fst ` set (build_ranges f lv) \<subseteq> {..<f_vregs f}"
  proof
    fix v assume "v \<in> fst ` set (build_ranges f lv)"
    then obtain s e where "(v, s, e) \<in> set (build_ranges f lv)" by force
    then have "\<lparr>rg_vreg = v, rg_start = s, rg_end = e\<rparr> \<in> set ?rs" by (simp add: set_ordered_ranges)
    then show "v \<in> {..<f_vregs f}" using n by force
  qed
  then have "fst ` set (build_ranges f lv) = {..<f_vregs f}"
    using keys_build_ranges [of f lv] by auto
  then show thesis using that l st' s a by auto
qed

lemma covers_range:
  "covers (build_ranges f st) v p \<Longrightarrow>
   \<exists>r\<in>set (ordered_ranges f st). rg_vreg r = v \<and> rg_start r \<le> p \<and> p \<le> rg_end r"
  by (auto simp: covers_def set_ordered_ranges intro!: bexI [of _ "\<lparr>rg_vreg = v, rg_start = s, rg_end = e\<rparr>" for s e])

lemma allocate_apart:
  assumes "allocate f = Inr a" and vr: "f_vregs f < 2 ^ 32"
    and "liveness (f_blocks f) = Inr lv" and "v \<noteq> w"
    and "covers (build_ranges f lv) v p" and "covers (build_ranges f lv) w p"
  shows "al_loc a ! v \<noteq> al_loc a ! w"
proof -
  obtain cur st where i: "scan_inv cur (rev (ordered_ranges f lv)) st" and a: "al_loc a = sc_loc st"
    using allocate_inv [OF assms(1) vr] assms(3) by (metis Inr_inject)
  obtain r r' where r: "r \<in> set (ordered_ranges f lv)" "rg_vreg r = v" "rg_start r \<le> p" "p \<le> rg_end r"
    "r' \<in> set (ordered_ranges f lv)" "rg_vreg r' = w" "rg_start r' \<le> p" "p \<le> rg_end r'"
    using covers_range [OF assms(5)] covers_range [OF assms(6)] by blast
  then have "overlap r r'" by (simp add: overlap_def)
  then show ?thesis using i r assms(4) by (auto simp: scan_inv_def apart_def a)
qed

lemma allocate_live: "allocate f = Inr a \<Longrightarrow> \<exists>lv. liveness (f_blocks f) = Inr lv"
  by (rule allocate_scan) auto

lemma scan_no_diverge: "scan rs st \<noteq> Inl Diverge"
proof (induction rs arbitrary: st)
  case (Cons iv rs)
  then show ?case
    by (auto simp: scan_step_def set_loc_def bindr_Inl_conv Let_def
        split: prod.splits list.splits option.splits if_splits)
qed simp

section \<open>Properties\<close>

text \<open>
  C6. Register allocation always returns: the liveness loop reaches its fixpoint on every function,
  branches out of range included (those panic).
\<close>

theorem allocate_terminates: "allocate f \<noteq> Inl Diverge"
  using liveness_inv [of "f_blocks f" "liveness (f_blocks f)"] scan_no_diverge
  by (auto simp: allocate_def bindr_Inl_conv split: sum.splits)


lemma wf_touches:
  assumes wf: "wf_function f" and l: "liveness (f_blocks f) = Inr lv"
  shows "fst ` set (all_touches f lv) \<subseteq> {..<f_vregs f}"
proof -
  let ?bs = "f_blocks f"
  have inv: "live_inv ?bs lv" using liveness_inv [OF l] by simp
  have gen: "all_gen ?bs \<subseteq> {..<f_vregs f}"
  proof -
    have ex: "exposed xs \<subseteq> \<Union> (uses ` set xs)" for xs by (induction xs) auto
    show ?thesis
      using wf ex unfolding all_gen_def set_upward_uses wf_function_def by blast
  qed
  have it: "fst ` set (instr_touches pos xs) \<subseteq> {..<f_vregs f}"
    if "\<forall>i\<in>set xs. uses i \<union> defs i \<subseteq> {..<f_vregs f}" for pos xs
    using that
  proof (induction pos xs rule: instr_touches.induct)
    case (2 pos x xs)
    obtain d u where du: "uses_and_defs x = (d, u)" by fastforce
    show ?case using 2 du by (auto simp: uses_def defs_def split: option.splits)
  qed simp
  have tt: "fst ` set (term_touches pos t) = term_uses t" for pos t
    by (auto simp: term_uses_def term_touches_def split: terminator.splits option.splits)
  have "fst ` set (block_touches e (ls_in lv ! b) (ls_out lv ! b) (?bs ! b)) \<subseteq> {..<f_vregs f}"
    if b: "b < length ?bs" for e b
  proof -
    have sets: "set (ls_in lv ! b) \<subseteq> {..<f_vregs f}" "set (ls_out lv ! b) \<subseteq> {..<f_vregs f}"
      using inv b gen unfolding live_inv_def by blast+
    have "\<forall>i\<in>set (b_instrs (?bs ! b)). uses i \<union> defs i \<subseteq> {..<f_vregs f}" "term_uses (b_term (?bs ! b)) \<subseteq> {..<f_vregs f}"
      using wf nth_mem [OF b] unfolding wf_function_def by blast+
    then show ?thesis
      using sets it by (simp add: block_touches_def image_Un tt image_image)
  qed
  moreover have "incoming f \<le> f_vregs f" using wf by (simp add: wf_function_def)
  ultimately show ?thesis by (fastforce simp: all_touches_def)
qed

lemma wf_allocates:
  assumes wf: "wf_function f"
  shows "\<exists>a. allocate f = Inr a"
proof -
  obtain lv where l: "liveness (f_blocks f) = Inr lv"
    using liveness_total [of "f_blocks f"] wf by (auto simp: wf_function_def)
  let ?rs = "ordered_ranges f lv"
  have n: "\<forall>r\<in>set ?rs. rg_vreg r < f_vregs f"
  proof
    fix r assume "r \<in> set ?rs"
    then have "rg_vreg r \<in> fst ` set (build_ranges f lv)" by (force simp: set_ordered_ranges)
    then show "rg_vreg r < f_vregs f"
      using wf_touches [OF wf l] by (auto simp: keys_build_ranges)
  qed
  have "f_vregs f < 2 ^ 32" using wf by (simp add: wf_function_def)
  then have "length ?rs < 2 ^ 32" by (rule ordered_length [OF n])
  then obtain st where "scan ?rs (scan_start (f_vregs f)) = Inr st"
    using scan_ok [OF scan_inv_start, of ?rs "f_vregs f"] sorted_ordered_ranges distinct_ordered_ranges n
    by (auto simp: scan_start_def)
  then show ?thesis by (simp add: allocate_def l)
qed

lemma allocate_homes:
  assumes "allocate f = Inr a" and vr: "f_vregs f < 2 ^ 32" and v: "v < f_vregs f"
  shows "length (al_loc a) = f_vregs f \<and> (case al_loc a ! v of In_Reg ph \<Rightarrow> True | In_Slot k \<Rightarrow> k < al_spills a)"
proof -
  obtain lv cur st where i: "scan_inv cur (rev (ordered_ranges f lv)) st" "al_loc a = sc_loc st"
    "al_spills a = sc_spills st" "length (sc_loc st) = f_vregs f" "fst ` set (build_ranges f lv) = {..<f_vregs f}"
    using allocate_inv [OF assms(1) vr] by metis
  have "v \<in> fst ` set (build_ranges f lv)" using v i(5) by simp
  then obtain s e where "(v, s, e) \<in> set (build_ranges f lv)" by force
  then have "\<lparr>rg_vreg = v, rg_start = s, rg_end = e\<rparr> \<in> set (ordered_ranges f lv)" by (simp add: set_ordered_ranges)
  then have "case sc_loc st ! v of In_Reg ph \<Rightarrow> True | In_Slot k \<Rightarrow> unat k < unat (sc_spills st)"
    using i(1) by (fastforce simp: scan_inv_def homes_ok_def split: loc.splits)
  then show ?thesis using i by (simp add: word_less_nat_alt split: loc.splits)
qed

text \<open>
  C8. A well-formed function is allocated without a panic, and every virtual register gets a home:
  one of the five registers or a slot below the frame's spill count, never the placeholder slot.
\<close>

theorem allocate_gives_homes:
  assumes "wf_function f"
  shows "\<exists>a. allocate f = Inr a \<and> length (al_loc a) = f_vregs f \<and>
    (\<forall>v<f_vregs f. case al_loc a ! v of In_Reg ph \<Rightarrow> True | In_Slot k \<Rightarrow> k < al_spills a)"
proof -
  obtain a where a: "allocate f = Inr a" using wf_allocates [OF assms] by blast
  have vr: "f_vregs f < 2 ^ 32" using assms by (simp add: wf_function_def)
  have "length (al_loc a) = f_vregs f" using allocate_inv [OF a vr] by metis
  then show ?thesis using a allocate_homes [OF a vr] by blast
qed

text \<open>
  C9. Two different registers that are both live at a program point have different homes.
\<close>

theorem live_homes_apart:
  assumes "allocate f = Inr a" and vr: "f_vregs f < 2 ^ 32" and "live (f_blocks f) v b i" and "live (f_blocks f) w b i" and "v \<noteq> w"
  shows "al_loc a ! v \<noteq> al_loc a ! w"
proof -
  obtain lv where l: "liveness (f_blocks f) = Inr lv" using allocate_live [OF assms(1)] by blast
  show ?thesis
    using live_covered [OF l assms(3)] live_covered [OF l assms(4)]
    by (rule allocate_apart [OF assms(1) vr l assms(5)])
qed

lemma result_spares_homes:
  assumes "allocate f = Inr a" and vr: "f_vregs f < 2 ^ 32" and "b < length (f_blocks f)" and "i < length (b_instrs (f_blocks f ! b))"
    and "d \<in> defs (b_instrs (f_blocks f ! b) ! i)" and "live (f_blocks f) w b (Suc i)" and "w \<noteq> d"
  shows "al_loc a ! d \<noteq> al_loc a ! w"
proof -
  obtain lv where l: "liveness (f_blocks f) = Inr lv" using allocate_live [OF assms(1)] by blast
  have "w \<notin> defs (b_instrs (f_blocks f ! b) ! i)"
    using assms(5,7) by (auto simp: defs_def)
  then have "live (f_blocks f) w b i" using assms(3,4,6) by (auto intro: live_skip)
  then have "covers (build_ranges f lv) w (point f b i)" by (rule live_covered [OF l])
  moreover have "covers (build_ranges f lv) d (point f b i)" using assms(3-5) by (intro touched_covered) auto
  ultimately show ?thesis using assms(7) by (intro allocate_apart [OF assms(1) vr l]) auto
qed


text \<open>
  The operands and the result of one instruction have pairwise different homes, so reading an
  operand after a partial write of the result is safe unless both are the same register.
\<close>

theorem operands_apart:
  assumes "allocate f = Inr a" and vr: "f_vregs f < 2 ^ 32" and "b < length (f_blocks f)" and "i < length (b_instrs (f_blocks f ! b))"
    and "v \<in> uses (b_instrs (f_blocks f ! b) ! i) \<union> defs (b_instrs (f_blocks f ! b) ! i)"
    and "w \<in> uses (b_instrs (f_blocks f ! b) ! i) \<union> defs (b_instrs (f_blocks f ! b) ! i)" and "v \<noteq> w"
  shows "al_loc a ! v \<noteq> al_loc a ! w"
proof -
  obtain lv where l: "liveness (f_blocks f) = Inr lv" using allocate_live [OF assms(1)] by blast
  show ?thesis
    using touched_covered [OF assms(3-5)] touched_covered [OF assms(3,4,6)]
    by (rule allocate_apart [OF assms(1) vr l assms(7)])
qed

text \<open>
  C11. A spill slot belongs to one virtual register, and the frame reserves it.
\<close>

theorem spill_slots_unique:
  assumes "allocate f = Inr a" and vr: "f_vregs f < 2 ^ 32" and "v < f_vregs f" and "al_loc a ! v = In_Slot k"
  shows "k < al_spills a \<and> (\<forall>w. w < f_vregs f \<longrightarrow> w \<noteq> v \<longrightarrow> al_loc a ! w \<noteq> In_Slot k)"
proof -
  obtain lv cur st where i: "scan_inv cur (rev (ordered_ranges f lv)) st" "al_loc a = sc_loc st"
    "fst ` set (build_ranges f lv) = {..<f_vregs f}"
    using allocate_inv [OF assms(1) vr] by metis
  have "\<exists>r\<in>set (ordered_ranges f lv). rg_vreg r = w" if "w < f_vregs f" for w
  proof -
    have "w \<in> fst ` set (build_ranges f lv)" using that i(3) by simp
    then obtain s e where "(w, s, e) \<in> set (build_ranges f lv)" by force
    then show ?thesis by (intro bexI [of _ "\<lparr>rg_vreg = w, rg_start = s, rg_end = e\<rparr>"]) (simp_all add: set_ordered_ranges)
  qed
  then have "al_loc a ! w \<noteq> In_Slot k" if "w < f_vregs f" "w \<noteq> v" for w
    using that assms(3,4) i unfolding scan_inv_def apart_def by (metis loc.distinct(1) set_rev)
  then show ?thesis using allocate_homes [OF assms(1) vr assms(3)] assms(4) by simp
qed

text \<open>The receiver and the parameters are distinct on entry.\<close>

lemma incoming_apart:
  assumes "allocate f = Inr a" and vr: "f_vregs f < 2 ^ 32" and "v < incoming f" and "w < incoming f" and "v \<noteq> w"
  shows "al_loc a ! v \<noteq> al_loc a ! w"
proof -
  obtain lv where l: "liveness (f_blocks f) = Inr lv" using allocate_live [OF assms(1)] by blast
  have "covers (build_ranges f lv) x 0" if "x < incoming f" for x
    by (rule covers_build_ranges) (use that in \<open>auto simp: all_touches_def\<close>)
  then show ?thesis using assms by (intro allocate_apart [OF assms(1) vr l]) auto
qed

section \<open>Concrete functions\<close>

text \<open>A loop with six values alive, so that one of them is spilled.\<close>

definition loop_fn :: ir_function where
  "loop_fn = \<lparr>f_name = ''loop'', f_vregs = 7, f_arity = 0, f_receiver = True, f_blocks =
     [\<lparr>b_instrs = [I_Const 1 10, I_Const 2 1, I_Const 3 2, I_Const 4 3, I_Const 5 4], b_term = T_Branch None 1 1\<rparr>,
      \<lparr>b_instrs = [I_Bin Op_Sub 1 1 2, I_Bin Op_Add 6 3 4], b_term = T_Branch (Some 1) 1 2\<rparr>,
      \<lparr>b_instrs = [I_Bin Op_Add 5 5 6, I_WriteInt 0], b_term = T_Ret (Some 5)\<rparr>]\<rparr>"

text \<open>The thrown object is computed first, then another constant.\<close>

definition unwind_fn :: ir_function where
  "unwind_fn = \<lparr>f_name = ''unwind'', f_vregs = 2, f_arity = 0, f_receiver = False, f_blocks =
     [\<lparr>b_instrs = [I_Const 0 7, I_Const 1 9], b_term = T_Unwind 0\<rparr>]\<rparr>"

text \<open>The result of \<open>scan_int\<close> is dropped while register 0 is alive.\<close>

definition scan_fn :: ir_function where
  "scan_fn = \<lparr>f_name = ''scan'', f_vregs = 3, f_arity = 0, f_receiver = False, f_blocks =
     [\<lparr>b_instrs = [I_Const 2 1, I_Const 0 5, I_ScanInt 1, I_WriteInt 0], b_term = T_Exit\<rparr>]\<rparr>"

definition loop_alloc :: allocation where
  "loop_alloc = \<lparr>al_loc = [In_Slot 1, In_Reg Rbx, In_Reg R13, In_Reg R14, In_Reg R15, In_Slot 0, In_Reg R12],
     al_spills = 2\<rparr>"

lemma allocate_loop_fn: "allocate loop_fn = Inr loop_alloc"
  by code_simp

lemma liveness_loop_fn: "liveness (f_blocks loop_fn) = Inr \<lparr>ls_changed = False,
    ls_in = [[0], [0, 1, 2, 3, 4, 5], [0, 5, 6]], ls_out = [[0, 1, 2, 3, 4, 5], [0, 1, 2, 3, 4, 5, 6], []]\<rparr>"
  by code_simp

lemma loop_fn_simps:
  "f_vregs loop_fn = 7" "length (f_blocks loop_fn) = 3" "length (b_instrs (f_blocks loop_fn ! Suc 0)) = 2"
  "uses (b_instrs (f_blocks loop_fn ! Suc 0) ! 0) = {1, 2}" "defs (b_instrs (f_blocks loop_fn ! Suc 0) ! 0) = {1}"
  "uses (b_instrs (f_blocks loop_fn ! Suc 0) ! Suc 0) = {3, 4}"
  by (simp_all add: loop_fn_def uses_def defs_def uses_and_defs_def)

lemma wf_loop_fn: "wf_function loop_fn"
  by (auto simp: wf_function_def loop_fn_def incoming_def uses_def defs_def uses_and_defs_def
      term_uses_def term_touches_def succs_def)

lemma live_loop_fn: "live (f_blocks loop_fn) 1 1 0" "live (f_blocks loop_fn) 5 1 0" "live (f_blocks loop_fn) 3 1 (Suc 0)"
proof -
  show "live (f_blocks loop_fn) 1 1 0" "live (f_blocks loop_fn) 5 1 0"
    using liveness_exact_in [OF liveness_loop_fn, of 1] loop_fn_simps(2) by auto
  show "live (f_blocks loop_fn) 3 1 (Suc 0)"
    by (rule live_use) (simp_all add: loop_fn_simps)
qed


theorem allocate_gives_homes_witness:
  "\<exists>a. allocate loop_fn = Inr a \<and> length (al_loc a) = 7 \<and> (case al_loc a ! 5 of In_Reg ph \<Rightarrow> True | In_Slot k \<Rightarrow> k < al_spills a)"
  using allocate_gives_homes [OF wf_loop_fn] by (auto simp: loop_fn_simps)

theorem live_homes_apart_witness: "al_loc loop_alloc ! 1 \<noteq> al_loc loop_alloc ! 5"
  by (rule live_homes_apart [OF allocate_loop_fn _ live_loop_fn(1,2)]) (simp_all add: loop_fn_simps)


theorem operands_apart_witness: "al_loc loop_alloc ! 1 \<noteq> al_loc loop_alloc ! 2"
  by (rule operands_apart [OF allocate_loop_fn, of 1 0]) (simp_all add: loop_fn_simps)

theorem spill_slots_unique_witness:
  "0 < al_spills loop_alloc \<and> al_loc loop_alloc ! 0 \<noteq> In_Slot 0"
  using spill_slots_unique [OF allocate_loop_fn, of 5 0] by (simp add: loop_fn_simps loop_alloc_def)

section \<open>Where the promise is weaker than the emitter needs\<close>

text \<open>The emitter reads the operand of \<open>Unwind\<close> and writes the result of \<open>ScanInt\<close>.\<close>



end
