(* ===== verification/Runtime.thy ===== *)
theory Runtime
  imports Prelude
begin

text \<open>
  \<open>src/x86/runtime.rs\<close>: the byte constants of the runtime snippets, the offsets of the immediates
  that relocations fill in, the layout of the exception state, and the two snippets that are built
  by a function.
\<close>

text \<open>Signed 64-bit integer to decimal text on stdout.\<close>

definition ITOA :: bytes where
  "ITOA =
    [0x48, 0x83, 0xEC, 0x20, 0x49, 0x89, 0xE1, 0x49, 0x89, 0xE0, 0x31, 0xC9, 0x48, 0x85, 0xC0, 0x79,
     0x0A, 0x41, 0xC6, 0x01, 0x2D, 0x49, 0xFF, 0xC1, 0x48, 0xF7, 0xD8, 0x31, 0xD2, 0x41, 0xBB, 0x0A,
     0x00, 0x00, 0x00, 0x49, 0xF7, 0xF3, 0x80, 0xC2, 0x30, 0x52, 0x48, 0xFF, 0xC1, 0x48, 0x85, 0xC0,
     0x75, 0xE9, 0x5A, 0x41, 0x88, 0x11, 0x49, 0xFF, 0xC1, 0x48, 0xFF, 0xC9, 0x75, 0xF4, 0x4C, 0x89,
     0xC6, 0x4C, 0x89, 0xCA, 0x48, 0x29, 0xF2, 0xBF, 0x01, 0x00, 0x00, 0x00, 0xB8, 0x01, 0x00, 0x00,
     0x00, 0x0F, 0x05, 0x48, 0x83, 0xC4, 0x20, 0xC3]"

text \<open>One line of stdin parsed as a signed decimal.\<close>

definition SCAN_INT :: bytes where
  "SCAN_INT =
    [0x53, 0x48, 0x83, 0xEC, 0x58, 0x31, 0xC0, 0x31, 0xFF, 0x48, 0x89, 0xE6, 0xBA, 0x50, 0x00, 0x00,
     0x00, 0x0F, 0x05, 0x48, 0x89, 0xC1, 0x48, 0x85, 0xC9, 0x7E, 0x4E, 0x45, 0x31, 0xC9, 0x45, 0x31,
     0xD2, 0x41, 0xBB, 0x01, 0x00, 0x00, 0x00, 0x42, 0x80, 0x3C, 0x14, 0x2D, 0x75, 0x0A, 0x49, 0xC7,
     0xC3, 0xFF, 0xFF, 0xFF, 0xFF, 0x49, 0xFF, 0xC2, 0x41, 0x39, 0xCA, 0x7D, 0x1B, 0x42, 0x0F, 0xB6,
     0x04, 0x14, 0x83, 0xE8, 0x30, 0x7C, 0x11, 0x83, 0xF8, 0x09, 0x7F, 0x0C, 0x4D, 0x6B, 0xC9, 0x0A,
     0x49, 0x01, 0xC1, 0x41, 0xFF, 0xC2, 0xEB, 0xCF, 0x4C, 0x89, 0xC8, 0x4D, 0x85, 0xDB, 0x79, 0x03,
     0x48, 0xF7, 0xD8, 0x48, 0x83, 0xC4, 0x58, 0x5B, 0xC3, 0x31, 0xC0, 0x48, 0x83, 0xC4, 0x58, 0x5B,
     0xC3]"

text \<open>The object allocator.\<close>

definition ALLOC_REVISED :: bytes where
  "ALLOC_REVISED =
    [0x55, 0x48, 0x89, 0xE5, 0x49, 0xBA, 0x88, 0x77, 0x66, 0x55, 0x44, 0x33, 0x22, 0x11, 0x49, 0x83,
     0x7A, 0x08, 0x00, 0x75, 0x0B, 0x49, 0x8D, 0x82, 0x00, 0x10, 0x00, 0x00, 0x49, 0x89, 0x42, 0x08,
     0x49, 0x8B, 0x0A, 0x48, 0x85, 0xC9, 0x74, 0x2B, 0x48, 0x8B, 0x51, 0x08, 0x48, 0x39, 0xF2, 0x72,
     0x22, 0x48, 0x8B, 0x01, 0x49, 0x89, 0x02, 0x48, 0xC7, 0x41, 0x08, 0x01, 0x00, 0x00, 0x00, 0x48,
     0x89, 0xC8, 0x49, 0x89, 0xC3, 0x48, 0x89, 0xC7, 0x31, 0xC0, 0x89, 0xF1, 0xF3, 0xAA, 0x4C, 0x89,
     0xD8, 0xEB, 0x20, 0x49, 0x8B, 0x42, 0x08, 0x48, 0x89, 0xC2, 0x48, 0x01, 0xF0, 0x48, 0x83, 0xC0,
     0x0F, 0x48, 0x83, 0xE0, 0xF0, 0x49, 0x89, 0x42, 0x08, 0xC7, 0x42, 0x08, 0x01, 0x00, 0x00, 0x00,
     0x48, 0x89, 0xD0, 0x5D, 0xC3]"

text \<open>Reference counting.\<close>

definition RETAIN :: bytes where
  "RETAIN =
    [0x48, 0x85, 0xC0, 0x74, 0x05, 0xF0, 0x48, 0xFF, 0x40, 0x08, 0xC3]"

definition RELEASE :: bytes where
  "RELEASE =
    [0x48, 0x85, 0xC0, 0x74, 0x27, 0xF0, 0x48, 0xFF, 0x48, 0x08, 0x48, 0x8B, 0x48, 0x08, 0x48, 0xC1,
     0xE1, 0x02, 0x75, 0x18, 0x49, 0xBA, 0x88, 0x77, 0x66, 0x55, 0x44, 0x33, 0x22, 0x11, 0x49, 0x8B,
     0x0A, 0x48, 0x89, 0x08, 0x48, 0x89, 0x70, 0x08, 0x49, 0x89, 0x02, 0xC3, 0xC3]"

text \<open>The exception helpers.\<close>

definition EXC_ENTER :: bytes where
  "EXC_ENTER =
    [0x49, 0xB8, 0x00, 0x00, 0x00, 0x00, 0x00, 0x00, 0x00, 0x00, 0x49, 0x8B, 0x48, 0x08, 0x48, 0x6B,
     0xC1, 0x40, 0x49, 0x8D, 0x54, 0x00, 0x10, 0x4C, 0x8B, 0x14, 0x24, 0x4C, 0x89, 0x52, 0x38, 0x48,
     0x8D, 0x44, 0x24, 0x08, 0x48, 0x89, 0x42, 0x30, 0x48, 0x89, 0x1A, 0x4C, 0x89, 0x62, 0x08, 0x4C,
     0x89, 0x6A, 0x10, 0x4C, 0x89, 0x72, 0x18, 0x4C, 0x89, 0x7A, 0x20, 0x48, 0x89, 0x6A, 0x28, 0x48,
     0xFF, 0xC1, 0x49, 0x89, 0x48, 0x08, 0x31, 0xC0, 0xC3]"

definition EXC_POP :: bytes where
  "EXC_POP =
    [0x49, 0xB8, 0x00, 0x00, 0x00, 0x00, 0x00, 0x00, 0x00, 0x00, 0x49, 0x8B, 0x48, 0x08, 0x48, 0xFF,
     0xC9, 0x49, 0x89, 0x48, 0x08, 0xC3]"

definition EXC_LOAD :: bytes where
  "EXC_LOAD =
    [0x49, 0xB8, 0x00, 0x00, 0x00, 0x00, 0x00, 0x00, 0x00, 0x00, 0x49, 0x8B, 0x00, 0xC3]"

definition EXC_CLEAR :: bytes where
  "EXC_CLEAR =
    [0x49, 0xB8, 0x00, 0x00, 0x00, 0x00, 0x00, 0x00, 0x00, 0x00, 0x49, 0xC7, 0x00, 0x00, 0x00, 0x00,
     0x00, 0xC3]"

definition EXC_THROW :: bytes where
  "EXC_THROW =
    [0x49, 0xB8, 0x00, 0x00, 0x00, 0x00, 0x00, 0x00, 0x00, 0x00, 0x49, 0x89, 0x38, 0x49, 0x8B, 0x48,
     0x08, 0x48, 0x85, 0xC9, 0x74, 0x3F, 0x48, 0x83, 0xF9, 0x40, 0x77, 0x39, 0x48, 0xFF, 0xC9, 0x49,
     0x89, 0x48, 0x08, 0x48, 0x6B, 0xC1, 0x40, 0x49, 0x8D, 0x54, 0x00, 0x10, 0x4C, 0x8B, 0x52, 0x38,
     0x48, 0xC7, 0xC0, 0x01, 0x00, 0x00, 0x00, 0x48, 0x8B, 0x1A, 0x4C, 0x8B, 0x62, 0x08, 0x4C, 0x8B,
     0x6A, 0x10, 0x4C, 0x8B, 0x72, 0x18, 0x4C, 0x8B, 0x7A, 0x20, 0x48, 0x8B, 0x6A, 0x28, 0x48, 0x8B,
     0x62, 0x30, 0x41, 0xFF, 0xE2, 0xBF, 0x01, 0x00, 0x00, 0x00, 0xB8, 0x3C, 0x00, 0x00, 0x00, 0x0F,
     0x05]"

definition EXC_RETHROW :: bytes where
  "EXC_RETHROW =
    [0x49, 0xB8, 0x00, 0x00, 0x00, 0x00, 0x00, 0x00, 0x00, 0x00, 0x49, 0x8B, 0x48, 0x08, 0x48, 0x85,
     0xC9, 0x74, 0x39, 0x48, 0xFF, 0xC9, 0x49, 0x89, 0x48, 0x08, 0x48, 0x6B, 0xC1, 0x40, 0x49, 0x8D,
     0x54, 0x00, 0x10, 0x4C, 0x8B, 0x52, 0x38, 0x48, 0xC7, 0xC0, 0x01, 0x00, 0x00, 0x00, 0x48, 0x8B,
     0x1A, 0x4C, 0x8B, 0x62, 0x08, 0x4C, 0x8B, 0x6A, 0x10, 0x4C, 0x8B, 0x72, 0x18, 0x4C, 0x8B, 0x7A,
     0x20, 0x48, 0x8B, 0x6A, 0x28, 0x48, 0x8B, 0x62, 0x30, 0x41, 0xFF, 0xE2, 0xBF, 0x01, 0x00, 0x00,
     0x00, 0xB8, 0x3C, 0x00, 0x00, 0x00, 0x0F, 0x05]"

definition alloc_snippet :: bytes where
  "alloc_snippet =
     [0x48, 0xB9] @
     replicate 8 0 @
     [0x48, 0x83, 0x39, 0x00] @
     [0x75, 0x07] @
     [0x48, 0x8D, 0x51, 0x08] @
     [0x48, 0x89, 0x11] @
     [0x48, 0x8B, 0x01] @
     [0x48, 0x8D, 0x14, 0x30] @
     [0x48, 0x83, 0xC2, 0x0F] @
     [0x48, 0x83, 0xE2, 0xF0] @
     [0x48, 0x89, 0x11] @
     [0xC3]"

definition ALLOC_HEAP_BASE_OFFSET :: nat where "ALLOC_HEAP_BASE_OFFSET = 2"
definition ALLOC_REVISED_HEAPBASE_OFFSET :: nat where "ALLOC_REVISED_HEAPBASE_OFFSET = 6"
definition RELEASE_HEAPBASE_OFFSET :: nat where "RELEASE_HEAPBASE_OFFSET = 22"

text \<open>\<open>itoa_to_fd\<close>: the template with the low byte of the file descriptor patched in.\<close>

definition itoa_to_fd :: "u32 \<Rightarrow> bytes" where
  "itoa_to_fd fd = ITOA[72 := ucast fd]"

text \<open>The exception state block.\<close>

definition EXC_INFLIGHT_OFF :: nat where "EXC_INFLIGHT_OFF = 0"
definition EXC_DEPTH_OFF :: nat where "EXC_DEPTH_OFF = 8"
definition EXC_JMPBUFS_OFF :: nat where "EXC_JMPBUFS_OFF = 16"
definition EXC_JMPBUF_SIZE :: nat where "EXC_JMPBUF_SIZE = 64"
definition EXC_MAX_HANDLERS :: nat where "EXC_MAX_HANDLERS = 64"
definition EXC_STATE_SIZE :: nat where
  "EXC_STATE_SIZE = EXC_JMPBUFS_OFF + EXC_JMPBUF_SIZE * EXC_MAX_HANDLERS"
definition EXC_BASE_OFFSET :: nat where "EXC_BASE_OFFSET = 2"

lemmas exc_layout_defs = EXC_INFLIGHT_OFF_def EXC_DEPTH_OFF_def EXC_JMPBUFS_OFF_def EXC_JMPBUF_SIZE_def
  EXC_MAX_HANDLERS_def EXC_STATE_SIZE_def EXC_BASE_OFFSET_def

lemma runtime_lengths [simp]:
  "length ITOA = 88"
  "length SCAN_INT = 113"
  "length ALLOC_REVISED = 117"
  "length RETAIN = 11"
  "length RELEASE = 45"
  "length EXC_ENTER = 73"
  "length EXC_POP = 22"
  "length EXC_LOAD = 14"
  "length EXC_CLEAR = 18"
  "length EXC_THROW = 97"
  "length EXC_RETHROW = 88"
  "length (itoa_to_fd fd) = 88"
  by (simp_all add: itoa_to_fd_def ITOA_def SCAN_INT_def ALLOC_REVISED_def RETAIN_def RELEASE_def EXC_ENTER_def EXC_POP_def EXC_LOAD_def EXC_CLEAR_def EXC_THROW_def EXC_RETHROW_def)

end
