(* ===== verification/Emitter.thy ===== *)
theory Emitter
  imports Regalloc Target_Types Runtime
begin

text \<open>
  The emission primitives of \<open>src/x86/encode_x64.rs\<close>: the emitter's state, the operand encodings
  (REX, ModRM, frame slots), register and slot moves, and the windows that relocations and call
  sites fill in later. An operation maps the state before it to the state after it; \<open>seq\<close> runs
  a list of operations in order.
\<close>

definition seq :: "('s \<Rightarrow> 's) list \<Rightarrow> 's \<Rightarrow> 's" where
  "seq fs s = fold (\<lambda>f. f) fs s"

lemma seq_simps [simp]:
  "seq [] s = s"
  "seq (f # fs) s = seq fs (f s)"
  by (simp_all add: seq_def)

section \<open>Registers\<close>

definition ARG :: "u8 list" where "ARG = [7, 6, 2, 1, 8, 9]"

definition RAX :: u8 where "RAX = 0"
definition RCX :: u8 where "RCX = 1"
definition RDI :: u8 where "RDI = 7"
definition RSI :: u8 where "RSI = 6"
definition R10b :: u8 where "R10b = 10"
definition R11b :: u8 where "R11b = 11"

lemmas reg_defs = RAX_def RCX_def RDI_def RSI_def R10b_def R11b_def

definition rex :: "bool \<Rightarrow> bool \<Rightarrow> bool \<Rightarrow> u8" where
  "rex w r b = 0x40 OR (if w then 0x08 else 0) OR (if r then 0x04 else 0) OR (if b then 0x01 else 0)"

definition modrm :: "u8 \<Rightarrow> u8 \<Rightarrow> u8 \<Rightarrow> u8" where
  "modrm md reg rm = push_bit 6 md OR push_bit 3 (reg AND 7) OR (rm AND 7)"

datatype disp = D8 u8 | D32 i32

text \<open>\<open>[rbp - 8*(slot+1)]\<close>.\<close>

definition slot_disp :: "u32 \<Rightarrow> i32" where "slot_disp slot = - 8 * (slot + 1)"

definition slot_addr :: "u32 \<Rightarrow> u8 \<Rightarrow> u8 \<times> disp" where
  "slot_addr slot reg_field =
     (let d = slot_disp slot in
      if - 120 \<le> sint d \<and> sint d \<le> - 1 then (modrm 1 reg_field 5, D8 (ucast d))
      else (modrm 2 reg_field 5, D32 d))"

section \<open>The emitter\<close>

datatype call_target =
    CT_Fn nat
  | CT_HelperItoa
  | CT_HelperItoaErr
  | CT_HelperScanInt
  | CT_HelperRetain
  | CT_HelperRelease
  | CT_HelperAlloc
  | CT_HelperExcEnter
  | CT_HelperExcPop
  | CT_HelperExcThrow
  | CT_HelperExcRethrow
  | CT_HelperExcLoad
  | CT_HelperExcClear

record emitter =
  e_code :: bytes
  e_vtable_offsets :: "usize list"
  e_static_offsets :: "usize list"
  e_fn_starts :: "usize list"
  e_fn_takes_receiver :: "bool list"
  e_relocs :: "reloc list"
  e_call_sites :: "(usize \<times> call_target) list"
  e_uses_int :: bool
  e_uses_int_err :: bool
  e_uses_scan :: bool
  e_uses_retain :: bool
  e_uses_release :: bool
  e_uses_alloc :: bool
  e_uses_exc :: bool
  e_uses_argv :: bool

definition new_emitter :: "program \<Rightarrow> emitter" where
  "new_emitter p = \<lparr>e_code = [], e_vtable_offsets = [], e_static_offsets = [], e_fn_starts = [],
     e_fn_takes_receiver = map f_receiver (p_functions p), e_relocs = [], e_call_sites = [],
     e_uses_int = False, e_uses_int_err = False, e_uses_scan = False, e_uses_retain = False,
     e_uses_release = False, e_uses_alloc = False, e_uses_exc = False, e_uses_argv = False\<rparr>"

text \<open>The current end of the code, \<open>self.code.len()\<close>.\<close>

definition here :: "emitter \<Rightarrow> nat" where "here e = length (e_code e)"

definition emit :: "bytes \<Rightarrow> emitter \<Rightarrow> emitter" where
  "emit b e = e\<lparr>e_code := e_code e @ b\<rparr>"

definition imm32 :: "i32 \<Rightarrow> emitter \<Rightarrow> emitter" where "imm32 v = emit (le32 v)"
definition imm64 :: "u64 \<Rightarrow> emitter \<Rightarrow> emitter" where "imm64 v = emit (le64 v)"

fun emit_disp :: "disp \<Rightarrow> emitter \<Rightarrow> emitter" where
  "emit_disp (D8 v) = emit [v]"
| "emit_disp (D32 v) = imm32 v"

section \<open>Moves\<close>

definition mov_rr :: "u8 \<Rightarrow> u8 \<Rightarrow> emitter \<Rightarrow> emitter" where
  "mov_rr dst src = (if dst = src then id
     else seq [emit [rex True (src \<ge> 8) (dst \<ge> 8), 0x89], emit [modrm 3 src dst]])"

definition load_slot :: "u8 \<Rightarrow> u32 \<Rightarrow> emitter \<Rightarrow> emitter" where
  "load_slot dst slot = (case slot_addr slot (dst AND 7) of (m, d) \<Rightarrow>
     seq [emit [rex True (dst \<ge> 8) False, 0x8B], emit [m], emit_disp d])"

definition store_slot :: "u32 \<Rightarrow> u8 \<Rightarrow> emitter \<Rightarrow> emitter" where
  "store_slot slot src = (case slot_addr slot (src AND 7) of (m, d) \<Rightarrow>
     seq [emit [rex True (src \<ge> 8) False, 0x89], emit [m], emit_disp d])"

fun get :: "u8 \<Rightarrow> loc \<Rightarrow> emitter \<Rightarrow> emitter" where
  "get into (In_Reg r) = mov_rr into (phys_id r)"
| "get into (In_Slot k) = load_slot into k"

fun put :: "u8 \<Rightarrow> loc \<Rightarrow> emitter \<Rightarrow> emitter" where
  "put from (In_Reg r) = mov_rr (phys_id r) from"
| "put from (In_Slot k) = store_slot k from"

section \<open>Relocation and call windows\<close>

definition abs64_window :: "u8 \<Rightarrow> sym \<Rightarrow> emitter \<Rightarrow> emitter" where
  "abs64_window op_low3 s e =
     (let e1 = emit [0xB8 OR (op_low3 AND 7)] (emit [rex True False False] e);
          site = here e1;
          e2 = imm64 0 e1
      in e2\<lparr>e_relocs := e_relocs e2 @ [\<lparr>r_kind = Abs64, r_section = Code, r_site = of_nat site, r_sym = s\<rparr>]\<rparr>)"

definition write_str_syscall :: "u32 \<Rightarrow> u32 \<Rightarrow> u32 \<Rightarrow> emitter \<Rightarrow> emitter" where
  "write_str_syscall off len fd =
     seq [emit [0xBF], imm32 fd, abs64_window 0xBE (Sym_String (ucast off)), emit [0xBA],
        imm32 len, emit [0xB8], imm32 1, emit [0x0F, 0x05]]"

definition call_rel32 :: "call_target \<Rightarrow> emitter \<Rightarrow> emitter" where
  "call_rel32 target e =
     (let e1 = emit [0xE8] e;
          site = here e1;
          e2 = imm32 0 e1
      in e2\<lparr>e_call_sites := e_call_sites e2 @ [(of_nat site, target)]\<rparr>)"

section \<open>Calls\<close>

text \<open>The homes of the arguments come in the order of the arguments.\<close>

fun push_all :: "loc list \<Rightarrow> emitter \<Rightarrow> emitter" where
  "push_all [] = id"
| "push_all (l # ls) = seq [get RAX l, emit [0x50], push_all ls]"

fun load_args :: "u8 list \<Rightarrow> loc list \<Rightarrow> emitter \<Rightarrow> emitter" where
  "load_args (r # rs) (l # ls) = seq [get r l, load_args rs ls]"
| "load_args _ _ = id"

definition place_args :: "loc list \<Rightarrow> emitter \<Rightarrow> emitter" where
  "place_args args =
     seq [(if length args > 6 then push_all (rev (drop 6 args)) else id),
        load_args ARG (take 6 args)]"

text \<open>The receiver-taking variant: five register arguments from \<open>rsi\<close> on, the rest pushed after.\<close>

definition place_method_args :: "loc list \<Rightarrow> emitter \<Rightarrow> emitter" where
  "place_method_args args =
     seq [load_args (tl ARG) (take 5 args),
        (if length args > 5 then push_all (rev (drop 5 args)) else id)]"

definition cleanup_tail :: "nat \<Rightarrow> emitter \<Rightarrow> emitter" where
  "cleanup_tail n =
     (if n > 6 then
        (let bs = (n - 6) * 8 in
         if bs \<le> 120 then emit [0x48, 0x83, 0xC4, of_nat bs]
         else seq [emit [0x48, 0x81, 0xC4], imm32 (of_nat bs)])
      else id)"

section \<open>Memory operands\<close>

definition small_disp :: "i32 \<Rightarrow> bool" where "small_disp d \<longleftrightarrow> - 120 \<le> sint d \<and> sint d \<le> 120"

definition field_load :: "u8 \<Rightarrow> i32 \<Rightarrow> emitter \<Rightarrow> emitter" where
  "field_load dst d =
     seq [emit [rex True (dst \<ge> 8) True], emit [0x8B],
        (if small_disp d then seq [emit [modrm 1 dst 2], emit [ucast d]]
      else seq [emit [modrm 2 dst 2], imm32 d])]"

definition field_load_byte :: "u8 \<Rightarrow> i32 \<Rightarrow> emitter \<Rightarrow> emitter" where
  "field_load_byte dst d =
     seq [emit [rex True (dst \<ge> 8) True], emit [0x0F], emit [0xB6],
        (if small_disp d then seq [emit [modrm 1 dst 2], emit [ucast d]]
      else seq [emit [modrm 2 dst 2], imm32 d])]"

definition field_store :: "i32 \<Rightarrow> emitter \<Rightarrow> emitter" where
  "field_store d =
     seq [emit [rex True True True], emit [0x89],
        (if small_disp d then seq [emit [modrm 1 R11b 2], emit [ucast d]]
      else seq [emit [modrm 2 R11b 2], imm32 d])]"

definition memcpy_loop :: "emitter \<Rightarrow> emitter" where
  "memcpy_loop =
     seq [emit [0x4D, 0x85, 0xC0], emit [0x74, 0x12], emit [0x49, 0x0F, 0xB6, 0x03],
        emit [0x49, 0x88, 0x02], emit [0x49, 0xFF, 0xC2], emit [0x49, 0xFF, 0xC3],
        emit [0x49, 0xFF, 0xC8], emit [0x75, 0xE9]]"

definition memcmp_loop :: "emitter \<Rightarrow> emitter" where
  "memcmp_loop =
     seq [emit [0x4D, 0x85, 0xC0], emit [0x74, 0x14], emit [0x49, 0x0F, 0xB6, 0x03],
        emit [0x49, 0x38, 0x02], emit [0x75, 0x12], emit [0x49, 0xFF, 0xC2],
        emit [0x49, 0xFF, 0xC3], emit [0x49, 0xFF, 0xC8], emit [0x75, 0xE7],
        emit [0xB8, 0x01, 0x00, 0x00, 0x00], emit [0xEB, 0x05],
        emit [0xB8, 0x00, 0x00, 0x00, 0x00]]"

section \<open>Short jumps\<close>

text \<open>\<open>code[at + 1] = v\<close>: the displacement of a two-byte jump emitted at \<open>at\<close>.\<close>

definition patch_short :: "nat \<Rightarrow> u8 \<Rightarrow> emitter \<Rightarrow> emitter" where
  "patch_short at v e = e\<lparr>e_code := (e_code e)[at + 1 := v]\<rparr>"

text \<open>\<open>(target - (at + 2)) as i8 as u8\<close>.\<close>

definition short_disp :: "nat \<Rightarrow> nat \<Rightarrow> u8" where
  "short_disp at target = of_int (int target - int (at + 2))"

end
