(* ===== verification/Select.thy ===== *)
theory Select
  imports Emitter
begin

text \<open>
  Instruction selection of \<open>src/x86/encode_x64.rs\<close>: the arms of \<open>Emitter::instr\<close> with the functions
  they call (\<open>bin\<close>, \<open>cmp\<close>, \<open>fbin\<close>, \<open>fcmp\<close>), over the homes of the operands. \<open>instr\<close> looks the
  homes up and panics on a register without one.
\<close>

section \<open>Constants and moves\<close>

definition fits32 :: "i64 \<Rightarrow> bool" where
  "fits32 imm \<longleftrightarrow> - 2147483648 \<le> sint imm \<and> sint imm \<le> 2147483647"

fun emit_const :: "loc \<Rightarrow> i64 \<Rightarrow> emitter \<Rightarrow> emitter" where
  "emit_const (In_Reg r) imm =
     (if fits32 imm then
        seq [emit [rex True False (needs_rex r)], emit [0xC7], emit [modrm 3 0 (phys_id r)],
        imm32 (ucast imm)]
      else
        seq [emit [rex True False (needs_rex r)], emit [0xB8 OR (phys_id r AND 7)], imm64 imm])"
| "emit_const (In_Slot k) imm =
     (if fits32 imm then
        (case slot_addr k 0 of (m, d) \<Rightarrow>
           seq [emit [rex True False False], emit [0xC7], emit [m], emit_disp d, imm32 (ucast imm)])
      else
        seq [emit [rex True False False], emit [0xB8], imm64 imm, store_slot k RAX])"

fun emit_mov :: "loc \<Rightarrow> loc \<Rightarrow> emitter \<Rightarrow> emitter" where
  "emit_mov (In_Reg dr) (In_Reg sr) = (if dr \<noteq> sr then mov_rr (phys_id dr) (phys_id sr) else id)"
| "emit_mov (In_Reg dr) (In_Slot ks) = load_slot (phys_id dr) ks"
| "emit_mov (In_Slot kd) (In_Reg sr) = store_slot kd (phys_id sr)"
| "emit_mov (In_Slot kd) (In_Slot ks) = seq [load_slot RAX ks, store_slot kd RAX]"

definition emit_neg :: "loc \<Rightarrow> loc \<Rightarrow> emitter \<Rightarrow> emitter" where
  "emit_neg dl al =
     (case (dl, al) of
        (In_Reg dr, In_Reg sr) \<Rightarrow>
          if dr = sr then seq [emit [rex True False (needs_rex dr), 0xF7], emit [modrm 3 3 (phys_id dr)]]
          else seq [get RAX al, emit [0x48, 0xF7, 0xD8], put RAX dl]
      | _ \<Rightarrow> seq [get RAX al, emit [0x48, 0xF7, 0xD8], put RAX dl])"

section \<open>Integer arithmetic\<close>

text \<open>Division: a zero divisor gives zero. The two short jumps are patched once their targets are known.\<close>

definition emit_div :: "bin_op \<Rightarrow> loc \<Rightarrow> loc \<Rightarrow> loc \<Rightarrow> emitter \<Rightarrow> emitter" where
  "emit_div op dl al bl e0 =
     (let unsigned = (op = Op_UDiv \<or> op = Op_URem);
          remainder = (op = Op_Rem \<or> op = Op_URem);
          e1 = emit [0x4D, 0x85, modrm 3 R11b R11b] (get R11b bl (get RAX al e0));
          jz_zero = here e1;
          e2 = emit [0x74, 0x00] e1;
          e3 = (if unsigned then seq [emit [0x31, 0xD2], emit [rex True False True, 0xF7, modrm 3 6 R11b]]
                else seq [emit [0x48, 0x99], emit [rex True False True, 0xF7, modrm 3 7 R11b]]) e2;
          jmp_done = here e3;
          e4 = emit [0xEB, 0x00] e3;
          zero_at = here e4;
          e5 = patch_short jz_zero (short_disp jz_zero zero_at) e4;
          e6 = (if remainder then emit [0x31, 0xD2] else emit [0x31, 0xC0]) e5;
          done_at = here e6;
          e7 = patch_short jmp_done (short_disp jmp_done done_at) e6
      in if remainder
         then (case dl of In_Reg dr \<Rightarrow> mov_rr (phys_id dr) 2 | In_Slot k \<Rightarrow> store_slot k 2) e7
         else put RAX dl e7)"

definition emit_shift :: "u8 \<Rightarrow> loc \<Rightarrow> loc \<Rightarrow> loc \<Rightarrow> emitter \<Rightarrow> emitter" where
  "emit_shift op_ext dl al bl =
     seq [get RAX al, get RCX bl, emit [0x48, 0xD3], emit [modrm 3 op_ext RAX], put RAX dl]"

fun alu_opcode :: "bin_op \<Rightarrow> bytes option" where
  "alu_opcode Op_Add = Some [0x03]"
| "alu_opcode Op_Sub = Some [0x2B]"
| "alu_opcode Op_Mul = Some [0x0F, 0xAF]"
| "alu_opcode Op_And = Some [0x23]"
| "alu_opcode Op_Or = Some [0x0B]"
| "alu_opcode Op_BitAnd = Some [0x23]"
| "alu_opcode Op_BitOr = Some [0x0B]"
| "alu_opcode Op_BitXor = Some [0x33]"
| "alu_opcode _ = None"

fun emit_operand :: "bytes \<Rightarrow> loc \<Rightarrow> u8 \<Rightarrow> emitter \<Rightarrow> emitter" where
  "emit_operand opbytes (In_Reg br) rd =
     seq [emit [rex True (rd \<ge> 8) (needs_rex br)], emit opbytes,
        emit [modrm 3 rd (phys_id br)]]"
| "emit_operand opbytes (In_Slot ks) rd = (case slot_addr ks (rd AND 7) of (m, d) \<Rightarrow>
     seq [emit [rex True (rd \<ge> 8) False], emit opbytes, emit [m], emit_disp d])"

fun emit_alu :: "bytes \<Rightarrow> loc \<Rightarrow> loc \<Rightarrow> loc \<Rightarrow> emitter \<Rightarrow> emitter" where
  "emit_alu opbytes (In_Reg dr) al bl =
     (if bl = In_Reg dr then
        seq [mov_rr R11b (phys_id dr), get (phys_id dr) al,
        emit [rex True (phys_id dr \<ge> 8) True], emit opbytes,
        emit [modrm 3 (phys_id dr) R11b]]
      else seq [get (phys_id dr) al, emit_operand opbytes bl (phys_id dr)])"
| "emit_alu opbytes (In_Slot k) al bl =
     seq [get RAX al, emit_operand opbytes bl RAX, put RAX (In_Slot k)]"

definition bin :: "bin_op \<Rightarrow> loc \<Rightarrow> loc \<Rightarrow> loc \<Rightarrow> emitter \<Rightarrow> emitter res" where
  "bin op dl al bl e =
     (if op = Op_Div \<or> op = Op_Rem \<or> op = Op_UDiv \<or> op = Op_URem then Inr (emit_div op dl al bl e)
      else if op = Op_Shl then Inr (emit_shift 4 dl al bl e)
      else if op = Op_Shr then Inr (emit_shift 7 dl al bl e)
      else if op = Op_ShrShr then Inr (emit_shift 5 dl al bl e)
      else (case alu_opcode op of None \<Rightarrow> Inl Panic | Some opbytes \<Rightarrow> Inr (emit_alu opbytes dl al bl e)))"

section \<open>Comparisons\<close>

fun cmp_setcc :: "cmp_op \<Rightarrow> u8" where
  "cmp_setcc Cmp_Eq = 0x94"
| "cmp_setcc Cmp_Ne = 0x95"
| "cmp_setcc Cmp_Lt = 0x9C"
| "cmp_setcc Cmp_Gt = 0x9F"
| "cmp_setcc Cmp_Le = 0x9E"
| "cmp_setcc Cmp_Ge = 0x9D"

definition cmp :: "cmp_op \<Rightarrow> loc \<Rightarrow> loc \<Rightarrow> loc \<Rightarrow> emitter \<Rightarrow> emitter" where
  "cmp op dl al bl =
     seq [get RAX al,
        (case bl of
        In_Reg br \<Rightarrow> seq [emit [rex True False (needs_rex br), 0x3B], emit [modrm 3 RAX (phys_id br)]]
      | In_Slot ks \<Rightarrow> (case slot_addr ks RAX of (m, d) \<Rightarrow>
          seq [emit [rex True False False, 0x3B], emit [m], emit_disp d])),
        emit [0x0F, cmp_setcc op, 0xC0],
        emit [rex True False False, 0x0F, 0xB6, modrm 3 RAX RAX], put RAX dl]"

section \<open>Floating point\<close>

definition load_fops :: "emitter \<Rightarrow> emitter" where
  "load_fops = seq [emit [0x66, 0x48, 0x0F, 0x6E], emit [modrm 3 0 RAX], emit [0x66, 0x49, 0x0F, 0x6E],
        emit [modrm 3 1 R11b]]"

definition store_fop :: "emitter \<Rightarrow> emitter" where
  "store_fop = seq [emit [0x66, 0x48, 0x0F, 0x7E], emit [modrm 3 0 RAX]]"

fun fbin_opcode :: "fbin_op \<Rightarrow> u8" where
  "fbin_opcode FOp_Add = 0x58"
| "fbin_opcode FOp_Sub = 0x5C"
| "fbin_opcode FOp_Mul = 0x59"
| "fbin_opcode FOp_Div = 0x5E"

definition fbin :: "fbin_op \<Rightarrow> loc \<Rightarrow> loc \<Rightarrow> loc \<Rightarrow> emitter \<Rightarrow> emitter" where
  "fbin op dl al bl =
     seq [get RAX al, get R11b bl, load_fops, emit [0x66, 0x48, 0x0F, fbin_opcode op],
        emit [modrm 3 0 1], store_fop, put RAX dl]"

fun fcmp_setcc :: "fcmp_op \<Rightarrow> u8" where
  "fcmp_setcc FCmp_Ge = 0x93"
| "fcmp_setcc FCmp_Gt = 0x97"
| "fcmp_setcc FCmp_Lt = 0x92"
| "fcmp_setcc FCmp_Le = 0x96"
| "fcmp_setcc FCmp_Eq = 0x94"
| "fcmp_setcc FCmp_Ne = 0x95"

fun fcmp_nan :: "fcmp_op \<Rightarrow> emitter \<Rightarrow> emitter" where
  "fcmp_nan FCmp_Ge = id"
| "fcmp_nan FCmp_Gt = id"
| "fcmp_nan FCmp_Ne = seq [emit [0x0F, 0x9A], emit [modrm 3 0 2], emit [0x08], emit [modrm 3 2 0]]"
| "fcmp_nan _ = seq [emit [0x0F, 0x9B], emit [modrm 3 0 2], emit [0x20], emit [modrm 3 2 0]]"

definition fcmp :: "fcmp_op \<Rightarrow> loc \<Rightarrow> loc \<Rightarrow> loc \<Rightarrow> emitter \<Rightarrow> emitter" where
  "fcmp op dl al bl =
     seq [get RAX al, get R11b bl, load_fops, emit [0x66, 0x48, 0x0F, 0x2F], emit [modrm 3 0 1],
        emit [0x0F, fcmp_setcc op], emit [modrm 3 0 0], fcmp_nan op,
        emit [0x48, 0x0F, 0xB6, 0xC0], put RAX dl]"

definition emit_fneg :: "loc \<Rightarrow> loc \<Rightarrow> emitter \<Rightarrow> emitter" where
  "emit_fneg dl al = seq [get RAX al, emit [0x48, 0xB9], emit [0x00, 0x00, 0x00, 0x00, 0x00, 0x00, 0x00, 0x80],
        emit [0x48, 0x31, 0xC8], put RAX dl]"

definition emit_f2i :: "loc \<Rightarrow> loc \<Rightarrow> emitter \<Rightarrow> emitter" where
  "emit_f2i dl sl = seq [get RAX sl, emit [0x66, 0x48, 0x0F, 0x6E], emit [modrm 3 0 RAX],
        emit [0xF2, 0x48, 0x0F, 0x2C], emit [modrm 3 0 RAX], put RAX dl]"

definition emit_i2f :: "loc \<Rightarrow> loc \<Rightarrow> emitter \<Rightarrow> emitter" where
  "emit_i2f dl sl = seq [get RAX sl, emit [0xF2, 0x48, 0x0F, 0x2A], emit [modrm 3 0 RAX], store_fop, put RAX dl]"

section \<open>Calls\<close>

definition emit_call_fn :: "loc \<Rightarrow> nat \<Rightarrow> loc list \<Rightarrow> emitter \<Rightarrow> emitter" where
  "emit_call_fn dl fidx args =
     seq [place_args args, call_rel32 (CT_Fn fidx), cleanup_tail (length args), put RAX dl]"

definition emit_call_static :: "loc \<Rightarrow> nat \<Rightarrow> loc list \<Rightarrow> emitter \<Rightarrow> emitter" where
  "emit_call_static dl fidx args e =
     (let takes_receiver = (case get_opt (e_fn_takes_receiver e) fidx of Some t \<Rightarrow> t | None \<Rightarrow> True)
      in (seq [(if takes_receiver then seq [emit [0x31, 0xFF], place_method_args args] else place_args args),
        call_rel32 (CT_Fn fidx), cleanup_tail (length args), put RAX dl]) e)"

definition emit_call_virt :: "loc \<Rightarrow> u32 \<Rightarrow> loc \<Rightarrow> loc list \<Rightarrow> emitter \<Rightarrow> emitter" where
  "emit_call_virt dl slot recv args =
     seq [get (ARG ! 0) recv, place_method_args args,
        emit [rex True True False, 0x8B, modrm 0 2 7], emit [rex True False True, 0xFF],
        emit [modrm 2 2 4], emit [modrm 0 4 2], imm32 (slot * 8),
        cleanup_tail (max (length args) 1), put RAX dl]"

definition emit_call_import :: "loc \<Rightarrow> nat \<Rightarrow> loc list \<Rightarrow> emitter \<Rightarrow> emitter" where
  "emit_call_import dl import args =
     seq [place_args args, abs64_window 0xB8 (Sym_Import (of_nat import)), emit [0xFF, 0xD0],
        put RAX dl]"

definition emit_call_addr :: "loc \<Rightarrow> loc \<Rightarrow> loc list \<Rightarrow> emitter \<Rightarrow> emitter" where
  "emit_call_addr dl target args =
     seq [get R11b target, place_args args, emit [0x41, 0xFF, 0xD3], cleanup_tail (length args),
        put RAX dl]"

definition emit_load_import :: "loc \<Rightarrow> nat \<Rightarrow> emitter \<Rightarrow> emitter" where
  "emit_load_import dl import = seq [abs64_window 0xB8 (Sym_Import (of_nat import)), put RAX dl]"

section \<open>Allocation and addresses\<close>

definition use_alloc :: "emitter \<Rightarrow> emitter" where "use_alloc e = e\<lparr>e_uses_alloc := True\<rparr>"
definition use_int :: "emitter \<Rightarrow> emitter" where "use_int e = e\<lparr>e_uses_int := True\<rparr>"
definition use_int_err :: "emitter \<Rightarrow> emitter" where "use_int_err e = e\<lparr>e_uses_int_err := True\<rparr>"
definition use_scan :: "emitter \<Rightarrow> emitter" where "use_scan e = e\<lparr>e_uses_scan := True\<rparr>"
definition use_retain :: "emitter \<Rightarrow> emitter" where "use_retain e = e\<lparr>e_uses_retain := True\<rparr>"
definition use_release :: "emitter \<Rightarrow> emitter" where "use_release e = e\<lparr>e_uses_release := True\<rparr>"

definition emit_alloc :: "loc \<Rightarrow> u32 \<Rightarrow> emitter \<Rightarrow> emitter" where
  "emit_alloc dl n = seq [use_alloc, emit [0xBE], imm32 n, call_rel32 CT_HelperAlloc, put RAX dl]"

definition emit_alloc_dyn :: "loc \<Rightarrow> loc \<Rightarrow> emitter \<Rightarrow> emitter" where
  "emit_alloc_dyn dl n = seq [use_alloc, get RSI n, call_rel32 CT_HelperAlloc, put RAX dl]"

definition emit_task_alloc :: "loc \<Rightarrow> u32 \<Rightarrow> emitter \<Rightarrow> emitter" where
  "emit_task_alloc dl n = seq [use_alloc, emit [0xBE], imm32 n, call_rel32 CT_HelperAlloc,
        emit [0xC7, 0x00, 0x01, 0x00, 0x00, 0x00], put RAX dl]"

definition emit_vtable_addr :: "loc \<Rightarrow> nat \<Rightarrow> emitter \<Rightarrow> emitter res" where
  "emit_vtable_addr dl row e =
     bindr (idx (e_vtable_offsets e) (min row (length (e_vtable_offsets e) - 1))) (\<lambda>off.
       Inr ((seq [abs64_window 0xB9 (Sym_VtableOff off), put RCX dl]) e))"

definition emit_fn_addr :: "loc \<Rightarrow> nat \<Rightarrow> emitter \<Rightarrow> emitter" where
  "emit_fn_addr dl fidx = seq [abs64_window 0xB9 (Sym_Fn (of_nat fidx)), put RCX dl]"

definition emit_static_addr :: "loc \<Rightarrow> nat \<Rightarrow> emitter \<Rightarrow> emitter" where
  "emit_static_addr dl i e =
     (seq [abs64_window 0xB9 (Sym_Static (of_nat (min i (length (e_static_offsets e) - 1)))),
        put RCX dl]) e"

definition emit_str_addr :: "loc \<Rightarrow> u32 \<Rightarrow> emitter \<Rightarrow> emitter" where
  "emit_str_addr dl off = seq [abs64_window 0xB9 (Sym_String (ucast off)), put RCX dl]"

section \<open>Fields and memory\<close>

definition emit_load_field :: "loc \<Rightarrow> loc \<Rightarrow> i32 \<Rightarrow> emitter \<Rightarrow> emitter" where
  "emit_load_field dl base d = seq [get R10b base,
        (case dl of In_Reg r \<Rightarrow> field_load (phys_id r) d | In_Slot k \<Rightarrow> seq [field_load RAX d, store_slot k RAX])]"

definition emit_load_byte :: "loc \<Rightarrow> loc \<Rightarrow> i32 \<Rightarrow> emitter \<Rightarrow> emitter" where
  "emit_load_byte dl base d = seq [get R10b base,
        (case dl of In_Reg r \<Rightarrow> field_load_byte (phys_id r) d | In_Slot k \<Rightarrow> seq [field_load_byte RAX d, store_slot k RAX])]"

definition emit_store_field :: "loc \<Rightarrow> i32 \<Rightarrow> loc \<Rightarrow> emitter \<Rightarrow> emitter" where
  "emit_store_field base d src = seq [get R10b base, get R11b src, field_store d]"

definition emit_memcpy :: "loc \<Rightarrow> loc \<Rightarrow> loc \<Rightarrow> emitter \<Rightarrow> emitter" where
  "emit_memcpy dst src len = seq [get R10b dst, get R11b src, get 8 len, memcpy_loop]"

definition emit_memcmp :: "loc \<Rightarrow> loc \<Rightarrow> loc \<Rightarrow> loc \<Rightarrow> emitter \<Rightarrow> emitter" where
  "emit_memcmp dl a b len = seq [get R10b a, get R11b b, get 8 len, memcmp_loop, put RAX dl]"

section \<open>Runtime calls\<close>

definition emit_write_string :: "loc \<Rightarrow> emitter \<Rightarrow> emitter" where
  "emit_write_string src = seq [get RSI src, emit [0x48, 0x8B, 0x16], emit [0x48, 0x83, 0xC6, 0x10],
        emit [0xBF, 0x01, 0x00, 0x00, 0x00], emit [0xB8, 0x01, 0x00, 0x00, 0x00],
        emit [0x0F, 0x05]]"

definition emit_write_int :: "loc \<Rightarrow> emitter \<Rightarrow> emitter" where
  "emit_write_int src = seq [use_int, get RAX src, call_rel32 CT_HelperItoa]"

definition emit_ewrite_int :: "loc \<Rightarrow> emitter \<Rightarrow> emitter" where
  "emit_ewrite_int src = seq [use_int_err, get RAX src, call_rel32 CT_HelperItoaErr]"

definition emit_scan_int :: "loc \<Rightarrow> emitter \<Rightarrow> emitter" where
  "emit_scan_int dl = seq [use_scan, call_rel32 CT_HelperScanInt, put RAX dl]"

definition emit_retain :: "loc \<Rightarrow> emitter \<Rightarrow> emitter" where
  "emit_retain src = seq [use_retain, get RAX src, call_rel32 CT_HelperRetain]"

text \<open>\<open>norelease\<close>: the environment variable \<open>RUBYC_NORELEASE\<close> is set.\<close>

definition emit_release :: "bool \<Rightarrow> loc \<Rightarrow> u32 \<Rightarrow> emitter \<Rightarrow> emitter" where
  "emit_release norelease src n =
     (if norelease then id
      else seq [use_release, get RAX src, emit [0xBE], imm32 n, call_rel32 CT_HelperRelease])"

definition emit_handler_enter :: "loc \<Rightarrow> emitter \<Rightarrow> emitter" where
  "emit_handler_enter dl = seq [call_rel32 CT_HelperExcEnter, put RAX dl]"

definition emit_load_exc :: "loc \<Rightarrow> emitter \<Rightarrow> emitter" where
  "emit_load_exc dl = seq [call_rel32 CT_HelperExcLoad, put RAX dl]"

definition emit_resume :: "loc \<Rightarrow> loc \<Rightarrow> emitter \<Rightarrow> emitter" where
  "emit_resume dl task = (case dl of In_Reg r \<Rightarrow> get (phys_id r) task | In_Slot k \<Rightarrow> seq [get RAX task, store_slot k RAX])"

end
