(* ===== verification/Build_Argv.thy ===== *)
theory Build_Argv
  imports Select
begin

text \<open>
  The \<open>BuildArgv\<close> arm of \<open>Emitter::instr\<close> in \<open>src/x86/encode_x64.rs\<close>, cut at its loops: the argument
  count and the array, the two string lengths, the UTF-8 decoder with its labels and rel32 fixups,
  and the end of the argument loop.
\<close>

section \<open>Labels and fixups\<close>

record labelled =
  la_em :: emitter
  la_labels :: "(string \<times> nat) list"
  la_fixups :: "(nat \<times> string) list"

definition lab_emit :: "bytes \<Rightarrow> labelled \<Rightarrow> labelled" where
  "lab_emit b s = s\<lparr>la_em := emit b (la_em s)\<rparr>"

definition lab_mark :: "string \<Rightarrow> labelled \<Rightarrow> labelled" where
  "lab_mark name s = s\<lparr>la_labels := (name, here (la_em s)) # la_labels s\<rparr>"

text \<open>\<open>branch32\<close>: the opcode, then four zero bytes to patch.\<close>

definition lab_branch :: "bytes \<Rightarrow> string \<Rightarrow> labelled \<Rightarrow> labelled" where
  "lab_branch op label s =
     (let e1 = emit op (la_em s); site = here e1
      in s\<lparr>la_em := emit [0, 0, 0, 0] e1, la_fixups := la_fixups s @ [(site, label)]\<rparr>)"

text \<open>The 32-bit displacement from the end of the window at \<open>site\<close> to \<open>target\<close>.\<close>

definition rel32_to :: "nat \<Rightarrow> nat \<Rightarrow> i32" where
  "rel32_to site target = of_int (int target - int (site + 4))"

definition patch32 :: "nat \<Rightarrow> i32 \<Rightarrow> emitter \<Rightarrow> emitter res" where
  "patch32 site rel e = bindr (put_slice (e_code e) site (le32 rel)) (\<lambda>c. Inr (e\<lparr>e_code := c\<rparr>))"

fun resolve_fixups :: "(string \<times> nat) list \<Rightarrow> (nat \<times> string) list \<Rightarrow> emitter \<Rightarrow> emitter res" where
  "resolve_fixups labels [] e = Inr e"
| "resolve_fixups labels ((site, name) # fs) e =
     (case map_of labels name of
        None \<Rightarrow> Inl Panic
      | Some target \<Rightarrow> bindr (patch32 site (rel32_to site target) e) (resolve_fixups labels fs))"

section \<open>The argument count and the array\<close>

definition argv_count :: "emitter \<Rightarrow> emitter" where
  "argv_count e0 =
     (let e1 = (seq [use_alloc, emit [0x48, 0x89, 0xE0], emit [0x48, 0x83, 0xE4, 0xF0], emit [0x50],
        abs64_window 0xB8 Sym_ArgvRsp, emit [rex True True False, 0x8B, modrm 0 1 0],
        emit [0x4D, 0x85, 0xC9], emit [0x75, 0x03], emit [0x49, 0x89, 0xC1],
        emit [rex True False True, 0x8B, modrm 0 1 1],
        emit [0x48, 0xC7, 0xC0, 0x00, 0x04, 0x00, 0x00], emit [0x48, 0x39, 0xC1]]) e0;
       jbe_argc = here e1;
       e2 = (seq [emit [0x76, 0x00], emit [0x48, 0x89, 0xC1], emit [0x48, 0x83, 0xE9, 0x01],
        emit [0x73, 0x02], emit [0x31, 0xC9]]) e1;
       argc_ok = here e2
     in patch_short jbe_argc (short_disp jbe_argc argc_ok) e2)"

definition argv_array :: "emitter \<Rightarrow> emitter" where
  "argv_array =
     seq [emit [rex True False False, 0x8D, 0x34, 0xCD, 0x10, 0x00, 0x00, 0x00],
        emit [0x48, 0x83, 0xEC, 0x08], call_rel32 CT_HelperAlloc,
        emit [0x48, 0x83, 0xC4, 0x08], emit [0x48, 0x89, 0xC7],
        emit [rex True False True, 0x8B, modrm 0 1 1], emit [0x48, 0x83, 0xE9, 0x01],
        emit [0x73, 0x02], emit [0x31, 0xC9], emit [rex True False False, 0x89, modrm 0 1 7],
        emit [0x4D, 0x31, 0xDB], emit [rex True True False, 0x3B, modrm 0 3 7]]"

section \<open>The length of one argument and its string object\<close>

text \<open>The loop that both \<open>strlen\<close> passes emit.\<close>

definition argv_strlen :: "emitter \<Rightarrow> emitter" where
  "argv_strlen e0 =
     (let strlen = here e0;
       e1 = (seq [emit [0x41, 0x8A, 0x04, 0x10], emit [0x84, 0xC0]]) e0;
       jz = here e1;
       e2 = (seq [emit [0x74, 0x00], emit [0x48, 0xFF, 0xC2]]) e1;
       jmp = here e2;
       e3 = emit [0xEB, 0x00] e2;
       strlen_done = here e3
     in (seq [patch_short jz (short_disp jz strlen_done), patch_short jmp (short_disp jmp strlen)]) e3)"

definition argv_string :: "emitter \<Rightarrow> emitter" where
  "argv_string =
     seq [emit [0x4B, 0x8B, 0x74, 0xD9, 0x10], emit [0x49, 0x89, 0xF0], emit [0x31, 0xD2],
        argv_strlen, emit [0x48, 0x89, 0xD6], emit [0x48, 0xC1, 0xE6, 0x01],
        emit [0x48, 0x83, 0xC6, 0x10], emit [0x57], emit [0x41, 0x53],
        emit [0x48, 0x83, 0xEC, 0x08], call_rel32 CT_HelperAlloc,
        emit [0x48, 0x83, 0xC4, 0x08], emit [0x41, 0x5B], emit [0x5F], emit [0x49, 0xBA],
        imm64 0x8000000000000001, emit [0x4C, 0x89, 0x50, 0x08], emit [0x41, 0x51],
        emit [0x41, 0x53], emit [0x50], emit [0x31, 0xD2], argv_strlen,
        emit [0x48, 0x8B, 0x04, 0x24], emit [0x48, 0x8D, 0x70, 0x10], emit [0x31, 0xC9]]"

section \<open>UTF-8 to UTF-16\<close>

definition utf_head :: "labelled \<Rightarrow> labelled" where
  "utf_head =
     seq [lab_mark ''head'', lab_emit [0x48, 0x39, 0xD1], lab_branch [0x0F, 0x83] ''done'',
        lab_emit [0x41, 0x0F, 0xB6, 0x04, 0x08], lab_emit [0x3D, 0x80, 0x00, 0x00, 0x00],
        lab_branch [0x0F, 0x82] ''one'', lab_emit [0x3D, 0xC2, 0x00, 0x00, 0x00],
        lab_branch [0x0F, 0x82] ''invalid'', lab_emit [0x3D, 0xE0, 0x00, 0x00, 0x00],
        lab_branch [0x0F, 0x82] ''two'', lab_emit [0x3D, 0xF0, 0x00, 0x00, 0x00],
        lab_branch [0x0F, 0x82] ''three'', lab_branch [0xE9] ''four'']"

definition utf_one :: "labelled \<Rightarrow> labelled" where
  "utf_one =
     seq [lab_mark ''one'', lab_emit [0x66, 0x89, 0x06], lab_emit [0x48, 0x83, 0xC6, 0x02],
        lab_emit [0x48, 0xFF, 0xC1], lab_branch [0xE9] ''head'']"

definition utf_two :: "labelled \<Rightarrow> labelled" where
  "utf_two =
     seq [lab_mark ''two'', lab_emit [0x4C, 0x8D, 0x49, 0x01], lab_emit [0x49, 0x39, 0xD1],
        lab_branch [0x0F, 0x83] ''invalid'', lab_emit [0x45, 0x0F, 0xB6, 0x4C, 0x08, 0x01],
        lab_emit [0x45, 0x89, 0xCA], lab_emit [0x41, 0x83, 0xE2, 0xC0],
        lab_emit [0x41, 0x81, 0xFA, 0x80, 0x00, 0x00, 0x00],
        lab_branch [0x0F, 0x85] ''invalid'', lab_emit [0x83, 0xE0, 0x1F],
        lab_emit [0xC1, 0xE0, 0x06], lab_emit [0x41, 0x83, 0xE1, 0x3F],
        lab_emit [0x44, 0x09, 0xC8], lab_emit [0x66, 0x89, 0x06],
        lab_emit [0x48, 0x83, 0xC6, 0x02], lab_emit [0x48, 0x83, 0xC1, 0x02],
        lab_branch [0xE9] ''head'']"

definition utf_three :: "labelled \<Rightarrow> labelled" where
  "utf_three =
     seq [lab_mark ''three'', lab_emit [0x4C, 0x8D, 0x49, 0x01], lab_emit [0x49, 0x39, 0xD1],
        lab_branch [0x0F, 0x83] ''invalid'', lab_emit [0x45, 0x0F, 0xB6, 0x4C, 0x08, 0x01],
        lab_emit [0x45, 0x89, 0xCA], lab_emit [0x41, 0x83, 0xE2, 0xC0],
        lab_emit [0x41, 0x81, 0xFA, 0x80, 0x00, 0x00, 0x00],
        lab_branch [0x0F, 0x85] ''invalid'', lab_emit [0x4C, 0x8D, 0x51, 0x02],
        lab_emit [0x49, 0x39, 0xD2], lab_branch [0x0F, 0x83] ''invalid'',
        lab_emit [0x45, 0x0F, 0xB6, 0x54, 0x08, 0x02], lab_emit [0x45, 0x89, 0xD3],
        lab_emit [0x41, 0x83, 0xE3, 0xC0], lab_emit [0x41, 0x81, 0xFB, 0x80, 0x00, 0x00, 0x00],
        lab_branch [0x0F, 0x85] ''invalid'', lab_emit [0x83, 0xE0, 0x0F],
        lab_emit [0xC1, 0xE0, 0x0C], lab_emit [0x41, 0x83, 0xE1, 0x3F],
        lab_emit [0x41, 0xC1, 0xE1, 0x06], lab_emit [0x44, 0x09, 0xC8],
        lab_emit [0x41, 0x83, 0xE2, 0x3F], lab_emit [0x44, 0x09, 0xD0],
        lab_emit [0x3D, 0x00, 0x08, 0x00, 0x00], lab_branch [0x0F, 0x82] ''invalid'',
        lab_emit [0x3D, 0x00, 0xD8, 0x00, 0x00], lab_branch [0x0F, 0x82] ''ok3'',
        lab_emit [0x3D, 0xFF, 0xDF, 0x00, 0x00], lab_branch [0x0F, 0x86] ''invalid'',
        lab_mark ''ok3'', lab_emit [0x66, 0x89, 0x06], lab_emit [0x48, 0x83, 0xC6, 0x02],
        lab_emit [0x48, 0x83, 0xC1, 0x03], lab_branch [0xE9] ''head'']"

definition utf_four_lead :: "labelled \<Rightarrow> labelled" where
  "utf_four_lead =
     seq [lab_mark ''four'', lab_emit [0x4C, 0x8D, 0x49, 0x01], lab_emit [0x49, 0x39, 0xD1],
        lab_branch [0x0F, 0x83] ''invalid'', lab_emit [0x45, 0x0F, 0xB6, 0x4C, 0x08, 0x01],
        lab_emit [0x45, 0x89, 0xCA], lab_emit [0x41, 0x83, 0xE2, 0xC0],
        lab_emit [0x41, 0x81, 0xFA, 0x80, 0x00, 0x00, 0x00],
        lab_branch [0x0F, 0x85] ''invalid'', lab_emit [0x83, 0xE0, 0x07],
        lab_emit [0xC1, 0xE0, 0x12], lab_emit [0x41, 0x83, 0xE1, 0x3F],
        lab_emit [0x41, 0xC1, 0xE1, 0x0C], lab_emit [0x44, 0x09, 0xC8],
        lab_emit [0x4C, 0x8D, 0x51, 0x02], lab_emit [0x49, 0x39, 0xD2],
        lab_branch [0x0F, 0x83] ''invalid'', lab_emit [0x45, 0x0F, 0xB6, 0x54, 0x08, 0x02],
        lab_emit [0x45, 0x89, 0xD1], lab_emit [0x41, 0x83, 0xE1, 0xC0],
        lab_emit [0x41, 0x81, 0xF9, 0x80, 0x00, 0x00, 0x00],
        lab_branch [0x0F, 0x85] ''invalid'', lab_emit [0x41, 0x83, 0xE2, 0x3F],
        lab_emit [0x41, 0xC1, 0xE2, 0x06], lab_emit [0x44, 0x09, 0xD0]]"

definition utf_four_tail :: "labelled \<Rightarrow> labelled" where
  "utf_four_tail =
     seq [lab_emit [0x4C, 0x8D, 0x59, 0x03], lab_emit [0x49, 0x39, 0xD3],
        lab_branch [0x0F, 0x83] ''invalid'', lab_emit [0x45, 0x0F, 0xB6, 0x5C, 0x08, 0x03],
        lab_emit [0x45, 0x89, 0xDA], lab_emit [0x41, 0x83, 0xE2, 0xC0],
        lab_emit [0x41, 0x81, 0xFA, 0x80, 0x00, 0x00, 0x00],
        lab_branch [0x0F, 0x85] ''invalid'', lab_emit [0x41, 0x83, 0xE3, 0x3F],
        lab_emit [0x44, 0x09, 0xD8], lab_emit [0x3D, 0x00, 0x00, 0x01, 0x00],
        lab_branch [0x0F, 0x82] ''invalid'', lab_emit [0x3D, 0xFF, 0xFF, 0x10, 0x00],
        lab_branch [0x0F, 0x87] ''invalid'', lab_emit [0x2D, 0x00, 0x00, 0x01, 0x00],
        lab_emit [0x41, 0x89, 0xC1], lab_emit [0x41, 0xC1, 0xE9, 0x0A],
        lab_emit [0x41, 0x81, 0xC1, 0x00, 0xD8, 0x00, 0x00], lab_emit [0x66, 0x44, 0x89, 0x0E],
        lab_emit [0x48, 0x83, 0xC6, 0x02], lab_emit [0x25, 0xFF, 0x03, 0x00, 0x00],
        lab_emit [0x05, 0x00, 0xDC, 0x00, 0x00], lab_emit [0x66, 0x89, 0x06],
        lab_emit [0x48, 0x83, 0xC6, 0x02], lab_emit [0x48, 0x83, 0xC1, 0x04],
        lab_branch [0xE9] ''head'']"

definition utf_invalid :: "labelled \<Rightarrow> labelled" where
  "utf_invalid =
     seq [lab_mark ''invalid'', lab_emit [0x66, 0xC7, 0x06, 0xFD, 0xFF],
        lab_emit [0x48, 0x83, 0xC6, 0x02], lab_emit [0x48, 0xFF, 0xC1],
        lab_branch [0xE9] ''head'']"

definition utf_decode :: "emitter \<Rightarrow> emitter res" where
  "utf_decode e =
     (let s = (seq [utf_head, utf_one, utf_two, utf_three, utf_four_lead, utf_four_tail, utf_invalid,
        lab_mark ''done'']) \<lparr>la_em = e, la_labels = [], la_fixups = []\<rparr>
      in resolve_fixups (la_labels s) (la_fixups s) (la_em s))"

section \<open>The argument loop\<close>

definition argv_store :: "emitter \<Rightarrow> emitter" where
  "argv_store =
     seq [emit [0x58], emit [0x41, 0x5B], emit [0x41, 0x59], emit [0x48, 0x89, 0xF1],
        emit [0x48, 0x29, 0xC1], emit [0x48, 0x83, 0xE9, 0x10], emit [0x48, 0xD1, 0xE9],
        emit [0x48, 0x89, 0x08], emit [0x4A, 0x89, 0x44, 0xDF, 0x10], emit [0x49, 0xFF, 0xC3],
        emit [rex True True False, 0x3B, modrm 0 3 7]]"

text \<open>The six-byte jump at \<open>pos\<close> goes to \<open>target\<close>.\<close>

definition patch_jcc :: "nat \<Rightarrow> nat \<Rightarrow> emitter \<Rightarrow> emitter res" where
  "patch_jcc pos target e = patch32 (pos + 2) (rel32_to (pos + 2) target) e"

definition build_argv :: "loc \<Rightarrow> emitter \<Rightarrow> emitter res" where
  "build_argv dl e0 =
     (let e1 = (seq [argv_count, argv_array]) e0;
       jge_done = here e1;
       e2 = emit [0x0F, 0x8D, 0x00, 0x00, 0x00, 0x00] e1;
       per_arg = here e2
     in bindr (utf_decode (argv_string e2)) (\<lambda>e3.
       let e4 = argv_store e3;
         jl_per = here e4;
         e5 = emit [0x0F, 0x8C, 0x00, 0x00, 0x00, 0x00] e4;
         done = here e5
       in bindr (patch_jcc jge_done done e5) (\<lambda>e6. bindr (patch_jcc jl_per per_arg e6) (\<lambda>e7.
         Inr ((seq [emit [0x48, 0x89, 0xF8], emit [0x5C], put RAX dl]) e7)))))"

end
