(* ===== verification/Encode.thy ===== *)
theory Encode
  imports Build_Argv Mc_Serialize
begin

text \<open>
  \<open>src/x86/encode_x64.rs\<close>, the rest of the back end: the dispatch over instructions, function
  prologues, terminators and branch patching, and \<open>lower\<close>, which lays the data section out, emits
  every function and the runtime helpers in use, and collects the relocations. Tracing and the
  diagnostic dumps to standard error are left out; \<open>norelease\<close> says whether the environment
  variable \<open>RUBYC_NORELEASE\<close> is set.
\<close>

section \<open>Instructions\<close>

definition loc_of :: "allocation \<Rightarrow> vreg \<Rightarrow> loc res" where "loc_of al v = idx (al_loc al) v"

fun locs_of :: "allocation \<Rightarrow> vreg list \<Rightarrow> loc list res" where
  "locs_of al [] = Inr []"
| "locs_of al (v # vs) = bindr (loc_of al v) (\<lambda>l. bindr (locs_of al vs) (\<lambda>ls. Inr (l # ls)))"

definition with1 :: "allocation \<Rightarrow> vreg \<Rightarrow> (loc \<Rightarrow> emitter \<Rightarrow> emitter) \<Rightarrow> emitter \<Rightarrow> emitter res" where
  "with1 al a f e = bindr (loc_of al a) (\<lambda>la. Inr (f la e))"

definition with2 :: "allocation \<Rightarrow> vreg \<Rightarrow> vreg \<Rightarrow> (loc \<Rightarrow> loc \<Rightarrow> emitter \<Rightarrow> emitter) \<Rightarrow> emitter \<Rightarrow> emitter res" where
  "with2 al a b f e = bindr (loc_of al a) (\<lambda>la. bindr (loc_of al b) (\<lambda>lb. Inr (f la lb e)))"

definition with3 :: "allocation \<Rightarrow> vreg \<Rightarrow> vreg \<Rightarrow> vreg \<Rightarrow> (loc \<Rightarrow> loc \<Rightarrow> loc \<Rightarrow> emitter \<Rightarrow> emitter) \<Rightarrow>
    emitter \<Rightarrow> emitter res" where
  "with3 al a b c f e = bindr (loc_of al a) (\<lambda>la. bindr (loc_of al b) (\<lambda>lb. bindr (loc_of al c) (\<lambda>lc.
     Inr (f la lb lc e))))"

definition with_args :: "allocation \<Rightarrow> vreg \<Rightarrow> vreg list \<Rightarrow> (loc \<Rightarrow> loc list \<Rightarrow> emitter \<Rightarrow> emitter) \<Rightarrow>
    emitter \<Rightarrow> emitter res" where
  "with_args al a vs f e = bindr (loc_of al a) (\<lambda>la. bindr (locs_of al vs) (\<lambda>ls. Inr (f la ls e)))"

fun instr :: "bool \<Rightarrow> allocation \<Rightarrow> instr \<Rightarrow> emitter \<Rightarrow> emitter res" where
  "instr nr al (I_Const dst imm) = with1 al dst (\<lambda>dl. emit_const dl imm)"
| "instr nr al (I_FConst dst bits) = with1 al dst (\<lambda>dl. emit_const dl bits)"
| "instr nr al (I_Mov dst a) = with2 al dst a emit_mov"
| "instr nr al (I_Raw bs) = (\<lambda>e. Inr (emit bs e))"
| "instr nr al (I_Bin op dst a b) = (\<lambda>e. bindr (loc_of al dst) (\<lambda>dl. bindr (loc_of al a) (\<lambda>la.
     bindr (loc_of al b) (\<lambda>lb. bin op dl la lb e))))"
| "instr nr al (I_Cmp op dst a b) = with3 al dst a b (cmp op)"
| "instr nr al (I_Neg dst a) = with2 al dst a emit_neg"
| "instr nr al (I_CallFn dst fidx args) = with_args al dst args (\<lambda>dl. emit_call_fn dl fidx)"
| "instr nr al (I_CallStatic dst fidx args) = with_args al dst args (\<lambda>dl. emit_call_static dl fidx)"
| "instr nr al (I_CallVirt dst slot recv args) = (\<lambda>e. bindr (loc_of al recv) (\<lambda>rl.
     with_args al dst args (\<lambda>dl. emit_call_virt dl slot rl) e))"
| "instr nr al (I_CallImport dst import args) = with_args al dst args (\<lambda>dl. emit_call_import dl import)"
| "instr nr al (I_LoadImport dst import) = with1 al dst (\<lambda>dl. emit_load_import dl import)"
| "instr nr al (I_Alloc dst n) = with1 al dst (\<lambda>dl. emit_alloc dl n)"
| "instr nr al (I_VTableAddr dst row) = (\<lambda>e. bindr (loc_of al dst) (\<lambda>dl. emit_vtable_addr dl row e))"
| "instr nr al (I_CallFnAddr dst target args) = (\<lambda>e. bindr (loc_of al target) (\<lambda>tgt.
     with_args al dst args (\<lambda>dl. emit_call_addr dl tgt) e))"
| "instr nr al (I_FnAddr dst fidx) = with1 al dst (\<lambda>dl. emit_fn_addr dl fidx)"
| "instr nr al (I_LoadStaticAddr dst i) = with1 al dst (\<lambda>dl. emit_static_addr dl i)"
| "instr nr al (I_LoadField dst base off) = with2 al dst base (\<lambda>dl bl. emit_load_field dl bl off)"
| "instr nr al (I_LoadByte dst base off) = with2 al dst base (\<lambda>dl bl. emit_load_byte dl bl off)"
| "instr nr al (I_StoreField base off src) = with2 al base src (\<lambda>bl sl. emit_store_field bl off sl)"
| "instr nr al (I_BuildArgv dst) = (\<lambda>e. bindr (loc_of al dst) (\<lambda>dl. build_argv dl e))"
| "instr nr al (I_WriteStr off len) = (\<lambda>e. Inr (write_str_syscall off len 1 e))"
| "instr nr al (I_EWriteStr off len) = (\<lambda>e. Inr (write_str_syscall off len 2 e))"
| "instr nr al (I_LoadStrAddr dst off) = with1 al dst (\<lambda>dl. emit_str_addr dl off)"
| "instr nr al (I_MemCpy dst src len) = with3 al dst src len emit_memcpy"
| "instr nr al (I_MemCmp dst a b len) = (\<lambda>e. bindr (loc_of al dst) (\<lambda>dl.
     with3 al a b len (emit_memcmp dl) e))"
| "instr nr al (I_AllocDyn dst n) = with2 al dst n emit_alloc_dyn"
| "instr nr al (I_WriteString src) = with1 al src emit_write_string"
| "instr nr al (I_WriteInt src) = with1 al src emit_write_int"
| "instr nr al (I_EWriteInt src) = with1 al src emit_ewrite_int"
| "instr nr al (I_ScanInt dst) = with1 al dst emit_scan_int"
| "instr nr al (I_Retain src) = with1 al src emit_retain"
| "instr nr al (I_Release src n) = (if nr then Inr else with1 al src (\<lambda>sl. emit_release nr sl n))"
| "instr nr al I_Exit = (\<lambda>e. Inl Panic)"
| "instr nr al (I_CallByName dst recv args) = (\<lambda>e. Inl Panic)"
| "instr nr al (I_FBin op dst a b) = with3 al dst a b (fbin op)"
| "instr nr al (I_FCmp op dst a b) = with3 al dst a b (fcmp op)"
| "instr nr al (I_FNeg dst a) = with2 al dst a emit_fneg"
| "instr nr al (I_F2I dst src) = with2 al dst src emit_f2i"
| "instr nr al (I_I2F dst src) = with2 al dst src emit_i2f"
| "instr nr al (I_StackAlloc dst) = (\<lambda>e. Inl Panic)"
| "instr nr al (I_Drop src) = (\<lambda>e. Inl Panic)"
| "instr nr al (I_HandlerEnter dst) = with1 al dst emit_handler_enter"
| "instr nr al I_HandlerPop = (\<lambda>e. Inr (call_rel32 CT_HelperExcPop e))"
| "instr nr al (I_LoadExc dst) = with1 al dst emit_load_exc"
| "instr nr al I_ClearInflight = (\<lambda>e. Inr (call_rel32 CT_HelperExcClear e))"
| "instr nr al (I_TaskAlloc dst n) = with1 al dst (\<lambda>dl. emit_task_alloc dl n)"
| "instr nr al (I_Suspend state) = (\<lambda>e. Inr (emit [0x90] e))"
| "instr nr al (I_CoroutineResume task dst) = with2 al dst task emit_resume"

fun instrs :: "bool \<Rightarrow> allocation \<Rightarrow> instr list \<Rightarrow> emitter \<Rightarrow> emitter res" where
  "instrs nr al [] e = Inr e"
| "instrs nr al (i # is) e = bindr (instr nr al i e) (instrs nr al is)"

section \<open>Prologue\<close>

text \<open>The derived \<open>Ord\<close> of \<open>Phys\<close>: the order of the constructors.\<close>

fun phys_index :: "phys \<Rightarrow> nat" where
  "phys_index Rbx = 0"
| "phys_index R12 = 1"
| "phys_index R13 = 2"
| "phys_index R14 = 3"
| "phys_index R15 = 4"

instantiation phys :: linorder
begin

definition less_eq_phys :: "phys \<Rightarrow> phys \<Rightarrow> bool" where "less_eq_phys a b \<longleftrightarrow> phys_index a \<le> phys_index b"
definition less_phys :: "phys \<Rightarrow> phys \<Rightarrow> bool" where "less_phys a b \<longleftrightarrow> phys_index a < phys_index b"

instance
proof
  fix a b :: phys
  show "a \<le> b \<Longrightarrow> b \<le> a \<Longrightarrow> a = b"
    by (cases a; cases b) (simp_all add: less_eq_phys_def)
qed (auto simp: less_eq_phys_def less_phys_def)

end

fun reg_of :: "loc \<Rightarrow> phys option" where
  "reg_of (In_Reg r) = Some r"
| "reg_of (In_Slot k) = None"

definition savers :: "allocation \<Rightarrow> phys list" where
  "savers al = remdups (sort (List.map_filter reg_of (al_loc al)))"

definition frame_bytes :: "u32 \<Rightarrow> nat \<Rightarrow> nat" where
  "frame_bytes spills n_savers =
     div_ceil (unat spills * 8) 16 * 16 + (if even n_savers then 8 else 0)"

definition reserve_frame :: "nat \<Rightarrow> emitter \<Rightarrow> emitter" where
  "reserve_frame n =
     (if n > 0 \<and> n \<le> 120 then emit [0x48, 0x83, 0xEC, of_nat n]
      else if n > 0 then seq [emit [0x48, 0x81, 0xEC], imm32 (of_nat n)]
      else id)"

fun push_savers :: "phys list \<Rightarrow> emitter \<Rightarrow> emitter" where
  "push_savers [] = id"
| "push_savers (r # rs) = seq [emit [rex True False (needs_rex r)], emit [0x50 OR (phys_id r AND 7)], push_savers rs]"

fun pop_savers :: "phys list \<Rightarrow> emitter \<Rightarrow> emitter" where
  "pop_savers [] = id"
| "pop_savers (r # rs) = seq [emit [rex True False (needs_rex r)], emit [0x58 OR (phys_id r AND 7)], pop_savers rs]"

definition argv_stub :: "ir_function \<Rightarrow> emitter \<Rightarrow> emitter" where
  "argv_stub f e =
     (if f_name f = ''@start'' \<and> e_uses_argv e then
        (seq [abs64_window 0xB8 Sym_ArgvRsp, emit [0x48, 0x83, 0x38, 0x00], emit [0x75, 0x03],
        emit [0x48, 0x89, 0x20]]) e
      else e)"

definition load_stack_arg :: "nat \<Rightarrow> loc \<Rightarrow> emitter \<Rightarrow> emitter" where
  "load_stack_arg d l =
     seq [emit [0x48, 0x8B],
        (if d \<le> 127 then seq [emit [modrm 1 RAX 5], emit [of_nat d]]
      else seq [emit [modrm 2 RAX 5], imm32 (of_nat d)]),
        put RAX l]"

text \<open>Parameter \<open>p\<close> lives at register \<open>p + 1\<close>; it arrives in a register or above \<open>rbp\<close>.\<close>

definition bind_param :: "bool \<Rightarrow> allocation \<Rightarrow> nat \<Rightarrow> emitter \<Rightarrow> emitter res" where
  "bind_param recv al p e =
     (let i = p + 1; first_stack = (if recv then 6 else 7) in
      if i \<ge> length (al_loc al) then Inr e
      else if i \<ge> first_stack then Inr (load_stack_arg (16 + 8 * (i - first_stack)) (al_loc al ! i) e)
      else bindr (idx ARG ((if recv then 1 else 0) + p)) (\<lambda>r. Inr (put r (al_loc al ! i) e)))"

fun bind_params :: "bool \<Rightarrow> allocation \<Rightarrow> nat list \<Rightarrow> emitter \<Rightarrow> emitter res" where
  "bind_params recv al [] e = Inr e"
| "bind_params recv al (p # ps) e = bindr (bind_param recv al p e) (bind_params recv al ps)"

definition prologue :: "ir_function \<Rightarrow> allocation \<Rightarrow> emitter \<Rightarrow> emitter res" where
  "prologue f al e0 =
     (let e1 = argv_stub f (e0\<lparr>e_fn_starts := e_fn_starts e0 @ [of_nat (here e0)]\<rparr>);
          e2 = (seq [emit [0x55], emit [0x48, 0x89, 0xE5],
        reserve_frame (frame_bytes (al_spills al) (length (savers al))), push_savers (savers al)]) e1
      in bindr (if f_receiver f then bindr (loc_of al 0) (\<lambda>l. Inr (put (ARG ! 0) l e2)) else Inr e2)
        (bind_params (f_receiver f) al [0..<f_arity f]))"

section \<open>Blocks\<close>

text \<open>The emitter, the start of each block so far, and the branches to patch.\<close>

record fn_state =
  fn_em :: emitter
  fn_starts :: "nat list"
  fn_jumps :: "(nat \<times> block_id) list"

definition fn_emit :: "(emitter \<Rightarrow> emitter) \<Rightarrow> fn_state \<Rightarrow> fn_state" where
  "fn_emit f s = s\<lparr>fn_em := f (fn_em s)\<rparr>"

text \<open>A rel32 placeholder for a branch to a block.\<close>

definition jump_window :: "block_id \<Rightarrow> fn_state \<Rightarrow> fn_state" where
  "jump_window b s = s\<lparr>fn_em := imm32 0 (fn_em s), fn_jumps := fn_jumps s @ [(here (fn_em s), b)]\<rparr>"

definition restore_ret :: "phys list \<Rightarrow> emitter \<Rightarrow> emitter" where
  "restore_ret sv = seq [pop_savers (rev sv), emit [0xC9, 0xC3]]"

fun emit_term :: "allocation \<Rightarrow> phys list \<Rightarrow> terminator \<Rightarrow> fn_state \<Rightarrow> fn_state res" where
  "emit_term al sv (T_Ret (Some v)) s = bindr (loc_of al v) (\<lambda>l. Inr (fn_emit (seq [get RAX l, restore_ret sv]) s))"
| "emit_term al sv (T_Ret None) s = Inr (fn_emit (seq [emit [0xB8], imm32 0, restore_ret sv]) s)"
| "emit_term al sv T_Exit s = Inr (fn_emit (seq [emit [0xB8], imm32 231, emit [0x31, 0xFF], emit [0x0F, 0x05]]) s)"
| "emit_term al sv (T_ExitWith v) s = bindr (loc_of al v) (\<lambda>l.
     Inr (fn_emit (seq [get RDI l, emit [0xB8], imm32 231, emit [0x0F, 0x05]]) s))"
| "emit_term al sv (T_Branch None t _) s = Inr ((seq [fn_emit (emit [0xE9]), jump_window t]) s)"
| "emit_term al sv (T_Branch (Some c) t f) s = bindr (loc_of al c) (\<lambda>l.
     Inr ((seq [fn_emit (seq [get RAX l, emit [rex True False False, 0x85], emit [modrm 3 RAX RAX], emit [0x0F, 0x85]]),
        jump_window t, fn_emit (emit [0xE9]), jump_window f]) s))"
| "emit_term al sv (T_Unwind src) s = bindr (loc_of al src) (\<lambda>l.
     Inr (fn_emit (seq [get RDI l, call_rel32 CT_HelperExcThrow]) s))"
| "emit_term al sv T_Rethrow s = Inr (fn_emit (call_rel32 CT_HelperExcRethrow) s)"

definition emit_block :: "bool \<Rightarrow> allocation \<Rightarrow> phys list \<Rightarrow> block \<Rightarrow> fn_state \<Rightarrow> fn_state res" where
  "emit_block nr al sv b s =
     bindr (instrs nr al (b_instrs b) (fn_em s)) (\<lambda>e.
       emit_term al sv (b_term b) (s\<lparr>fn_em := e, fn_starts := fn_starts s @ [here (fn_em s)]\<rparr>))"

fun emit_blocks :: "bool \<Rightarrow> allocation \<Rightarrow> phys list \<Rightarrow> block list \<Rightarrow> fn_state \<Rightarrow> fn_state res" where
  "emit_blocks nr al sv [] s = Inr s"
| "emit_blocks nr al sv (b # bs) s = bindr (emit_block nr al sv b s) (emit_blocks nr al sv bs)"

fun patch_jumps :: "nat list \<Rightarrow> (nat \<times> block_id) list \<Rightarrow> emitter \<Rightarrow> emitter res" where
  "patch_jumps starts [] e = Inr e"
| "patch_jumps starts ((site, target) # js) e =
     bindr (idx starts target) (\<lambda>start. bindr (patch32 site (rel32_to site start) e) (patch_jumps starts js))"

definition emit_function :: "bool \<Rightarrow> ir_function \<Rightarrow> emitter \<Rightarrow> emitter res" where
  "emit_function nr f e =
     bindr (allocate f) (\<lambda>al. bindr (prologue f al e) (\<lambda>e1.
     bindr (emit_blocks nr al (savers al) (f_blocks f) \<lparr>fn_em = e1, fn_starts = [], fn_jumps = []\<rparr>) (\<lambda>s.
       patch_jumps (fn_starts s) (fn_jumps s) (fn_em s))))"

fun emit_functions :: "bool \<Rightarrow> ir_function list \<Rightarrow> emitter \<Rightarrow> emitter res" where
  "emit_functions nr [] e = Inr e"
| "emit_functions nr (f # fs) e = bindr (emit_function nr f e) (emit_functions nr fs)"

end
