(* ===== verification/Lower.thy ===== *)
theory Lower
  imports Encode
begin

text \<open>
  \<open>Backend::lower\<close> of \<open>src/x86/encode_x64.rs\<close>: data layout, code, runtime helpers, relocations.
  \<open>static_symbol\<close> (of the compiler crate) is a parameter: it names the export symbol of a static.
\<close>

section \<open>What the program uses\<close>

definition program_uses_argv :: "program \<Rightarrow> bool" where
  "program_uses_argv p = list_ex (\<lambda>f. list_ex (\<lambda>b.
     list_ex (\<lambda>i. case i of I_BuildArgv _ \<Rightarrow> True | _ \<Rightarrow> False) (b_instrs b)) (f_blocks f)) (p_functions p)"

definition exc_instr :: "instr \<Rightarrow> bool" where
  "exc_instr i = (case i of I_HandlerEnter _ \<Rightarrow> True | I_HandlerPop \<Rightarrow> True | I_LoadExc _ \<Rightarrow> True
     | I_ClearInflight \<Rightarrow> True | _ \<Rightarrow> False)"

definition exc_term :: "terminator \<Rightarrow> bool" where
  "exc_term t = (case t of T_Unwind _ \<Rightarrow> True | T_Rethrow \<Rightarrow> True | _ \<Rightarrow> False)"

definition program_uses_exc :: "program \<Rightarrow> bool" where
  "program_uses_exc p = list_ex (\<lambda>f. list_ex (\<lambda>b.
     list_ex exc_instr (b_instrs b) \<or> exc_term (b_term b)) (f_blocks f)) (p_functions p)"

section \<open>The data section\<close>

text \<open>The byte offset of each vtable row, from \<open>cursor\<close> on.\<close>

fun row_offsets :: "nat \<Rightarrow> usize list list \<Rightarrow> usize list" where
  "row_offsets cursor [] = []"
| "row_offsets cursor (row # rows) = of_nat cursor # row_offsets (cursor + length row * 8) rows"

definition vtable_words :: "usize list list \<Rightarrow> bytes" where
  "vtable_words rows = concat (map (\<lambda>row. replicate (length row * 8) 0) rows)"

definition static_slots :: "nat \<Rightarrow> 'a list \<Rightarrow> usize list" where
  "static_slots start statics = map (\<lambda>i. of_nat (start + 8 * i)) [0..<length statics]"

text \<open>Strings, vtable words, static slots.\<close>

record data_layout =
  dl_data :: bytes
  dl_vtable_offsets :: "usize list"
  dl_static_offsets :: "usize list"

definition lower_data :: "program \<Rightarrow> data_layout" where
  "lower_data p =
     (let rows = map snd (p_vtables p);
          d1 = p_strings p @ vtable_words rows
      in \<lparr>dl_data = d1 @ concat (map (\<lambda>_. replicate 8 0) (p_statics p)),
          dl_vtable_offsets = row_offsets (length (p_strings p)) rows,
          dl_static_offsets = static_slots (length d1) (p_statics p)\<rparr>)"

section \<open>The runtime helpers\<close>

text \<open>A helper is appended when the program uses it; its offset is where it starts.\<close>

definition helper :: "bool \<Rightarrow> bytes \<Rightarrow> emitter \<Rightarrow> usize option \<times> emitter" where
  "helper used code e = (if used then (Some (of_nat (here e)), emit code e) else (None, e))"

definition add_core_helpers :: "machine_code \<Rightarrow> emitter \<Rightarrow> machine_code \<times> emitter" where
  "add_core_helpers mc e =
     (case helper (e_uses_int e) ITOA e of (itoa, e) \<Rightarrow>
      case helper (e_uses_int_err e) (itoa_to_fd 2) e of (itoa_err, e) \<Rightarrow>
      case helper (e_uses_scan e) SCAN_INT e of (scan_int, e) \<Rightarrow>
      case helper (e_uses_retain e) RETAIN e of (retain, e) \<Rightarrow>
      case helper (e_uses_release e) RELEASE e of (release, e) \<Rightarrow>
      case helper (e_uses_alloc e) ALLOC_REVISED e of (alloc, e) \<Rightarrow>
        (mc\<lparr>mc_helper_itoa := itoa, mc_helper_itoa_err := itoa_err, mc_helper_scan_int := scan_int,
           mc_helper_retain := retain, mc_helper_release := release, mc_helper_alloc := alloc\<rparr>, e))"

text \<open>The exception state block comes last in the data, after the argv slot.\<close>

definition add_state_blocks :: "machine_code \<Rightarrow> emitter \<Rightarrow> machine_code" where
  "add_state_blocks mc e =
     (let mc1 = (if e_uses_argv e then mc\<lparr>mc_helper_argv := Some (of_nat (length (mc_data mc))),
            mc_data := mc_data mc @ replicate 8 0\<rparr> else mc)
      in if e_uses_exc e then mc1\<lparr>mc_exc_state_offset := Some (of_nat (length (mc_data mc1))),
            mc_data := mc_data mc1 @ replicate EXC_STATE_SIZE 0\<rparr> else mc1)"

definition add_exc_helpers :: "machine_code \<Rightarrow> emitter \<Rightarrow> machine_code \<times> emitter" where
  "add_exc_helpers mc e =
     (case helper (e_uses_exc e) EXC_ENTER e of (enter, e) \<Rightarrow>
      case helper (e_uses_exc e) EXC_POP e of (pop, e) \<Rightarrow>
      case helper (e_uses_exc e) EXC_LOAD e of (load, e) \<Rightarrow>
      case helper (e_uses_exc e) EXC_CLEAR e of (clear, e) \<Rightarrow>
      case helper (e_uses_exc e) EXC_THROW e of (throw, e) \<Rightarrow>
      case helper (e_uses_exc e) EXC_RETHROW e of (rethrow, e) \<Rightarrow>
        (mc\<lparr>mc_helper_exc_enter := enter, mc_helper_exc_pop := pop, mc_helper_exc_load := load,
           mc_helper_exc_clear := clear, mc_helper_exc_throw := throw, mc_helper_exc_rethrow := rethrow\<rparr>, e))"

section \<open>The relocations\<close>

fun call_sym :: "call_target \<Rightarrow> sym" where
  "call_sym (CT_Fn i) = Sym_Fn (of_nat i)"
| "call_sym CT_HelperItoa = Sym_HelperItoa"
| "call_sym CT_HelperItoaErr = Sym_HelperItoaErr"
| "call_sym CT_HelperScanInt = Sym_HelperScanInt"
| "call_sym CT_HelperRetain = Sym_HelperRetain"
| "call_sym CT_HelperRelease = Sym_HelperRelease"
| "call_sym CT_HelperAlloc = Sym_HelperAlloc"
| "call_sym CT_HelperExcEnter = Sym_HelperExcEnter"
| "call_sym CT_HelperExcPop = Sym_HelperExcPop"
| "call_sym CT_HelperExcThrow = Sym_HelperExcThrow"
| "call_sym CT_HelperExcRethrow = Sym_HelperExcRethrow"
| "call_sym CT_HelperExcLoad = Sym_HelperExcLoad"
| "call_sym CT_HelperExcClear = Sym_HelperExcClear"

definition call_relocs :: "(usize \<times> call_target) list \<Rightarrow> reloc list" where
  "call_relocs sites = map (\<lambda>(site, target).
     \<lparr>r_kind = Rel32Call, r_section = Code, r_site = site, r_sym = call_sym target\<rparr>) sites"

text \<open>The words of one vtable row; abstract holes (\<open>usize::MAX\<close>) get no relocation.\<close>

fun row_relocs :: "usize \<Rightarrow> usize list \<Rightarrow> reloc list" where
  "row_relocs site [] = []"
| "row_relocs site (fn_idx # row) =
     (if fn_idx = 0xFFFFFFFFFFFFFFFF then []
      else [\<lparr>r_kind = Abs64, r_section = Data, r_site = site, r_sym = Sym_Fn fn_idx\<rparr>]) @
     row_relocs (site + 8) row"

definition vtable_relocs :: "usize list \<Rightarrow> usize list list \<Rightarrow> reloc list" where
  "vtable_relocs offsets rows = concat (map (\<lambda>(off, row). row_relocs off row) (zip offsets rows))"

definition heap_reloc :: "usize option \<Rightarrow> nat \<Rightarrow> reloc list" where
  "heap_reloc h off = (case h of None \<Rightarrow> []
     | Some h \<Rightarrow> [\<lparr>r_kind = Abs64, r_section = Code, r_site = h + of_nat off, r_sym = Sym_HeapBase\<rparr>])"

definition exc_relocs :: "machine_code \<Rightarrow> reloc list" where
  "exc_relocs mc =
     (case mc_exc_state_offset mc of None \<Rightarrow> []
      | Some off \<Rightarrow> map (\<lambda>h. \<lparr>r_kind = Abs64, r_section = Code, r_site = h + of_nat EXC_BASE_OFFSET,
            r_sym = Sym_ExcState off\<rparr>)
          (List.map_filter id [mc_helper_exc_enter mc, mc_helper_exc_pop mc, mc_helper_exc_load mc,
             mc_helper_exc_clear mc, mc_helper_exc_throw mc, mc_helper_exc_rethrow mc]))"

section \<open>Lowering\<close>

definition export_receivers :: "program \<Rightarrow> bool list" where
  "export_receivers p = map (\<lambda>(name, fi, arity).
     case get_opt (p_functions p) (unat fi) of Some f \<Rightarrow> f_receiver f | None \<Rightarrow> False) (p_exports p)"

definition lower_start :: "program \<Rightarrow> emitter" where
  "lower_start p = (new_emitter p)\<lparr>e_uses_exc := program_uses_exc p, e_uses_argv := program_uses_argv p,
     e_vtable_offsets := dl_vtable_offsets (lower_data p), e_static_offsets := dl_static_offsets (lower_data p)\<rparr>"

definition lower_finish :: "(bytes \<Rightarrow> bytes \<Rightarrow> bytes) \<Rightarrow> program \<Rightarrow> emitter \<Rightarrow> machine_code" where
  "lower_finish static_symbol p e0 =
     (let dl = lower_data p;
          mc0 = empty_mc\<lparr>mc_data := dl_data dl, mc_vtable_offsets := dl_vtable_offsets dl,
            mc_vtable_names := map fst (p_vtables p), mc_static_offsets := dl_static_offsets dl,
            mc_static_names := map (\<lambda>(c, n). static_symbol c n) (p_statics p)\<rparr>
      in case add_core_helpers mc0 e0 of (mc1, e1) \<Rightarrow>
         case add_exc_helpers (add_state_blocks mc1 e1) e1 of (mc2, e2) \<Rightarrow>
           mc2\<lparr>mc_code := e_code e2, mc_fn_bases := e_fn_starts e2,
             mc_import_names := p_imports p, mc_exports := p_exports p,
             mc_export_takes_receiver := export_receivers p, mc_init_fn := p_init p,
             mc_relocs := e_relocs e2 @ call_relocs (e_call_sites e2) @
               vtable_relocs (dl_vtable_offsets dl) (map snd (p_vtables p)) @
               heap_reloc (mc_helper_alloc mc2) ALLOC_REVISED_HEAPBASE_OFFSET @
               heap_reloc (mc_helper_release mc2) RELEASE_HEAPBASE_OFFSET @
               exc_relocs mc2,
             mc_heap_size := p_heap_size p\<rparr>)"

definition lower :: "(bytes \<Rightarrow> bytes \<Rightarrow> bytes) \<Rightarrow> bool \<Rightarrow> program \<Rightarrow> machine_code res" where
  "lower static_symbol norelease p =
     bindr (emit_functions norelease (p_functions p) (lower_start p)) (\<lambda>e. Inr (lower_finish static_symbol p e))"

definition encode_object :: "machine_code \<Rightarrow> bytes" where "encode_object mc = encode mc"
definition decode_object :: "bytes \<Rightarrow> machine_code res" where "decode_object bs = decode bs"

end
