(* ===== verification/X86.thy ===== *)
theory X86
  imports Prelude
begin

text \<open>
  The instruction set the back end emits, as far as its code and the runtime snippets use it: a
  decoder from bytes to instructions and a step function on registers, flags and byte memory. This
  theory is the trusted description of the processor the correctness statements refer to; it
  models no code of the repository. The code is a separate byte list, \<open>ip\<close> an offset into it;
  flags that an instruction leaves undefined keep their value, which no emitted code reads. A
  division fault, an undecodable byte and the end of the code have no successor.
\<close>

section \<open>State\<close>

record mstate =
  regs :: "u8 \<Rightarrow> u64"
  zf :: bool
  sf :: bool
  cf :: bool
  ofl :: bool
  mem :: "u64 \<Rightarrow> u8"

definition ld64 :: "(u64 \<Rightarrow> u8) \<Rightarrow> u64 \<Rightarrow> u64" where
  "ld64 m a = from_le [m a, m (a + 1), m (a + 2), m (a + 3), m (a + 4), m (a + 5), m (a + 6), m (a + 7)]"

definition ld32 :: "(u64 \<Rightarrow> u8) \<Rightarrow> u64 \<Rightarrow> u32" where
  "ld32 m a = from_le [m a, m (a + 1), m (a + 2), m (a + 3)]"

fun st_bytes :: "(u64 \<Rightarrow> u8) \<Rightarrow> u64 \<Rightarrow> bytes \<Rightarrow> (u64 \<Rightarrow> u8)" where
  "st_bytes m a [] = m"
| "st_bytes m a (b # bs) = st_bytes (m(a := b)) (a + 1) bs"

definition st64 :: "(u64 \<Rightarrow> u8) \<Rightarrow> u64 \<Rightarrow> u64 \<Rightarrow> (u64 \<Rightarrow> u8)" where
  "st64 m a v = st_bytes m a (le64 v)"

definition st32 :: "(u64 \<Rightarrow> u8) \<Rightarrow> u64 \<Rightarrow> u32 \<Rightarrow> (u64 \<Rightarrow> u8)" where
  "st32 m a v = st_bytes m a (le32 v)"

section \<open>Instructions\<close>

text \<open>A memory operand is base plus scaled index plus displacement; the index may be absent.\<close>

datatype (plugins only: code size) opnd = Reg u8 | Mem u8 "(u8 \<times> nat) option" u64

datatype (plugins only: code size) alu = Add | Or | And | Sub | Xor | Cmp | Test

datatype (plugins only: code size) shift = Shl | Shr | Sar

datatype (plugins only: code size) x86 =
    Mov opnd opnd
  | Mov32 opnd opnd
  | MovImm opnd u64
  | MovImm32 opnd u32
  | MovImm8 opnd u8
  | Mov8 opnd opnd
  | Movzx8 u8 opnd
  | Lea u8 opnd
  | Alu alu opnd opnd
  | Alu32 alu opnd opnd
  | AluImm alu opnd u64
  | AluImm32 alu opnd u32
  | AluImm8 alu opnd u8
  | Alu8 alu opnd opnd
  | Imul u8 opnd
  | ImulImm u8 opnd u64
  | Neg opnd
  | Inc opnd
  | Dec opnd
  | Inc32 opnd
  | Div opnd
  | Idiv opnd
  | Cqo
  | ShiftCl shift opnd
  | ShiftImm shift opnd nat
  | Setcc u8 opnd
  | Push u8
  | Pop u8
  | Leave
  | Jcc u8 int
  | Jmp int
  | JmpReg opnd
  | Ret
  | Syscall
  | RepStosb
  | Nop

section \<open>Decoding\<close>

definition sx8 :: "u8 \<Rightarrow> u64" where "sx8 b = scast b"
definition sx32 :: "bytes \<Rightarrow> u64" where "sx32 bs = scast (from_le (take 4 bs) :: u32)"

text \<open>REX bits, as booleans: W, R, X, B.\<close>

record rex_bits =
  rx_w :: bool
  rx_r :: bool
  rx_x :: bool
  rx_b :: bool

definition rex_of :: "u8 \<Rightarrow> rex_bits" where
  "rex_of b = \<lparr>rx_w = (b AND 8 \<noteq> 0), rx_r = (b AND 4 \<noteq> 0), rx_x = (b AND 2 \<noteq> 0), rx_b = (b AND 1 \<noteq> 0)\<rparr>"

definition ext :: "bool \<Rightarrow> u8 \<Rightarrow> u8" where "ext hi r = (if hi then r + 8 else r)"

text \<open>The displacement of mode 1 or 2: its value and its length.\<close>

definition disp_of :: "u8 \<Rightarrow> bytes \<Rightarrow> (u64 \<times> nat) option" where
  "disp_of md bs =
     (if md = 0 then Some (0, 0)
      else if md = 1 then (case bs of b # _ \<Rightarrow> Some (sx8 b, 1) | [] \<Rightarrow> None)
      else if length bs < 4 then None else Some (sx32 bs, 4))"

text \<open>
  ModRM, SIB and displacement: the reg field (not extended), the operand and the length read.
  The absolute and rip-relative forms are not used and do not decode.
\<close>

definition modrm_of :: "rex_bits \<Rightarrow> bytes \<Rightarrow> (u8 \<times> opnd \<times> nat) option" where
  "modrm_of rx bs = (case bs of [] \<Rightarrow> None | m # bs1 \<Rightarrow>
     (let md = drop_bit 6 m; reg = drop_bit 3 m AND 7; rm = m AND 7 in
      if md = 3 then Some (reg, Reg (ext (rx_b rx) rm), 1)
      else if rm = 4 then
        (case bs1 of [] \<Rightarrow> None | sib # bs2 \<Rightarrow>
           (let sc = drop_bit 6 sib; ix = ext (rx_x rx) (drop_bit 3 sib AND 7); bse = sib AND 7 in
            if md = 0 \<and> bse = 5 then None
            else case disp_of md bs2 of None \<Rightarrow> None
              | Some (d, n) \<Rightarrow> Some (reg, Mem (ext (rx_b rx) bse) (if ix = 4 then None else Some (ix, 2 ^ unat sc)) d, 2 + n)))
      else if md = 0 \<and> rm = 5 then None
      else case disp_of md bs1 of None \<Rightarrow> None
        | Some (d, n) \<Rightarrow> Some (reg, Mem (ext (rx_b rx) rm) None d, 1 + n)))"

text \<open>Continue after a ModRM operand with the bytes that follow it; the length grows by what was read.\<close>

definition with_rm :: "rex_bits \<Rightarrow> bytes \<Rightarrow> (u8 \<Rightarrow> opnd \<Rightarrow> bytes \<Rightarrow> (x86 \<times> nat) option) \<Rightarrow> (x86 \<times> nat) option" where
  "with_rm rx bs k = (case modrm_of rx bs of None \<Rightarrow> None
     | Some (reg, rm, n) \<Rightarrow> (case k reg rm (drop n bs) of None \<Rightarrow> None | Some (i, l) \<Rightarrow> Some (i, n + l)))"

definition imm8_op :: "bytes \<Rightarrow> (u8 \<Rightarrow> x86) \<Rightarrow> (x86 \<times> nat) option" where
  "imm8_op bs f = (case bs of [] \<Rightarrow> None | b # _ \<Rightarrow> Some (f b, 1))"

definition imm32_op :: "bytes \<Rightarrow> (u32 \<Rightarrow> x86) \<Rightarrow> (x86 \<times> nat) option" where
  "imm32_op bs f = (if length bs < 4 then None else Some (f (from_le (take 4 bs)), 4))"

definition imm64_op :: "bytes \<Rightarrow> (u64 \<Rightarrow> x86) \<Rightarrow> (x86 \<times> nat) option" where
  "imm64_op bs f = (if length bs < 8 then None else Some (f (from_le (take 8 bs)), 8))"

definition alu_group :: "u8 \<Rightarrow> alu option" where
  "alu_group g = (if g = 0 then Some Add else if g = 1 then Some Or else if g = 4 then Some And
     else if g = 5 then Some Sub else if g = 6 then Some Xor else if g = 7 then Some Cmp else None)"

definition shift_group :: "u8 \<Rightarrow> shift option" where
  "shift_group g = (if g = 4 then Some Shl else if g = 5 then Some Shr else if g = 7 then Some Sar else None)"

definition decode_0f :: "rex_bits \<Rightarrow> bytes \<Rightarrow> (x86 \<times> nat) option" where
  "decode_0f rx bs = (case bs of [] \<Rightarrow> None | op # bs \<Rightarrow>
     (let R = ext (rx_r rx) in
      if op = 0x05 then Some (Syscall, 0)
      else if op = 0xAF then with_rm rx bs (\<lambda>reg rm r. Some (Imul (R reg) rm, 0))
      else if op = 0xB6 then with_rm rx bs (\<lambda>reg rm r. Some (Movzx8 (R reg) rm, 0))
      else if 0x80 \<le> op \<and> op \<le> 0x8F then
        (case imm32_op bs (\<lambda>d. Jcc (op AND 0x0F) (sint d)) of None \<Rightarrow> None | Some (i, l) \<Rightarrow> Some (i, l))
      else if 0x90 \<le> op \<and> op \<le> 0x9F then with_rm rx bs (\<lambda>reg rm r. Some (Setcc (op AND 0x0F) rm, 0))
      else None))"

text \<open>One-byte opcodes on a ModRM operand.\<close>

definition decode_rm :: "rex_bits \<Rightarrow> u8 \<Rightarrow> u8 \<Rightarrow> opnd \<Rightarrow> bytes \<Rightarrow> (x86 \<times> nat) option" where
  "decode_rm rx op reg rm bs =
     (let R = Reg (ext (rx_r rx) reg); W = rx_w rx;
        alu = (\<lambda>a x y. Some (if W then Alu a x y else Alu32 a x y, 0)) in
      if op = 0x01 then alu Add rm R else if op = 0x03 then alu Add R rm
      else if op = 0x09 then alu Or rm R else if op = 0x0B then alu Or R rm
      else if op = 0x21 then alu And rm R else if op = 0x23 then alu And R rm
      else if op = 0x29 then alu Sub rm R else if op = 0x2B then alu Sub R rm
      else if op = 0x31 then alu Xor rm R else if op = 0x33 then alu Xor R rm
      else if op = 0x39 then alu Cmp rm R else if op = 0x3B then alu Cmp R rm
      else if op = 0x85 then alu Test rm R
      else if op = 0x38 then Some (Alu8 Cmp rm R, 0)
      else if op = 0x84 then Some (Alu8 Test rm R, 0)
      else if op = 0x89 then Some (if W then Mov rm R else Mov32 rm R, 0)
      else if op = 0x8B then Some (if W then Mov R rm else Mov32 R rm, 0)
      else if op = 0x88 then Some (Mov8 rm R, 0)
      else if op = 0x8A then Some (Mov8 R rm, 0)
      else if op = 0x8D then Some (Lea (ext (rx_r rx) reg) rm, 0)
      else if op = 0x6B then imm8_op bs (\<lambda>b. ImulImm (ext (rx_r rx) reg) rm (sx8 b))
      else if op = 0x83 then (case alu_group reg of None \<Rightarrow> None
        | Some a \<Rightarrow> imm8_op bs (\<lambda>b. if W then AluImm a rm (sx8 b) else AluImm32 a rm (scast b)))
      else if op = 0x81 then (case alu_group reg of None \<Rightarrow> None
        | Some a \<Rightarrow> imm32_op bs (\<lambda>d. if W then AluImm a rm (scast d) else AluImm32 a rm d))
      else if op = 0x80 then (case alu_group reg of None \<Rightarrow> None | Some a \<Rightarrow> imm8_op bs (\<lambda>b. AluImm8 a rm b))
      else if op = 0xC1 then (case shift_group reg of None \<Rightarrow> None | Some s \<Rightarrow> imm8_op bs (\<lambda>b. ShiftImm s rm (unat b)))
      else if op = 0xD3 then (case shift_group reg of None \<Rightarrow> None | Some s \<Rightarrow> Some (ShiftCl s rm, 0))
      else if op = 0xC6 then imm8_op bs (\<lambda>b. MovImm8 rm b)
      else if op = 0xC7 then imm32_op bs (\<lambda>d. if W then MovImm rm (scast d) else MovImm32 rm d)
      else if op = 0xF7 then (if reg = 3 then Some (Neg rm, 0) else if reg = 6 then Some (Div rm, 0)
        else if reg = 7 then Some (Idiv rm, 0) else None)
      else if op = 0xFF then (if reg = 0 then Some (if W then Inc rm else Inc32 rm, 0)
        else if reg = 1 then Some (Dec rm, 0) else if reg = 4 then Some (JmpReg rm, 0) else None)
      else None)"

definition is_rm_opcode :: "u8 \<Rightarrow> bool" where
  "is_rm_opcode op \<longleftrightarrow> op \<in> {0x01, 0x03, 0x09, 0x0B, 0x21, 0x23, 0x29, 0x2B, 0x31, 0x33, 0x38, 0x39, 0x3B, 0x6B,
     0x80, 0x81, 0x83, 0x84, 0x85, 0x88, 0x89, 0x8A, 0x8B, 0x8D, 0xC1, 0xC6, 0xC7, 0xD3, 0xF7, 0xFF}"

definition grow :: "nat \<Rightarrow> (x86 \<times> nat) option \<Rightarrow> (x86 \<times> nat) option" where
  "grow n r = (case r of None \<Rightarrow> None | Some (i, l) \<Rightarrow> Some (i, n + l))"

text \<open>After the prefixes: the instruction and its length.\<close>

definition decode_op :: "rex_bits \<Rightarrow> bytes \<Rightarrow> (x86 \<times> nat) option" where
  "decode_op rx bs = (case bs of [] \<Rightarrow> None | op # bs \<Rightarrow>
     (if is_rm_opcode op then grow 1 (with_rm rx bs (decode_rm rx op))
      else if op = 0x0F then grow 2 (decode_0f rx bs)
      else if 0x50 \<le> op \<and> op \<le> 0x57 then Some (Push (ext (rx_b rx) (op AND 7)), 1)
      else if 0x58 \<le> op \<and> op \<le> 0x5F then Some (Pop (ext (rx_b rx) (op AND 7)), 1)
      else if 0x70 \<le> op \<and> op \<le> 0x7F then grow 1 (imm8_op bs (\<lambda>b. Jcc (op AND 0x0F) (sint b)))
      else if 0xB8 \<le> op \<and> op \<le> 0xBF then grow 1
        (if rx_w rx then imm64_op bs (MovImm (Reg (ext (rx_b rx) (op AND 7))))
         else imm32_op bs (MovImm32 (Reg (ext (rx_b rx) (op AND 7)))))
      else if op = 0x90 then Some (Nop, 1)
      else if op = 0x99 \<and> rx_w rx then Some (Cqo, 1)
      else if op = 0xC3 then Some (Ret, 1)
      else if op = 0xC9 then Some (Leave, 1)
      else if op = 0xE9 then grow 1 (imm32_op bs (\<lambda>d. Jmp (sint d)))
      else if op = 0xEB then grow 1 (imm8_op bs (\<lambda>b. Jmp (sint b)))
      else None))"

definition no_rex :: rex_bits where
  "no_rex = \<lparr>rx_w = False, rx_r = False, rx_x = False, rx_b = False\<rparr>"

definition decode_rex :: "bytes \<Rightarrow> (x86 \<times> nat) option" where
  "decode_rex bs = (case bs of [] \<Rightarrow> None | b # bs1 \<Rightarrow>
     (if 0x40 \<le> b \<and> b \<le> 0x4F then grow 1 (decode_op (rex_of b) bs1) else decode_op no_rex bs))"

definition decode_x86 :: "bytes \<Rightarrow> (x86 \<times> nat) option" where
  "decode_x86 bs = (case bs of [] \<Rightarrow> None | b # bs1 \<Rightarrow>
     (if b = 0xF0 then grow 1 (decode_rex bs1)
      else if b = 0xF3 then (if take 1 bs1 = [0xAA] then Some (RepStosb, 2) else None)
      else decode_rex bs))"

section \<open>Execution\<close>

fun addr :: "opnd \<Rightarrow> mstate \<Rightarrow> u64" where
  "addr (Mem b None d) s = regs s b + d"
| "addr (Mem b (Some (i, sc)) d) s = regs s b + regs s i * of_nat sc + d"
| "addr (Reg r) s = 0"

fun rd64 :: "opnd \<Rightarrow> mstate \<Rightarrow> u64" where
  "rd64 (Reg r) s = regs s r"
| "rd64 (Mem b ix d) s = ld64 (mem s) (addr (Mem b ix d) s)"

fun rd32 :: "opnd \<Rightarrow> mstate \<Rightarrow> u32" where
  "rd32 (Reg r) s = ucast (regs s r)"
| "rd32 (Mem b ix d) s = ld32 (mem s) (addr (Mem b ix d) s)"

fun rd8 :: "opnd \<Rightarrow> mstate \<Rightarrow> u8" where
  "rd8 (Reg r) s = ucast (regs s r)"
| "rd8 (Mem b ix d) s = mem s (addr (Mem b ix d) s)"

fun wr64 :: "opnd \<Rightarrow> u64 \<Rightarrow> mstate \<Rightarrow> mstate" where
  "wr64 (Reg r) v s = s\<lparr>regs := (regs s)(r := v)\<rparr>"
| "wr64 (Mem b ix d) v s = s\<lparr>mem := st64 (mem s) (addr (Mem b ix d) s) v\<rparr>"

text \<open>A 32-bit write to a register clears its upper half.\<close>

fun wr32 :: "opnd \<Rightarrow> u32 \<Rightarrow> mstate \<Rightarrow> mstate" where
  "wr32 (Reg r) v s = s\<lparr>regs := (regs s)(r := ucast v)\<rparr>"
| "wr32 (Mem b ix d) v s = s\<lparr>mem := st32 (mem s) (addr (Mem b ix d) s) v\<rparr>"

fun wr8 :: "opnd \<Rightarrow> u8 \<Rightarrow> mstate \<Rightarrow> mstate" where
  "wr8 (Reg r) v s = s\<lparr>regs := (regs s)(r := (regs s r AND NOT 0xFF) OR ucast v)\<rparr>"
| "wr8 (Mem b ix d) v s = s\<lparr>mem := (mem s)(addr (Mem b ix d) s := v)\<rparr>"

definition flags_of :: "'a::len word \<Rightarrow> bool \<Rightarrow> bool \<Rightarrow> mstate \<Rightarrow> mstate" where
  "flags_of r c ov s = s\<lparr>zf := (r = 0), sf := (sint r < 0), cf := c, ofl := ov\<rparr>"

text \<open>The result of an ALU operation and the flags it sets.\<close>

fun alu_val :: "alu \<Rightarrow> 'a::len word \<Rightarrow> 'a word \<Rightarrow> 'a word" where
  "alu_val Add a b = a + b"
| "alu_val Or a b = a OR b"
| "alu_val And a b = a AND b"
| "alu_val Sub a b = a - b"
| "alu_val Xor a b = a XOR b"
| "alu_val Cmp a b = a - b"
| "alu_val Test a b = a AND b"

definition alu_carry :: "alu \<Rightarrow> 'a::len word \<Rightarrow> 'a word \<Rightarrow> bool" where
  "alu_carry f a b = (if f = Add then a + b < a else if f = Sub \<or> f = Cmp then a < b else False)"

definition alu_overflow :: "alu \<Rightarrow> 'a::len word \<Rightarrow> 'a word \<Rightarrow> bool" where
  "alu_overflow f a b = (if f = Add then sint (a + b) \<noteq> sint a + sint b
     else if f = Sub \<or> f = Cmp then sint (a - b) \<noteq> sint a - sint b else False)"

definition alu_flags :: "alu \<Rightarrow> 'a::len word \<Rightarrow> 'a word \<Rightarrow> mstate \<Rightarrow> mstate" where
  "alu_flags f a b = flags_of (alu_val f a b) (alu_carry f a b) (alu_overflow f a b)"

definition writes_back :: "alu \<Rightarrow> bool" where "writes_back f \<longleftrightarrow> f \<noteq> Cmp \<and> f \<noteq> Test"

definition cond :: "u8 \<Rightarrow> mstate \<Rightarrow> bool" where
  "cond cc s =
     (if cc = 0x0 then ofl s else if cc = 0x1 then \<not> ofl s
      else if cc = 0x2 then cf s else if cc = 0x3 then \<not> cf s
      else if cc = 0x4 then zf s else if cc = 0x5 then \<not> zf s
      else if cc = 0x6 then cf s \<or> zf s else if cc = 0x7 then \<not> (cf s \<or> zf s)
      else if cc = 0x8 then sf s else if cc = 0x9 then \<not> sf s
      else if cc = 0xC then sf s \<noteq> ofl s else if cc = 0xD then sf s = ofl s
      else if cc = 0xE then zf s \<or> sf s \<noteq> ofl s else \<not> (zf s \<or> sf s \<noteq> ofl s))"

text \<open>Quotient and remainder truncated towards zero.\<close>

definition quot :: "int \<Rightarrow> int \<Rightarrow> int" where "quot a b = sgn a * sgn b * (\<bar>a\<bar> div \<bar>b\<bar>)"
definition remn :: "int \<Rightarrow> int \<Rightarrow> int" where "remn a b = a - quot a b * b"

abbreviation (input) RSPr :: u8 where "RSPr \<equiv> 4"
abbreviation (input) RBPr :: u8 where "RBPr \<equiv> 5"

definition set_reg :: "u8 \<Rightarrow> u64 \<Rightarrow> mstate \<Rightarrow> mstate" where
  "set_reg r v s = s\<lparr>regs := (regs s)(r := v)\<rparr>"

definition push_val :: "u64 \<Rightarrow> mstate \<Rightarrow> mstate" where
  "push_val v s = s\<lparr>regs := (regs s)(RSPr := regs s RSPr - 8), mem := st64 (mem s) (regs s RSPr - 8) v\<rparr>"

definition shift_val :: "shift \<Rightarrow> nat \<Rightarrow> u64 \<Rightarrow> u64" where
  "shift_val f n a = (case f of Shl \<Rightarrow> push_bit n a | Shr \<Rightarrow> drop_bit n a | Sar \<Rightarrow> signed_drop_bit n a)"

definition do_shift :: "shift \<Rightarrow> nat \<Rightarrow> opnd \<Rightarrow> mstate \<Rightarrow> mstate" where
  "do_shift f n x s = (let n = n mod 64; v = shift_val f n (rd64 x s) in
     if n = 0 then s else (wr64 x v s)\<lparr>zf := (v = 0), sf := (sint v < 0)\<rparr>)"

fun stos :: "nat \<Rightarrow> u64 \<Rightarrow> u8 \<Rightarrow> (u64 \<Rightarrow> u8) \<Rightarrow> (u64 \<Rightarrow> u8)" where
  "stos 0 a b m = m"
| "stos (Suc n) a b m = stos n (a + 1) b (m(a := b))"

text \<open>The instructions that fall through.\<close>

fun exec :: "x86 \<Rightarrow> mstate \<Rightarrow> mstate option" where
  "exec (Mov x y) s = Some (wr64 x (rd64 y s) s)"
| "exec (Mov32 x y) s = Some (wr32 x (rd32 y s) s)"
| "exec (MovImm x v) s = Some (wr64 x v s)"
| "exec (MovImm32 x v) s = Some (wr32 x v s)"
| "exec (MovImm8 x v) s = Some (wr8 x v s)"
| "exec (Mov8 x y) s = Some (wr8 x (rd8 y s) s)"
| "exec (Movzx8 r y) s = Some (set_reg r (ucast (rd8 y s)) s)"
| "exec (Lea r x) s = Some (set_reg r (addr x s) s)"
| "exec (Alu f x y) s = (let a = rd64 x s; b = rd64 y s in
     Some (alu_flags f a b (if writes_back f then wr64 x (alu_val f a b) s else s)))"
| "exec (Alu32 f x y) s = (let a = rd32 x s; b = rd32 y s in
     Some (alu_flags f a b (if writes_back f then wr32 x (alu_val f a b) s else s)))"
| "exec (AluImm f x b) s = (let a = rd64 x s in
     Some (alu_flags f a b (if writes_back f then wr64 x (alu_val f a b) s else s)))"
| "exec (AluImm32 f x b) s = (let a = rd32 x s in
     Some (alu_flags f a b (if writes_back f then wr32 x (alu_val f a b) s else s)))"
| "exec (AluImm8 f x b) s = (let a = rd8 x s in
     Some (alu_flags f a b (if writes_back f then wr8 x (alu_val f a b) s else s)))"
| "exec (Alu8 f x y) s = (let a = rd8 x s; b = rd8 y s in
     Some (alu_flags f a b (if writes_back f then wr8 x (alu_val f a b) s else s)))"
| "exec (Imul r y) s = Some (set_reg r (regs s r * rd64 y s) s)"
| "exec (ImulImm r y v) s = Some (set_reg r (rd64 y s * v) s)"
| "exec (Neg x) s = (let a = rd64 x s in Some (flags_of (- a) (a \<noteq> 0) (a = 0x8000000000000000) (wr64 x (- a) s)))"
| "exec (Inc x) s = (let v = rd64 x s + 1 in Some ((wr64 x v s)\<lparr>zf := (v = 0), sf := (sint v < 0), ofl := (v = 0x8000000000000000)\<rparr>))"
| "exec (Dec x) s = (let v = rd64 x s - 1 in Some ((wr64 x v s)\<lparr>zf := (v = 0), sf := (sint v < 0), ofl := (v = 0x7FFFFFFFFFFFFFFF)\<rparr>))"
| "exec (Inc32 x) s = (let v = rd32 x s + 1 in Some ((wr32 x v s)\<lparr>zf := (v = 0), sf := (sint v < 0), ofl := (v = 0x80000000)\<rparr>))"
| "exec (Div x) s = (let n = uint (regs s 2) * 2 ^ 64 + uint (regs s 0); d = uint (rd64 x s) in
     if d = 0 \<or> n div d \<ge> 2 ^ 64 then None
     else Some (set_reg 2 (of_int (n mod d)) (set_reg 0 (of_int (n div d)) s)))"
| "exec (Idiv x) s = (let n = sint (regs s 2) * 2 ^ 64 + uint (regs s 0); d = sint (rd64 x s) in
     if d = 0 \<or> quot n d \<ge> 2 ^ 63 \<or> quot n d < - (2 ^ 63) then None
     else Some (set_reg 2 (of_int (remn n d)) (set_reg 0 (of_int (quot n d)) s)))"
| "exec Cqo s = Some (set_reg 2 (if sint (regs s 0) < 0 then 0xFFFFFFFFFFFFFFFF else 0) s)"
| "exec (ShiftCl f x) s = Some (do_shift f (unat (ucast (regs s 1) :: u8)) x s)"
| "exec (ShiftImm f x n) s = Some (do_shift f n x s)"
| "exec (Setcc cc x) s = Some (wr8 x (if cond cc s then 1 else 0) s)"
| "exec (Push r) s = Some (push_val (regs s r) s)"
| "exec (Pop r) s = Some (set_reg r (ld64 (mem s) (regs s RSPr)) (set_reg RSPr (regs s RSPr + 8) s))"
| "exec Leave s = (let t = set_reg RSPr (regs s RBPr) s in
     Some (set_reg RBPr (ld64 (mem t) (regs t RSPr)) (set_reg RSPr (regs t RSPr + 8) t)))"
| "exec RepStosb s = (let n = unat (regs s 1) in
     Some (s\<lparr>regs := (regs s)(1 := 0, 7 := regs s 7 + regs s 1), mem := stos n (regs s 7) (ucast (regs s 0)) (mem s)\<rparr>))"
| "exec Nop s = Some s"
| "exec _ s = None"

text \<open>
  Where control goes. \<open>Ret\<close> and \<open>JmpReg\<close> leave the code with the address they transfer to.
\<close>

datatype target = Next nat | Leave_to u64

definition jump_to :: "nat \<Rightarrow> int \<Rightarrow> target option" where
  "jump_to after d = (if int after + d < 0 then None else Some (Next (nat (int after + d))))"

text \<open>\<open>sys\<close> is what the kernel does at a system call; \<open>None\<close> when the process ends there.\<close>

fun step_at :: "(mstate \<Rightarrow> mstate option) \<Rightarrow> x86 \<Rightarrow> nat \<Rightarrow> mstate \<Rightarrow> (target \<times> mstate) option" where
  "step_at sys (Jcc cc d) after s =
     (if cond cc s then (case jump_to after d of None \<Rightarrow> None | Some t \<Rightarrow> Some (t, s)) else Some (Next after, s))"
| "step_at sys (Jmp d) after s = (case jump_to after d of None \<Rightarrow> None | Some t \<Rightarrow> Some (t, s))"
| "step_at sys (JmpReg x) after s = Some (Leave_to (rd64 x s), s)"
| "step_at sys Ret after s = Some (Leave_to (ld64 (mem s) (regs s RSPr)), set_reg RSPr (regs s RSPr + 8) s)"
| "step_at sys Syscall after s = (case sys s of None \<Rightarrow> None | Some s' \<Rightarrow> Some (Next after, s'))"
| "step_at sys i after s = (case exec i s of None \<Rightarrow> None | Some s' \<Rightarrow> Some (Next after, s'))"

definition step :: "(mstate \<Rightarrow> mstate option) \<Rightarrow> bytes \<Rightarrow> nat \<times> mstate \<Rightarrow> (target \<times> mstate) option" where
  "step sys c cfg = (case decode_x86 (drop (fst cfg) c) of None \<Rightarrow> None
     | Some (i, n) \<Rightarrow> step_at sys i (fst cfg + n) (snd cfg))"

text \<open>Steps inside the code, and a run that ends by leaving it.\<close>

inductive steps :: "(mstate \<Rightarrow> mstate option) \<Rightarrow> bytes \<Rightarrow> nat \<times> mstate \<Rightarrow> nat \<times> mstate \<Rightarrow> bool" for sys c where
  steps_refl: "steps sys c cfg cfg"
| steps_step: "step sys c cfg = Some (Next ip, s) \<Longrightarrow> steps sys c (ip, s) cfg' \<Longrightarrow> steps sys c cfg cfg'"

lemma steps_trans: "steps sys c a b \<Longrightarrow> steps sys c b d \<Longrightarrow> steps sys c a d"
  by (induction rule: steps.induct) (auto intro: steps_step)

definition leaves :: "(mstate \<Rightarrow> mstate option) \<Rightarrow> bytes \<Rightarrow> nat \<times> mstate \<Rightarrow> u64 \<times> mstate \<Rightarrow> bool" where
  "leaves sys c cfg out \<longleftrightarrow> (\<exists>cfg'. steps sys c cfg cfg' \<and> step sys c cfg' = Some (Leave_to (fst out), snd out))"

lemma leaves_step: "step sys c cfg = Some (Next ip, s) \<Longrightarrow> leaves sys c (ip, s) out \<Longrightarrow> leaves sys c cfg out"
  by (auto simp: leaves_def intro: steps_step)

lemma leaves_last: "step sys c cfg = Some (Leave_to a, s) \<Longrightarrow> leaves sys c cfg (a, s)"
  unfolding leaves_def using steps_refl by fastforce

end
