(* ===== verification/X86_Laws.thy ===== *)
theory X86_Laws
  imports X86
begin

text \<open>
  Laws of the processor model that the correctness proofs share: 64-bit memory accesses, signed
  comparison through the flags, and the evaluation of single steps on concrete code.
\<close>

section \<open>Memory\<close>

definition apart8 :: "u64 \<Rightarrow> u64 \<Rightarrow> bool" where
  "apart8 a b \<longleftrightarrow> 8 \<le> unat (a - b) \<and> 8 \<le> unat (b - a)"

lemma apart8_sym: "apart8 a b \<longleftrightarrow> apart8 b a"
  by (auto simp: apart8_def)

lemma apart8_byte:
  assumes "apart8 a b" and "i < 8" and "j < 8"
  shows "b + of_nat i \<noteq> a + of_nat j"
proof
  assume eq: "b + of_nat i = a + of_nat j"
  show False
  proof (cases "i \<le> j")
    case True
    then have "b - a = of_nat (j - i)" using eq by (simp add: of_nat_diff algebra_simps)
    then have "unat (b - a) = j - i" using assms(3) by simp
    then show False using assms by (auto simp: apart8_def)
  next
    case False
    then have "a - b = of_nat (i - j)" using eq by (simp add: of_nat_diff algebra_simps)
    then have "unat (a - b) = i - j" using assms(2) by simp
    then show False using assms by (auto simp: apart8_def)
  qed
qed

lemma st_bytes_other: "(\<And>j. j < length bs \<Longrightarrow> x \<noteq> a + of_nat j) \<Longrightarrow> st_bytes m a bs x = m x"
proof (induction bs arbitrary: m a)
  case (Cons b bs)
  have "st_bytes (m(a := b)) (a + 1) bs x = (m(a := b)) x"
  proof (rule Cons.IH)
    fix j assume "j < length bs"
    then show "x \<noteq> a + 1 + of_nat j" using Cons.prems [of "Suc j"] by (simp add: algebra_simps)
  qed
  moreover have "x \<noteq> a" using Cons.prems [of 0] by simp
  ultimately show ?case by simp
qed simp

lemma st_bytes_nth:
  assumes "i < length bs" and "length bs \<le> 2 ^ 63"
  shows "st_bytes m a bs (a + of_nat i) = bs ! i"
  using assms
proof (induction bs arbitrary: m a i)
  case (Cons b bs)
  show ?case
  proof (cases i)
    case 0
    have "a \<noteq> a + 1 + of_nat j" if "j < length bs" for j
    proof
      assume "a = a + 1 + of_nat j"
      then have "(of_nat (Suc j) :: u64) = 0" by (simp add: algebra_simps)
      then have "unat (of_nat (Suc j) :: u64) = 0" by (simp only: unsigned_0)
      then show False using that Cons.prems(2) unat_of_nat_u64 [of "Suc j"] by simp
    qed
    then show ?thesis using st_bytes_other [of bs a "a + 1" "m(a := b)"] by (simp add: 0)
  next
    case (Suc k)
    have e: "a + of_nat (Suc k) = a + 1 + of_nat k" by (simp add: add.assoc)
    have "st_bytes (m(a := b)) (a + 1) bs (a + 1 + of_nat k) = bs ! k"
      by (rule Cons.IH) (use Cons.prems Suc in simp_all)
    then show ?thesis by (simp only: Suc e st_bytes.simps nth_Cons_Suc)
  qed
qed simp

lemma list8: "[xs ! 0, xs ! 1, xs ! 2, xs ! 3, xs ! 4, xs ! 5, xs ! 6, xs ! 7] = xs" if "length xs = 8" for xs :: "'a list"
  using that by (intro nth_equalityI) (auto simp: less_Suc_eq nth_Cons' numeral_eq_Suc)

lemma ld64_st64 [simp]: "ld64 (st64 m a v) a = v"
proof -
  have "st_bytes m a (le64 v) (a + of_nat i) = le64 v ! i" if "i < 8" for i
    using that by (intro st_bytes_nth) simp_all
  from this [of 0] this [of 1] this [of 2] this [of 3] this [of 4] this [of 5] this [of 6] this [of 7]
  have "ld64 (st64 m a v) a = from_le [le64 v ! 0, le64 v ! 1, le64 v ! 2, le64 v ! 3, le64 v ! 4, le64 v ! 5, le64 v ! 6, le64 v ! 7]"
    by (simp add: ld64_def st64_def)
  then show ?thesis by (simp only: list8 [of "le64 v"] length_to_le from_le_le64)
qed

lemma ld64_cong: "(\<And>i. i < 8 \<Longrightarrow> m (a + of_nat i) = m' (a + of_nat i)) \<Longrightarrow> ld64 m a = ld64 m' a"
proof -
  assume h: "\<And>i. i < 8 \<Longrightarrow> m (a + of_nat i) = m' (a + of_nat i)"
  from h [of 0] h [of 1] h [of 2] h [of 3] h [of 4] h [of 5] h [of 6] h [of 7]
  show ?thesis by (simp add: ld64_def)
qed

lemma st64_other: "(\<And>j. j < 8 \<Longrightarrow> x \<noteq> a + of_nat j) \<Longrightarrow> st64 m a v x = m x"
  unfolding st64_def by (rule st_bytes_other) simp

lemma ld64_st64_apart: "apart8 a b \<Longrightarrow> ld64 (st64 m a v) b = ld64 m b"
  by (rule ld64_cong) (simp add: st64_other apart8_byte)

section \<open>Steps\<close>

lemmas decode_simps = decode_x86_def decode_rex_def decode_op_def decode_0f_def decode_rm_def rex_of_def no_rex_def
  ext_def is_rm_opcode_def grow_def with_rm_def modrm_of_def disp_of_def imm8_op_def imm32_op_def imm64_op_def
  alu_group_def shift_group_def Let_def

lemma step_decoded:
  "decode_x86 (drop ip c) = Some (i, n) \<Longrightarrow> step sys c (ip, s) = step_at sys i (ip + n) s"
  by (simp add: step_def)

text \<open>
  Every instruction of a snippet, with the offset it starts at: \<open>disassembles c ip is\<close> says that
  decoding from \<open>ip\<close> gives the instructions \<open>is\<close> in a row.
\<close>

fun disassemble :: "nat \<Rightarrow> nat \<Rightarrow> bytes \<Rightarrow> (nat \<times> x86 \<times> nat) list" where
  "disassemble 0 ip c = []"
| "disassemble (Suc fuel) ip c = (if drop ip c = [] then [] else
     (case decode_x86 (drop ip c) of None \<Rightarrow> [] | Some (i, n) \<Rightarrow> (ip, i, n) # disassemble fuel (ip + n) c))"

lemma disassemble_numeral [simp]:
  "disassemble (numeral k) ip c = (case decode_x86 (drop ip c) of None \<Rightarrow> []
     | Some (i, n) \<Rightarrow> (ip, i, n) # disassemble (pred_numeral k) (ip + n) c)"
  by (auto simp: numeral_eq_Suc decode_x86_def split: option.splits)

lemma disassemble_step:
  "(ip, i, n) \<in> set (disassemble fuel k c) \<Longrightarrow> step sys c (ip, s) = step_at sys i (ip + n) s"
proof (induction fuel arbitrary: k)
  case (Suc fuel)
  then show ?case by (auto simp: step_def split: if_splits option.splits)
qed simp

text \<open>A bounded run until control leaves the code.\<close>

fun run :: "(mstate \<Rightarrow> mstate option) \<Rightarrow> bytes \<Rightarrow> nat \<Rightarrow> nat \<times> mstate \<Rightarrow> (u64 \<times> mstate) option" where
  "run sys c 0 cfg = None"
| "run sys c (Suc n) cfg = (case step sys c cfg of None \<Rightarrow> None
     | Some (t, s) \<Rightarrow> (case t of Next ip \<Rightarrow> run sys c n (ip, s) | Leave_to a \<Rightarrow> Some (a, s)))"

lemma run_leaves: "run sys c n cfg = Some out \<Longrightarrow> leaves sys c cfg out"
proof (induction n arbitrary: cfg)
  case (Suc n)
  then obtain t s where ts: "step sys c cfg = Some (t, s)" by (auto split: option.splits)
  show ?case
  proof (cases t)
    case (Next ip)
    then show ?thesis using Suc ts by (auto intro: leaves_step [OF ts [unfolded Next]])
  next
    case (Leave_to a)
    then show ?thesis using Suc.prems ts by (auto intro: leaves_last)
  qed
qed simp

lemma run_numeral [simp]:
  "run sys c (numeral k) cfg = (case step sys c cfg of None \<Rightarrow> None
     | Some (t, s) \<Rightarrow> (case t of Next ip \<Rightarrow> run sys c (pred_numeral k) (ip, s) | Leave_to a \<Rightarrow> Some (a, s)))"
  by (simp add: numeral_eq_Suc)

text \<open>A bounded number of steps inside the code.\<close>

fun walk :: "(mstate \<Rightarrow> mstate option) \<Rightarrow> bytes \<Rightarrow> nat \<Rightarrow> nat \<times> mstate \<Rightarrow> (nat \<times> mstate) option" where
  "walk sys c 0 cfg = Some cfg"
| "walk sys c (Suc n) cfg = (case step sys c cfg of None \<Rightarrow> None
     | Some (t, s) \<Rightarrow> (case t of Next ip \<Rightarrow> walk sys c n (ip, s) | Leave_to a \<Rightarrow> None))"

lemma walk_steps: "walk sys c n cfg = Some cfg' \<Longrightarrow> steps sys c cfg cfg'"
proof (induction n arbitrary: cfg)
  case (Suc n)
  then obtain ip s where "step sys c cfg = Some (Next ip, s)" "walk sys c n (ip, s) = Some cfg'"
    by (auto split: option.splits target.splits)
  then show ?case using Suc.IH by (auto intro: steps_step)
qed (simp add: steps_refl)

lemma walk_numeral [simp]:
  "walk sys c (numeral k) cfg = (case step sys c cfg of None \<Rightarrow> None
     | Some (t, s) \<Rightarrow> (case t of Next ip \<Rightarrow> walk sys c (pred_numeral k) (ip, s) | Leave_to a \<Rightarrow> None))"
  by (simp add: numeral_eq_Suc)

lemma steps_leaves: "steps sys c cfg cfg' \<Longrightarrow> leaves sys c cfg' out \<Longrightarrow> leaves sys c cfg out"
  by (auto simp: leaves_def intro: steps_trans)

lemmas exec_simps = Let_def alu_flags_def flags_of_def writes_back_def cond_def jump_to_def set_reg_def push_val_def

text \<open>A state with a stack pointer and a memory, all else zero, for concrete runs.\<close>

definition machine :: "u64 \<Rightarrow> (u64 \<Rightarrow> u8) \<Rightarrow> mstate" where
  "machine sp m = \<lparr>regs = (\<lambda>r. if r = 4 then sp else 0), zf = False, sf = False, cf = False, ofl = False, mem = m\<rparr>"

lemma machine_simps [simp]: "mem (machine sp m) = m" "regs (machine sp m) 4 = sp" "r \<noteq> 4 \<Longrightarrow> regs (machine sp m) r = 0"
  by (simp_all add: machine_def)

lemma ld64_zero [simp]: "ld64 (\<lambda>_. 0) a = 0"
  by (simp add: ld64_def)

text \<open>The 8-byte immediate of an \<open>Abs64\<close> relocation filled in.\<close>

definition at_base :: "bytes \<Rightarrow> nat \<Rightarrow> u64 \<Rightarrow> bytes" where
  "at_base code off base = splice code off (le64 base)"

section \<open>Code in context\<close>

text \<open>
  Decoding looks no further than the instruction: more code after it changes nothing.
\<close>

definition extends :: "(bytes \<Rightarrow> 'a option) \<Rightarrow> bool" where
  "extends f \<longleftrightarrow> (\<forall>bs r x. f bs = Some x \<longrightarrow> f (bs @ r) = Some x)"

lemma extends_const: "extends (\<lambda>bs. y)"
  by (simp add: extends_def)

lemma extends_if: "extends f \<Longrightarrow> extends g \<Longrightarrow> extends (\<lambda>bs. if c then f bs else g bs)"
  by (simp add: extends_def)

lemma extends_option: "extends f \<Longrightarrow> (\<And>y. extends (g y)) \<Longrightarrow> extends (\<lambda>bs. case z of None \<Rightarrow> f bs | Some y \<Rightarrow> g y bs)"
  by (cases z) simp_all

lemma extends_bind:
  assumes "extends f" and "\<And>y. extends (\<lambda>bs. g y)"
  shows "extends (\<lambda>bs. case f bs of None \<Rightarrow> None | Some y \<Rightarrow> g y)"
  using assms by (simp add: extends_def split: option.splits)

lemma extends_list:
  assumes "\<And>b. extends (g b)"
  shows "extends (\<lambda>bs. case bs of [] \<Rightarrow> None | b # t \<Rightarrow> g b t)"
  unfolding extends_def
proof (intro allI impI)
  fix bs r x assume "(case bs of [] \<Rightarrow> None | b # t \<Rightarrow> g b t) = Some x"
  then show "(case bs @ r of [] \<Rightarrow> None | b # t \<Rightarrow> g b t) = Some x"
    using assms by (cases bs) (simp_all add: extends_def)
qed

lemma extends_list2:
  assumes "\<And>b. extends (g b)" and "extends f"
  shows "extends (\<lambda>bs. case bs of [] \<Rightarrow> None | b # t \<Rightarrow> if c b then g b t else f bs)"
  unfolding extends_def
proof (intro allI impI)
  fix bs r x assume h: "(case bs of [] \<Rightarrow> None | b # t \<Rightarrow> if c b then g b t else f bs) = Some x"
  then obtain b t where bs: "bs = b # t" by (cases bs) auto
  show "(case bs @ r of [] \<Rightarrow> None | b # t \<Rightarrow> if c b then g b t else f (bs @ r)) = Some x"
    using h assms(1) assms(2)[unfolded extends_def, rule_format, of bs x r] by (auto simp add: extends_def bs)
qed

lemma extends_disp:
  assumes "\<And>p. extends (\<lambda>bs. g p)"
  shows "extends (\<lambda>bs. case disp_of md bs of None \<Rightarrow> None | Some p \<Rightarrow> g p)"
proof (rule extends_bind)
  show "extends (disp_of md)"
    by (auto simp: extends_def disp_of_def sx32_def split: if_splits list.splits)
qed (rule assms)

lemma extends_modrm: "extends (modrm_of rx)"
  unfolding modrm_of_def [abs_def] Let_def
  by (intro extends_list extends_if extends_const extends_disp)

lemma disp_of_length: "disp_of md bs = Some (d, n) \<Longrightarrow> n \<le> length bs"
  by (auto simp: disp_of_def split: if_splits list.splits)

lemma modrm_of_length:
  assumes "modrm_of rx bs = Some (reg, rm, n)"
  shows "n \<le> length bs"
proof (cases bs)
  case Nil
  then show ?thesis using assms by (simp add: modrm_of_def)
next
  case (Cons m bs1)
  note h = assms [unfolded modrm_of_def Let_def Cons list.case]
  show ?thesis
  proof (cases "drop_bit 6 m = 3")
    case True
    then show ?thesis using h by (simp add: Cons)
  next
    case md: False
    show ?thesis
    proof (cases "m AND 7 = 4")
      case True
      then obtain sib bs2 where "bs1 = sib # bs2" using h md by (cases bs1) simp_all
      then show ?thesis using h md True
        by (auto simp: Cons split: if_splits option.splits dest!: disp_of_length)
    next
      case False
      then show ?thesis using h md
        by (auto simp: Cons split: if_splits option.splits dest!: disp_of_length)
    qed
  qed
qed

lemma extends_with_rm:
  assumes "\<And>reg rm. extends (k reg rm)"
  shows "extends (\<lambda>bs. with_rm rx bs k)"
  unfolding extends_def
proof (intro allI impI)
  fix bs r x assume h: "with_rm rx bs k = Some x"
  then obtain reg rm n where m: "modrm_of rx bs = Some (reg, rm, n)"
    by (auto simp: with_rm_def split: option.splits)
  moreover have "modrm_of rx (bs @ r) = Some (reg, rm, n)"
    using m extends_modrm by (simp add: extends_def)
  ultimately show "with_rm rx (bs @ r) k = Some x"
    using h modrm_of_length [OF m] assms [of reg rm]
    by (auto simp: with_rm_def extends_def split: option.splits)
qed

lemma extends_imm: "extends (\<lambda>bs. imm8_op bs f)" "extends (\<lambda>bs. imm32_op bs g)" "extends (\<lambda>bs. imm64_op bs h)"
  by (auto simp: extends_def imm8_op_def imm32_op_def imm64_op_def split: list.splits if_splits)

lemma extends_grow: "extends f \<Longrightarrow> extends (\<lambda>bs. grow n (f bs))"
  by (simp add: extends_def grow_def split: option.splits)

lemma extends_decode_rm: "extends (decode_rm rx op reg rm)"
  unfolding decode_rm_def [abs_def] Let_def
  by (intro extends_if extends_const extends_option extends_imm)

lemma extends_decode_0f: "extends (decode_0f rx)"
  unfolding decode_0f_def [abs_def] Let_def
  by (intro extends_list extends_if extends_const extends_with_rm extends_bind extends_imm)

lemma extends_decode_op: "extends (decode_op rx)"
  unfolding decode_op_def [abs_def]
  by (intro extends_list extends_if extends_const extends_grow extends_with_rm extends_imm
        extends_decode_0f extends_decode_rm)

lemma extends_decode_rex: "extends decode_rex"
  unfolding decode_rex_def [abs_def]
  by (intro extends_list2 extends_grow extends_decode_op)

lemma extends_rep: "extends (\<lambda>bs. if take 1 bs = [0xAA :: u8] then Some y else None)"
  by (auto simp: extends_def split: if_splits)

lemma extends_decode: "extends decode_x86"
  unfolding extends_def
proof (intro allI impI)
  fix bs r x assume h: "decode_x86 bs = Some x"
  then obtain b t where bs: "bs = b # t" by (cases bs) (simp_all add: decode_x86_def)
  show "decode_x86 (bs @ r) = Some x"
    using h extends_grow [OF extends_decode_rex, of 1, unfolded extends_def, rule_format, of t x r]
      extends_decode_rex [unfolded extends_def, rule_format, of bs x r]
      extends_rep [of "(RepStosb, 2)", unfolded extends_def, rule_format, of t x r]
    by (simp add: decode_x86_def bs split: if_splits)
qed

lemma decode_append: "decode_x86 bs = Some x \<Longrightarrow> decode_x86 (bs @ r) = Some x"
  using extends_decode by (cases x) (simp add: extends_def)

text \<open>
  A snippet with a relocated immediate: the instructions before and after the immediate are those of
  the template, and the one that holds it loads the address.
\<close>

lemma disassemble_range: "(ip, i, n) \<in> set (disassemble fuel k c) \<Longrightarrow> k \<le> ip \<and> decode_x86 (drop ip c) = Some (i, n)"
proof (induction fuel arbitrary: k)
  case (Suc fuel)
  then show ?case by (fastforce split: if_splits option.splits)
qed simp

lemma drop_at_base: "off + 8 \<le> length c \<Longrightarrow> off + 8 \<le> ip \<Longrightarrow> drop ip (at_base c off base) = drop ip c"
  by (simp add: at_base_def splice_def drop_drop)

lemma step_after_base:
  assumes "(ip, i, n) \<in> set (disassemble fuel (off + 8) c)" and "off + 8 \<le> length c"
  shows "step sys (at_base c off base) (ip, s) = step_at sys i (ip + n) s"
  using disassemble_range [OF assms(1)] assms(2) by (simp add: step_def drop_at_base)

lemma step_before_base:
  assumes "(ip, i, n) \<in> set (disassemble fuel k (take off c))" and "off + 8 \<le> length c"
  shows "step sys (at_base c off base) (ip, s) = step_at sys i (ip + n) s"
proof -
  have d: "decode_x86 (drop ip (take off c)) = Some (i, n)" using disassemble_range [OF assms(1)] by simp
  then have "ip < off" by (cases "ip < off") (simp_all add: decode_x86_def)
  then have "drop ip (at_base c off base) = drop ip (take off c) @ (le64 base @ drop (off + 8) c)"
    using assms(2) by (simp add: at_base_def splice_def)
  then show ?thesis by (simp only: step_def fst_conv snd_conv decode_append [OF d] option.case prod.case)
qed

lemma decode_mov_imm64:
  "decode_x86 (0x49 # 0xB8 # le64 base @ t) = Some (MovImm (Reg 8) base, 10)"
  "decode_x86 (0x49 # 0xBA # le64 base @ t) = Some (MovImm (Reg 10) base, 10)"
  by (simp_all add: decode_simps)

lemma step_base_imm:
  assumes "off = k + 2" and "k + 10 \<le> length c" and "take 2 (drop k c) = [0x49, op]"
    and "(op, r) \<in> {(0xB8, 8), (0xBA, 10)}"
  shows "step sys (at_base c off base) (k, s) = Some (Next (k + 10), set_reg r base s)"
proof -
  have "drop k (at_base c off base) = take 2 (drop k c) @ le64 base @ drop (k + 10) c"
    unfolding assms(1) using assms(2) by (simp add: at_base_def splice_def drop_take add.commute)
  then show ?thesis using assms(3,4) by (auto simp: step_def decode_mov_imm64 set_reg_def)
qed

text \<open>The step equations of a listing, one conjunct per instruction.\<close>

definition stepping :: "(mstate \<Rightarrow> mstate option) \<Rightarrow> bytes \<Rightarrow> mstate \<Rightarrow> nat \<times> x86 \<times> nat \<Rightarrow> bool" where
  "stepping sys c s = (\<lambda>(ip, i, n). step sys c (ip, s) = step_at sys i (ip + n) s)"

lemma listing: "disassemble fuel k c = ls \<Longrightarrow> list_all (stepping sys c s) ls"
  unfolding list_all_iff stepping_def using disassemble_step by fastforce

lemma listing_after:
  "disassemble fuel (off + 8) c = ls \<Longrightarrow> off + 8 \<le> length c \<Longrightarrow> list_all (stepping sys (at_base c off base) s) ls"
  unfolding list_all_iff stepping_def using step_after_base by fastforce

lemma listing_before:
  "disassemble fuel k (take off c) = ls \<Longrightarrow> off + 8 \<le> length c \<Longrightarrow> list_all (stepping sys (at_base c off base) s) ls"
  unfolding list_all_iff stepping_def using step_before_base by fastforce

lemmas step_list = list.pred_inject stepping_def prod.case

section \<open>Signed comparison through the flags\<close>

lemma signed_less_flags:
  fixes a b :: "'a::len word"
  shows "((sint (a - b) < 0) \<noteq> (sint (a - b) \<noteq> sint a - sint b)) \<longleftrightarrow> sint a < sint b"
proof -
  define m where "m = LENGTH('a) - 1"
  define N :: int where "N = 2 ^ m"
  have r: "- N \<le> sint a" "sint a < N" "- N \<le> sint b" "sint b < N"
    using sint_greater_eq [of a] sint_less [of a] sint_greater_eq [of b] sint_less [of b] by (simp_all add: N_def m_def)
  have e: "sint (a - b) = (sint a - sint b + N) mod (2 * N) - N"
  proof -
    have "LENGTH('a) = Suc m" by (simp add: m_def)
    then show ?thesis by (simp add: sint_word_ariths signed_take_bit_eq_take_bit_shift take_bit_eq_mod N_def)
  qed
  have N: "0 < N" by (simp add: N_def)
  consider "sint a - sint b + N < 0" | "0 \<le> sint a - sint b + N" "sint a - sint b + N < 2 * N" | "2 * N \<le> sint a - sint b + N"
    by linarith
  then show ?thesis
  proof cases
    case 1
    have "(sint a - sint b + N) mod (2 * N) = (sint a - sint b + N + 2 * N) mod (2 * N)" by (metis mod_add_self2)
    also have "\<dots> = sint a - sint b + N + 2 * N" using 1 r N by (intro mod_pos_pos_trivial) auto
    finally show ?thesis using 1 r N by (simp add: e)
  next
    case 2
    then have "(sint a - sint b + N) mod (2 * N) = sint a - sint b + N" by simp
    then show ?thesis by (simp add: e)
  next
    case 3
    have "(sint a - sint b + N) mod (2 * N) = (sint a - sint b + N - 2 * N) mod (2 * N)" by (metis mod_add_self2 diff_add_cancel)
    also have "\<dots> = sint a - sint b + N - 2 * N" using 3 r N by (intro mod_pos_pos_trivial) auto
    finally show ?thesis using 3 r N by (simp add: e)
  qed
qed

lemma signed_ge_flags:
  fixes a b :: "'a::len word"
  shows "((sint (a - b) < 0) = (sint (a - b) \<noteq> sint a - sint b)) \<longleftrightarrow> sint b \<le> sint a"
  using signed_less_flags [of a b] by auto

end
