(* ===== verification/Runtime_Code.thy ===== *)
theory Runtime_Code
  imports X86_Laws Runtime
begin

text \<open>
  What the byte constants of \<open>src/x86/runtime.rs\<close> decode to: for every snippet its disassembly, from the
  bytes by evaluation, and the step equations that symbolic execution rewrites with. The snippets that hold a
  relocated address are taken with the address filled in.
\<close>

lemma RETAIN_code: "disassemble 5 0 RETAIN =
     [(0, Alu Test (Reg 0) (Reg 0), 3), (3, Jcc 4 5, 2), (5, Inc (Mem 0 None 8), 5), (10, Ret, 1)]"
  by (simp add: RETAIN_def decode_simps sx8_def sx32_def)

lemma RELEASE_pre_code: "disassemble 7 0 (take RELEASE_HEAPBASE_OFFSET RELEASE) =
     [(0, Alu Test (Reg 0) (Reg 0), 3), (3, Jcc 4 39, 2), (5, Dec (Mem 0 None 8), 5), (10, Mov (Reg 1) (Mem 0
      None 8), 4), (14, ShiftImm Shl (Reg 1) 2, 4), (18, Jcc 5 24, 2)]"
  by (simp add: RELEASE_def RELEASE_HEAPBASE_OFFSET_def decode_simps sx8_def sx32_def)

lemma RELEASE_code: "disassemble 7 30 RELEASE =
     [(30, Mov (Reg 1) (Mem 10 None 0), 3), (33, Mov (Mem 0 None 0) (Reg 1), 3), (36, Mov (Mem 0 None 8) (Reg
      6), 4), (40, Mov (Mem 10 None 0) (Reg 0), 3), (43, Ret, 1), (44, Ret, 1)]"
  by (simp add: RELEASE_def decode_simps sx8_def sx32_def)

lemma ALLOC_pre_code: "disassemble 3 0 (take ALLOC_REVISED_HEAPBASE_OFFSET ALLOC_REVISED) =
     [(0, Push 5, 1), (1, Mov (Reg 5) (Reg 4), 3)]"
  by (simp add: ALLOC_REVISED_def ALLOC_REVISED_HEAPBASE_OFFSET_def decode_simps sx8_def sx32_def)

lemma ALLOC_REVISED_code: "disassemble 32 14 ALLOC_REVISED =
     [(14, AluImm Cmp (Mem 10 None 8) 0, 5), (19, Jcc 5 11, 2), (21, Lea 0 (Mem 10 None 4096), 7), (28, Mov
      (Mem 10 None 8) (Reg 0), 4), (32, Mov (Reg 1) (Mem 10 None 0), 3), (35, Alu Test (Reg 1) (Reg 1), 3),
      (38, Jcc 4 43, 2), (40, Mov (Reg 2) (Mem 1 None 8), 4), (44, Alu Cmp (Reg 2) (Reg 6), 3), (47, Jcc 2 34,
      2), (49, Mov (Reg 0) (Mem 1 None 0), 3), (52, Mov (Mem 10 None 0) (Reg 0), 3), (55, MovImm (Mem 1 None
      8) 1, 8), (63, Mov (Reg 0) (Reg 1), 3), (66, Mov (Reg 11) (Reg 0), 3), (69, Mov (Reg 7) (Reg 0), 3),
      (72, Alu32 Xor (Reg 0) (Reg 0), 2), (74, Mov32 (Reg 1) (Reg 6), 2), (76, RepStosb, 2), (78, Mov (Reg 0)
      (Reg 11), 3), (81, Jmp 32, 2), (83, Mov (Reg 0) (Mem 10 None 8), 4), (87, Mov (Reg 2) (Reg 0), 3), (90,
      Alu Add (Reg 0) (Reg 6), 3), (93, AluImm Add (Reg 0) 15, 4), (97, AluImm And (Reg 0)
      18446744073709551600, 4), (101, Mov (Mem 10 None 8) (Reg 0), 4), (105, MovImm32 (Mem 2 None 8) 1, 7),
      (112, Mov (Reg 0) (Reg 2), 3), (115, Pop 5, 1), (116, Ret, 1)]"
  by (simp add: ALLOC_REVISED_def decode_simps sx8_def sx32_def)

lemma EXC_ENTER_code: "disassemble 18 10 EXC_ENTER =
     [(10, Mov (Reg 1) (Mem 8 None 8), 4), (14, ImulImm 0 (Reg 1) 64, 4), (18, Lea 2 (Mem 8 (Some (0, 1)) 16),
      5), (23, Mov (Reg 10) (Mem 4 None 0), 4), (27, Mov (Mem 2 None 56) (Reg 10), 4), (31, Lea 0 (Mem 4 None
      8), 5), (36, Mov (Mem 2 None 48) (Reg 0), 4), (40, Mov (Mem 2 None 0) (Reg 3), 3), (43, Mov (Mem 2 None
      8) (Reg 12), 4), (47, Mov (Mem 2 None 16) (Reg 13), 4), (51, Mov (Mem 2 None 24) (Reg 14), 4), (55, Mov
      (Mem 2 None 32) (Reg 15), 4), (59, Mov (Mem 2 None 40) (Reg 5), 4), (63, Inc (Reg 1), 3), (66, Mov (Mem
      8 None 8) (Reg 1), 4), (70, Alu32 Xor (Reg 0) (Reg 0), 2), (72, Ret, 1)]"
  by (simp add: EXC_ENTER_def decode_simps sx8_def sx32_def)

lemma EXC_POP_code: "disassemble 5 10 EXC_POP =
     [(10, Mov (Reg 1) (Mem 8 None 8), 4), (14, Dec (Reg 1), 3), (17, Mov (Mem 8 None 8) (Reg 1), 4), (21,
      Ret, 1)]"
  by (simp add: EXC_POP_def decode_simps sx8_def sx32_def)

lemma EXC_LOAD_code: "disassemble 3 10 EXC_LOAD =
     [(10, Mov (Reg 0) (Mem 8 None 0), 3), (13, Ret, 1)]"
  by (simp add: EXC_LOAD_def decode_simps sx8_def sx32_def)

lemma EXC_CLEAR_code: "disassemble 3 10 EXC_CLEAR =
     [(10, MovImm (Mem 8 None 0) 0, 7), (17, Ret, 1)]"
  by (simp add: EXC_CLEAR_def decode_simps sx8_def sx32_def)

lemma EXC_THROW_code: "disassemble 24 10 EXC_THROW =
     [(10, Mov (Mem 8 None 0) (Reg 7), 3), (13, Mov (Reg 1) (Mem 8 None 8), 4), (17, Alu Test (Reg 1) (Reg 1),
      3), (20, Jcc 4 63, 2), (22, AluImm Cmp (Reg 1) 64, 4), (26, Jcc 7 57, 2), (28, Dec (Reg 1), 3), (31, Mov
      (Mem 8 None 8) (Reg 1), 4), (35, ImulImm 0 (Reg 1) 64, 4), (39, Lea 2 (Mem 8 (Some (0, 1)) 16), 5), (44,
      Mov (Reg 10) (Mem 2 None 56), 4), (48, MovImm (Reg 0) 1, 7), (55, Mov (Reg 3) (Mem 2 None 0), 3), (58,
      Mov (Reg 12) (Mem 2 None 8), 4), (62, Mov (Reg 13) (Mem 2 None 16), 4), (66, Mov (Reg 14) (Mem 2 None
      24), 4), (70, Mov (Reg 15) (Mem 2 None 32), 4), (74, Mov (Reg 5) (Mem 2 None 40), 4), (78, Mov (Reg 4)
      (Mem 2 None 48), 4), (82, JmpReg (Reg 10), 3), (85, MovImm32 (Reg 7) 1, 5), (90, MovImm32 (Reg 0) 60,
      5), (95, Syscall, 2)]"
  by (simp add: EXC_THROW_def decode_simps sx8_def sx32_def)

lemma EXC_RETHROW_code: "disassemble 21 10 EXC_RETHROW =
     [(10, Mov (Reg 1) (Mem 8 None 8), 4), (14, Alu Test (Reg 1) (Reg 1), 3), (17, Jcc 4 57, 2), (19, Dec (Reg
      1), 3), (22, Mov (Mem 8 None 8) (Reg 1), 4), (26, ImulImm 0 (Reg 1) 64, 4), (30, Lea 2 (Mem 8 (Some (0,
      1)) 16), 5), (35, Mov (Reg 10) (Mem 2 None 56), 4), (39, MovImm (Reg 0) 1, 7), (46, Mov (Reg 3) (Mem 2
      None 0), 3), (49, Mov (Reg 12) (Mem 2 None 8), 4), (53, Mov (Reg 13) (Mem 2 None 16), 4), (57, Mov (Reg
      14) (Mem 2 None 24), 4), (61, Mov (Reg 15) (Mem 2 None 32), 4), (65, Mov (Reg 5) (Mem 2 None 40), 4),
      (69, Mov (Reg 4) (Mem 2 None 48), 4), (73, JmpReg (Reg 10), 3), (76, MovImm32 (Reg 7) 1, 5), (81,
      MovImm32 (Reg 0) 60, 5), (86, Syscall, 2)]"
  by (simp add: EXC_RETHROW_def decode_simps sx8_def sx32_def)

lemma SCAN_INT_code: "disassemble 40 0 SCAN_INT =
     [(0, Push 3, 1), (1, AluImm Sub (Reg 4) 88, 4), (5, Alu32 Xor (Reg 0) (Reg 0), 2), (7, Alu32 Xor (Reg 7)
      (Reg 7), 2), (9, Mov (Reg 6) (Reg 4), 3), (12, MovImm32 (Reg 2) 80, 5), (17, Syscall, 2), (19, Mov (Reg
      1) (Reg 0), 3), (22, Alu Test (Reg 1) (Reg 1), 3), (25, Jcc 14 78, 2), (27, Alu32 Xor (Reg 9) (Reg 9),
      3), (30, Alu32 Xor (Reg 10) (Reg 10), 3), (33, MovImm32 (Reg 11) 1, 6), (39, AluImm8 Cmp (Mem 4 (Some
      (10, 1)) 0) 45, 5), (44, Jcc 5 10, 2), (46, MovImm (Reg 11) 18446744073709551615, 7), (53, Inc (Reg 10),
      3), (56, Alu32 Cmp (Reg 10) (Reg 1), 3), (59, Jcc 13 27, 2), (61, Movzx8 0 (Mem 4 (Some (10, 1)) 0), 5),
      (66, AluImm32 Sub (Reg 0) 48, 3), (69, Jcc 12 17, 2), (71, AluImm32 Cmp (Reg 0) 9, 3), (74, Jcc 15 12,
      2), (76, ImulImm 9 (Reg 9) 10, 4), (80, Alu Add (Reg 9) (Reg 0), 3), (83, Inc32 (Reg 10), 3), (86, Jmp
      (- 49), 2), (88, Mov (Reg 0) (Reg 9), 3), (91, Alu Test (Reg 11) (Reg 11), 3), (94, Jcc 9 3, 2), (96,
      Neg (Reg 0), 3), (99, AluImm Add (Reg 4) 88, 4), (103, Pop 3, 1), (104, Ret, 1), (105, Alu32 Xor (Reg 0)
      (Reg 0), 2), (107, AluImm Add (Reg 4) 88, 4), (111, Pop 3, 1), (112, Ret, 1)]"
  by (simp add: SCAN_INT_def decode_simps sx8_def sx32_def)

lemma ITOA_code: "disassemble 31 0 ITOA =
     [(0, AluImm Sub (Reg 4) 32, 4), (4, Mov (Reg 9) (Reg 4), 3), (7, Mov (Reg 8) (Reg 4), 3), (10, Alu32 Xor
      (Reg 1) (Reg 1), 2), (12, Alu Test (Reg 0) (Reg 0), 3), (15, Jcc 9 10, 2), (17, MovImm8 (Mem 9 None 0)
      45, 4), (21, Inc (Reg 9), 3), (24, Neg (Reg 0), 3), (27, Alu32 Xor (Reg 2) (Reg 2), 2), (29, MovImm32
      (Reg 11) 10, 6), (35, Div (Reg 11), 3), (38, AluImm8 Add (Reg 2) 48, 3), (41, Push 2, 1), (42, Inc (Reg
      1), 3), (45, Alu Test (Reg 0) (Reg 0), 3), (48, Jcc 5 (- 23), 2), (50, Pop 2, 1), (51, Mov8 (Mem 9 None
      0) (Reg 2), 3), (54, Inc (Reg 9), 3), (57, Dec (Reg 1), 3), (60, Jcc 5 (- 12), 2), (62, Mov (Reg 6) (Reg
      8), 3), (65, Mov (Reg 2) (Reg 9), 3), (68, Alu Sub (Reg 2) (Reg 6), 3), (71, MovImm32 (Reg 7) 1, 5),
      (76, MovImm32 (Reg 0) 1, 5), (81, Syscall, 2), (83, AluImm Add (Reg 4) 32, 4), (87, Ret, 1)]"
  by (simp add: ITOA_def decode_simps sx8_def sx32_def)

lemmas RETAIN_steps = listing [OF RETAIN_code, unfolded step_list]
lemmas SCAN_INT_steps = listing [OF SCAN_INT_code, unfolded step_list One_nat_def]
lemmas ITOA_steps = listing [OF ITOA_code, unfolded step_list]

lemma RELEASE_base: "step sys (at_base RELEASE RELEASE_HEAPBASE_OFFSET base) (20, s) = Some (Next 30, set_reg 10 base s)"
  using step_base_imm [of RELEASE_HEAPBASE_OFFSET 20 RELEASE "0xBA" 10 sys base s] by (simp add: RELEASE_HEAPBASE_OFFSET_def RELEASE_def)

lemma ALLOC_REVISED_base: "step sys (at_base ALLOC_REVISED ALLOC_REVISED_HEAPBASE_OFFSET base) (4, s) = Some (Next 14, set_reg 10 base s)"
  using step_base_imm [of ALLOC_REVISED_HEAPBASE_OFFSET 4 ALLOC_REVISED "0xBA" 10 sys base s] by (simp add: ALLOC_REVISED_HEAPBASE_OFFSET_def ALLOC_REVISED_def)

lemma EXC_ENTER_base: "step sys (at_base EXC_ENTER EXC_BASE_OFFSET base) (0, s) = Some (Next 10, set_reg 8 base s)"
  using step_base_imm [of EXC_BASE_OFFSET 0 EXC_ENTER "0xB8" 8 sys base s] by (simp add: EXC_BASE_OFFSET_def EXC_ENTER_def)

lemma EXC_POP_base: "step sys (at_base EXC_POP EXC_BASE_OFFSET base) (0, s) = Some (Next 10, set_reg 8 base s)"
  using step_base_imm [of EXC_BASE_OFFSET 0 EXC_POP "0xB8" 8 sys base s] by (simp add: EXC_BASE_OFFSET_def EXC_POP_def)

lemma EXC_LOAD_base: "step sys (at_base EXC_LOAD EXC_BASE_OFFSET base) (0, s) = Some (Next 10, set_reg 8 base s)"
  using step_base_imm [of EXC_BASE_OFFSET 0 EXC_LOAD "0xB8" 8 sys base s] by (simp add: EXC_BASE_OFFSET_def EXC_LOAD_def)

lemma EXC_CLEAR_base: "step sys (at_base EXC_CLEAR EXC_BASE_OFFSET base) (0, s) = Some (Next 10, set_reg 8 base s)"
  using step_base_imm [of EXC_BASE_OFFSET 0 EXC_CLEAR "0xB8" 8 sys base s] by (simp add: EXC_BASE_OFFSET_def EXC_CLEAR_def)

lemma EXC_THROW_base: "step sys (at_base EXC_THROW EXC_BASE_OFFSET base) (0, s) = Some (Next 10, set_reg 8 base s)"
  using step_base_imm [of EXC_BASE_OFFSET 0 EXC_THROW "0xB8" 8 sys base s] by (simp add: EXC_BASE_OFFSET_def EXC_THROW_def)

lemma EXC_RETHROW_base: "step sys (at_base EXC_RETHROW EXC_BASE_OFFSET base) (0, s) = Some (Next 10, set_reg 8 base s)"
  using step_base_imm [of EXC_BASE_OFFSET 0 EXC_RETHROW "0xB8" 8 sys base s] by (simp add: EXC_BASE_OFFSET_def EXC_RETHROW_def)

lemma RELEASE_after: "list_all (stepping sys (at_base RELEASE RELEASE_HEAPBASE_OFFSET base) s)
     [(30, Mov (Reg 1) (Mem 10 None 0), 3), (33, Mov (Mem 0 None 0) (Reg 1), 3), (36, Mov (Mem 0 None 8) (Reg
      6), 4), (40, Mov (Mem 10 None 0) (Reg 0), 3), (43, Ret, 1), (44, Ret, 1)]"
  using listing_after [of 7 RELEASE_HEAPBASE_OFFSET RELEASE _ sys base s] RELEASE_code by (simp add: RELEASE_HEAPBASE_OFFSET_def)

lemma ALLOC_REVISED_after: "list_all (stepping sys (at_base ALLOC_REVISED ALLOC_REVISED_HEAPBASE_OFFSET base) s)
     [(14, AluImm Cmp (Mem 10 None 8) 0, 5), (19, Jcc 5 11, 2), (21, Lea 0 (Mem 10 None 4096), 7), (28, Mov
      (Mem 10 None 8) (Reg 0), 4), (32, Mov (Reg 1) (Mem 10 None 0), 3), (35, Alu Test (Reg 1) (Reg 1), 3),
      (38, Jcc 4 43, 2), (40, Mov (Reg 2) (Mem 1 None 8), 4), (44, Alu Cmp (Reg 2) (Reg 6), 3), (47, Jcc 2 34,
      2), (49, Mov (Reg 0) (Mem 1 None 0), 3), (52, Mov (Mem 10 None 0) (Reg 0), 3), (55, MovImm (Mem 1 None
      8) 1, 8), (63, Mov (Reg 0) (Reg 1), 3), (66, Mov (Reg 11) (Reg 0), 3), (69, Mov (Reg 7) (Reg 0), 3),
      (72, Alu32 Xor (Reg 0) (Reg 0), 2), (74, Mov32 (Reg 1) (Reg 6), 2), (76, RepStosb, 2), (78, Mov (Reg 0)
      (Reg 11), 3), (81, Jmp 32, 2), (83, Mov (Reg 0) (Mem 10 None 8), 4), (87, Mov (Reg 2) (Reg 0), 3), (90,
      Alu Add (Reg 0) (Reg 6), 3), (93, AluImm Add (Reg 0) 15, 4), (97, AluImm And (Reg 0)
      18446744073709551600, 4), (101, Mov (Mem 10 None 8) (Reg 0), 4), (105, MovImm32 (Mem 2 None 8) 1, 7),
      (112, Mov (Reg 0) (Reg 2), 3), (115, Pop 5, 1), (116, Ret, 1)]"
  using listing_after [of 32 ALLOC_REVISED_HEAPBASE_OFFSET ALLOC_REVISED _ sys base s] ALLOC_REVISED_code by (simp add: ALLOC_REVISED_HEAPBASE_OFFSET_def)

lemma EXC_ENTER_after: "list_all (stepping sys (at_base EXC_ENTER EXC_BASE_OFFSET base) s)
     [(10, Mov (Reg 1) (Mem 8 None 8), 4), (14, ImulImm 0 (Reg 1) 64, 4), (18, Lea 2 (Mem 8 (Some (0, 1)) 16),
      5), (23, Mov (Reg 10) (Mem 4 None 0), 4), (27, Mov (Mem 2 None 56) (Reg 10), 4), (31, Lea 0 (Mem 4 None
      8), 5), (36, Mov (Mem 2 None 48) (Reg 0), 4), (40, Mov (Mem 2 None 0) (Reg 3), 3), (43, Mov (Mem 2 None
      8) (Reg 12), 4), (47, Mov (Mem 2 None 16) (Reg 13), 4), (51, Mov (Mem 2 None 24) (Reg 14), 4), (55, Mov
      (Mem 2 None 32) (Reg 15), 4), (59, Mov (Mem 2 None 40) (Reg 5), 4), (63, Inc (Reg 1), 3), (66, Mov (Mem
      8 None 8) (Reg 1), 4), (70, Alu32 Xor (Reg 0) (Reg 0), 2), (72, Ret, 1)]"
  using listing_after [of 18 EXC_BASE_OFFSET EXC_ENTER _ sys base s] EXC_ENTER_code by (simp add: EXC_BASE_OFFSET_def)

lemma EXC_POP_after: "list_all (stepping sys (at_base EXC_POP EXC_BASE_OFFSET base) s)
     [(10, Mov (Reg 1) (Mem 8 None 8), 4), (14, Dec (Reg 1), 3), (17, Mov (Mem 8 None 8) (Reg 1), 4), (21,
      Ret, 1)]"
  using listing_after [of 5 EXC_BASE_OFFSET EXC_POP _ sys base s] EXC_POP_code by (simp add: EXC_BASE_OFFSET_def)

lemma EXC_LOAD_after: "list_all (stepping sys (at_base EXC_LOAD EXC_BASE_OFFSET base) s)
     [(10, Mov (Reg 0) (Mem 8 None 0), 3), (13, Ret, 1)]"
  using listing_after [of 3 EXC_BASE_OFFSET EXC_LOAD _ sys base s] EXC_LOAD_code by (simp add: EXC_BASE_OFFSET_def)

lemma EXC_CLEAR_after: "list_all (stepping sys (at_base EXC_CLEAR EXC_BASE_OFFSET base) s)
     [(10, MovImm (Mem 8 None 0) 0, 7), (17, Ret, 1)]"
  using listing_after [of 3 EXC_BASE_OFFSET EXC_CLEAR _ sys base s] EXC_CLEAR_code by (simp add: EXC_BASE_OFFSET_def)

lemma EXC_THROW_after: "list_all (stepping sys (at_base EXC_THROW EXC_BASE_OFFSET base) s)
     [(10, Mov (Mem 8 None 0) (Reg 7), 3), (13, Mov (Reg 1) (Mem 8 None 8), 4), (17, Alu Test (Reg 1) (Reg 1),
      3), (20, Jcc 4 63, 2), (22, AluImm Cmp (Reg 1) 64, 4), (26, Jcc 7 57, 2), (28, Dec (Reg 1), 3), (31, Mov
      (Mem 8 None 8) (Reg 1), 4), (35, ImulImm 0 (Reg 1) 64, 4), (39, Lea 2 (Mem 8 (Some (0, 1)) 16), 5), (44,
      Mov (Reg 10) (Mem 2 None 56), 4), (48, MovImm (Reg 0) 1, 7), (55, Mov (Reg 3) (Mem 2 None 0), 3), (58,
      Mov (Reg 12) (Mem 2 None 8), 4), (62, Mov (Reg 13) (Mem 2 None 16), 4), (66, Mov (Reg 14) (Mem 2 None
      24), 4), (70, Mov (Reg 15) (Mem 2 None 32), 4), (74, Mov (Reg 5) (Mem 2 None 40), 4), (78, Mov (Reg 4)
      (Mem 2 None 48), 4), (82, JmpReg (Reg 10), 3), (85, MovImm32 (Reg 7) 1, 5), (90, MovImm32 (Reg 0) 60,
      5), (95, Syscall, 2)]"
  using listing_after [of 24 EXC_BASE_OFFSET EXC_THROW _ sys base s] EXC_THROW_code by (simp add: EXC_BASE_OFFSET_def)

lemma EXC_RETHROW_after: "list_all (stepping sys (at_base EXC_RETHROW EXC_BASE_OFFSET base) s)
     [(10, Mov (Reg 1) (Mem 8 None 8), 4), (14, Alu Test (Reg 1) (Reg 1), 3), (17, Jcc 4 57, 2), (19, Dec (Reg
      1), 3), (22, Mov (Mem 8 None 8) (Reg 1), 4), (26, ImulImm 0 (Reg 1) 64, 4), (30, Lea 2 (Mem 8 (Some (0,
      1)) 16), 5), (35, Mov (Reg 10) (Mem 2 None 56), 4), (39, MovImm (Reg 0) 1, 7), (46, Mov (Reg 3) (Mem 2
      None 0), 3), (49, Mov (Reg 12) (Mem 2 None 8), 4), (53, Mov (Reg 13) (Mem 2 None 16), 4), (57, Mov (Reg
      14) (Mem 2 None 24), 4), (61, Mov (Reg 15) (Mem 2 None 32), 4), (65, Mov (Reg 5) (Mem 2 None 40), 4),
      (69, Mov (Reg 4) (Mem 2 None 48), 4), (73, JmpReg (Reg 10), 3), (76, MovImm32 (Reg 7) 1, 5), (81,
      MovImm32 (Reg 0) 60, 5), (86, Syscall, 2)]"
  using listing_after [of 21 EXC_BASE_OFFSET EXC_RETHROW _ sys base s] EXC_RETHROW_code by (simp add: EXC_BASE_OFFSET_def)

lemma RELEASE_before: "list_all (stepping sys (at_base RELEASE RELEASE_HEAPBASE_OFFSET base) s)
     [(0, Alu Test (Reg 0) (Reg 0), 3), (3, Jcc 4 39, 2), (5, Dec (Mem 0 None 8), 5), (10, Mov (Reg 1) (Mem 0
      None 8), 4), (14, ShiftImm Shl (Reg 1) 2, 4), (18, Jcc 5 24, 2)]"
  by (rule listing_before [OF RELEASE_pre_code]) (simp add: RELEASE_HEAPBASE_OFFSET_def)

lemma ALLOC_REVISED_before: "list_all (stepping sys (at_base ALLOC_REVISED ALLOC_REVISED_HEAPBASE_OFFSET base) s)
     [(0, Push 5, 1), (1, Mov (Reg 5) (Reg 4), 3)]"
  by (rule listing_before [OF ALLOC_pre_code]) (simp add: ALLOC_REVISED_HEAPBASE_OFFSET_def)

lemmas RELEASE_steps = RELEASE_before [unfolded step_list] RELEASE_base RELEASE_after [unfolded step_list]
lemmas ALLOC_REVISED_steps = ALLOC_REVISED_before [unfolded step_list One_nat_def] ALLOC_REVISED_base ALLOC_REVISED_after [unfolded step_list]
lemmas EXC_ENTER_steps = EXC_ENTER_base EXC_ENTER_after [unfolded step_list]
lemmas EXC_POP_steps = EXC_POP_base EXC_POP_after [unfolded step_list]
lemmas EXC_LOAD_steps = EXC_LOAD_base EXC_LOAD_after [unfolded step_list]
lemmas EXC_CLEAR_steps = EXC_CLEAR_base EXC_CLEAR_after [unfolded step_list]
lemmas EXC_THROW_steps = EXC_THROW_base EXC_THROW_after [unfolded step_list]
lemmas EXC_RETHROW_steps = EXC_RETHROW_base EXC_RETHROW_after [unfolded step_list]

end
