(* ===== verification/Regions.thy ===== *)
theory Regions
  imports X86_Laws
begin

text \<open>
  Disjoint regions of the address space (which wraps at 64 bits) and what the stores of the processor
  model leave alone outside the region they write.
\<close>

section \<open>Disjoint regions\<close>

text \<open>The \<open>n\<close> bytes at \<open>a\<close> and the \<open>k\<close> bytes at \<open>b\<close> do not overlap.\<close>

definition sep :: "u64 \<Rightarrow> nat \<Rightarrow> u64 \<Rightarrow> nat \<Rightarrow> bool" where
  "sep a n b k \<longleftrightarrow> n \<le> unat (b - a) \<and> k \<le> unat (a - b)"

lemma sep_sym: "sep a n b k \<longleftrightarrow> sep b k a n"
  by (auto simp: sep_def)

lemma unat_sub64: "unat (x - y :: u64) = (if unat y \<le> unat x then unat x - unat y else unat x + 2 ^ 64 - unat y)"
  using unat_sub_if' [of x y] by simp

lemma unat_add64: "unat (x + y :: u64) = (if unat x + unat y < 2 ^ 64 then unat x + unat y else unat x + unat y - 2 ^ 64)"
  using unat_plus_if' [of x y] by simp

lemma sep_left:
  assumes "sep a n b k" and "i + n' \<le> n" and "0 < n'"
  shows "sep (a + of_nat i) n' b k"
proof -
  have n: "n < 2 ^ 64" using assms(1) unat_u64_less [of "b - a"] by (simp add: sep_def)
  then have i: "unat (of_nat i :: u64) = i" using assms(2) by simp
  show ?thesis
    using assms i n unat_u64_less [of a] unat_u64_less [of b]
    by (auto simp: sep_def unat_sub64 unat_add64 split: if_splits)
qed

lemma sep_part:
  "sep a n b k \<Longrightarrow> i + n' \<le> n \<Longrightarrow> 0 < n' \<Longrightarrow> j + k' \<le> k \<Longrightarrow> 0 < k' \<Longrightarrow> sep (a + of_nat i) n' (b + of_nat j) k'"
  by (metis sep_left sep_sym)

lemma sep_byte:
  assumes "sep a n b k" and "i < n" and "j < k"
  shows "a + of_nat i \<noteq> b + of_nat j"
  using sep_part [OF assms(1), of i 1 j 1] assms(2,3) by (auto simp: sep_def)

lemma sep_byte_other: "sep a n b k \<Longrightarrow> i < k \<Longrightarrow> j < n \<Longrightarrow> b + of_nat i \<noteq> a + of_nat j"
  using sep_byte [of a n b k j i] by simp

lemma apart8_sep: "apart8 a b \<longleftrightarrow> sep a 8 b 8"
  by (auto simp: apart8_def sep_def)

lemma sep_apart8: "sep a n b k \<Longrightarrow> i + 8 \<le> n \<Longrightarrow> j + 8 \<le> k \<Longrightarrow> apart8 (a + of_nat i) (b + of_nat j)"
  by (simp add: apart8_sep sep_part)

text \<open>The same at the start of a region, and at offset 8.\<close>

lemma sep_apart8_0: "sep a n b k \<Longrightarrow> 8 \<le> n \<Longrightarrow> 8 \<le> k \<Longrightarrow> apart8 a b"
  using sep_apart8 [of a n b k 0 0] by simp

lemma sep_apart8_8:
  "sep a n b k \<Longrightarrow> 16 \<le> n \<Longrightarrow> 8 \<le> k \<Longrightarrow> apart8 (a + 8) b"
  "sep a n b k \<Longrightarrow> 8 \<le> n \<Longrightarrow> 16 \<le> k \<Longrightarrow> apart8 a (b + 8)"
  "sep a n b k \<Longrightarrow> 16 \<le> n \<Longrightarrow> 16 \<le> k \<Longrightarrow> apart8 (a + 8) (b + 8)"
  using sep_apart8 [of a n b k 8 0] sep_apart8 [of a n b k 0 8] sep_apart8 [of a n b k 8 8] by simp_all

lemmas sep_cells = sep_apart8_0 sep_apart8_8

section \<open>Stores outside a region\<close>

lemma ld64_outside: "(\<And>i. i < 8 \<Longrightarrow> m' (b + of_nat i) = m (b + of_nat i)) \<Longrightarrow> ld64 m' b = ld64 m b"
  by (rule ld64_cong)

lemma st_bytes_sep: "sep a (length bs) b 8 \<Longrightarrow> ld64 (st_bytes m a bs) b = ld64 m b"
  by (rule ld64_cong, rule st_bytes_other, rule sep_byte_other)

lemma ld64_st32_sep: "sep a 4 b 8 \<Longrightarrow> ld64 (st32 m a v) b = ld64 m b"
  by (simp add: st32_def st_bytes_sep)

lemma stos_other: "(\<And>j. j < n \<Longrightarrow> x \<noteq> a + of_nat j) \<Longrightarrow> stos n a b m x = m x"
proof (induction n arbitrary: a m)
  case (Suc n)
  have "stos n (a + 1) b (m(a := b)) x = (m(a := b)) x"
  proof (rule Suc.IH)
    fix j assume "j < n"
    then show "x \<noteq> a + 1 + of_nat j" using Suc.prems [of "Suc j"] by (simp add: algebra_simps)
  qed
  moreover have "x \<noteq> a" using Suc.prems [of 0] by simp
  ultimately show ?case by simp
qed simp

lemma stos_inside: "i < n \<Longrightarrow> stos n a b m (a + of_nat i) = b"
proof (induction n arbitrary: a m i)
  case (Suc n)
  have keep: "stos k c b m' x = b" if "m' x = b" for k c m' x
    using that by (induction k arbitrary: c m') simp_all
  show ?case
  proof (cases i)
    case 0
    then show ?thesis by (simp add: keep)
  next
    case (Suc j)
    then have "stos n (a + 1) b (m(a := b)) (a + 1 + of_nat j) = b" using Suc.IH Suc.prems by blast
    then show ?thesis by (simp add: Suc algebra_simps)
  qed
qed simp

lemma ld64_stos_sep: "sep a n b 8 \<Longrightarrow> ld64 (stos n a v m) b = ld64 m b"
  by (rule ld64_cong, rule stos_other, rule sep_byte_other)

lemma ld64_stos_zero: "i + 8 \<le> n \<Longrightarrow> ld64 (stos n a 0 m) (a + of_nat i) = 0"
proof -
  assume "i + 8 \<le> n"
  then have "ld64 (stos n a 0 m) (a + of_nat i) = ld64 (\<lambda>_. 0) (a + of_nat i)"
    using stos_inside [of "i + j" n a 0 m for j] by (intro ld64_cong) (simp add: add.assoc)
  then show ?thesis by simp
qed

lemma list4: "[xs ! 0, xs ! 1, xs ! 2, xs ! 3] = xs" if "length xs = 4" for xs :: "'a list"
  using that by (intro nth_equalityI) (auto simp: less_Suc_eq nth_Cons' numeral_eq_Suc)

lemma ld32_st32 [simp]: "ld32 (st32 m a v) a = v"
proof -
  have "st_bytes m a (le32 v) (a + of_nat i) = le32 v ! i" if "i < 4" for i
    using that by (intro st_bytes_nth) simp_all
  from this [of 0] this [of 1] this [of 2] this [of 3]
  have "ld32 (st32 m a v) a = from_le [le32 v ! 0, le32 v ! 1, le32 v ! 2, le32 v ! 3]"
    by (simp add: ld32_def st32_def)
  then show ?thesis by (simp only: list4 [of "le32 v"] length_to_le from_le_le32)
qed

lemma ld32_cong: "(\<And>i. i < 4 \<Longrightarrow> m (a + of_nat i) = m' (a + of_nat i)) \<Longrightarrow> ld32 m a = ld32 m' a"
proof -
  assume h: "\<And>i. i < 4 \<Longrightarrow> m (a + of_nat i) = m' (a + of_nat i)"
  from h [of 0] h [of 1] h [of 2] h [of 3] show ?thesis by (simp add: ld32_def)
qed

lemma ld32_st64_sep: "sep a 8 b 4 \<Longrightarrow> ld32 (st64 m a v) b = ld32 m b"
  by (rule ld32_cong, rule st64_other, rule sep_byte_other)

end
