(* ===== verification/Exceptions.thy ===== *)
theory Exceptions
  imports Runtime_Code Regions
begin

text \<open>
  The exception helpers of \<open>src/x86/runtime.rs\<close> on the processor model: the block of exception state
  holds a stack of handlers, \<open>EXC_ENTER\<close> pushes the caller's registers, \<open>EXC_POP\<close> drops the
  innermost handler, and \<open>EXC_THROW\<close> and \<open>EXC_RETHROW\<close> resume it.
\<close>

section \<open>The block as a stack of handlers\<close>

record handler =
  h_rbx :: u64
  h_r12 :: u64
  h_r13 :: u64
  h_r14 :: u64
  h_r15 :: u64
  h_rbp :: u64
  h_rsp :: u64
  h_ret :: u64

definition exc_addr :: "u64 \<Rightarrow> nat \<Rightarrow> u64" where
  "exc_addr base k = base + of_nat k"

definition exc_cell :: "(u64 \<Rightarrow> u8) \<Rightarrow> u64 \<Rightarrow> nat \<Rightarrow> u64" where
  "exc_cell m base k = ld64 m (exc_addr base k)"

definition handler_at :: "(u64 \<Rightarrow> u8) \<Rightarrow> u64 \<Rightarrow> nat \<Rightarrow> handler" where
  "handler_at m base i = (let o0 = EXC_JMPBUFS_OFF + EXC_JMPBUF_SIZE * i in
     \<lparr>h_rbx = exc_cell m base o0, h_r12 = exc_cell m base (o0 + 8), h_r13 = exc_cell m base (o0 + 16),
      h_r14 = exc_cell m base (o0 + 24), h_r15 = exc_cell m base (o0 + 32), h_rbp = exc_cell m base (o0 + 40),
      h_rsp = exc_cell m base (o0 + 48), h_ret = exc_cell m base (o0 + 56)\<rparr>)"

definition in_flight :: "(u64 \<Rightarrow> u8) \<Rightarrow> u64 \<Rightarrow> u64" where
  "in_flight m base = exc_cell m base EXC_INFLIGHT_OFF"

definition exc_stack :: "(u64 \<Rightarrow> u8) \<Rightarrow> u64 \<Rightarrow> handler list \<Rightarrow> bool" where
  "exc_stack m base hs \<longleftrightarrow> length hs \<le> EXC_MAX_HANDLERS \<and> exc_cell m base EXC_DEPTH_OFF = of_nat (length hs)
     \<and> list_all (\<lambda>i. handler_at m base i = hs ! i) [0..<length hs]"

text \<open>What a call of \<open>EXC_ENTER\<close> saves.\<close>

definition snapshot :: "mstate \<Rightarrow> handler" where
  "snapshot s = \<lparr>h_rbx = regs s 3, h_r12 = regs s 12, h_r13 = regs s 13, h_r14 = regs s 14, h_r15 = regs s 15,
     h_rbp = regs s 5, h_rsp = regs s 4 + 8, h_ret = ld64 (mem s) (regs s 4)\<rparr>"

definition resumed :: "handler \<Rightarrow> mstate \<Rightarrow> bool" where
  "resumed h s \<longleftrightarrow> regs s 0 = 1 \<and> regs s 3 = h_rbx h \<and> regs s 12 = h_r12 h \<and> regs s 13 = h_r13 h \<and> regs s 14 = h_r14 h
     \<and> regs s 15 = h_r15 h \<and> regs s 5 = h_rbp h \<and> regs s 4 = h_rsp h"

text \<open>A cell that does not overlap the block.\<close>

definition off_block :: "u64 \<Rightarrow> u64 \<Rightarrow> bool" where
  "off_block base a \<longleftrightarrow> sep base EXC_STATE_SIZE a 8"

section \<open>Cells\<close>

lemma apart8_of_nat:
  assumes "i + 8 \<le> j \<or> j + 8 \<le> i" and "i < 2 ^ 63" and "j < 2 ^ 63"
  shows "apart8 (b + of_nat i) (b + of_nat j)"
proof -
  have "unat (of_nat i :: u64) = i" "unat (of_nat j :: u64) = j" using assms by simp_all
  then show ?thesis using assms by (auto simp: apart8_def unat_sub64)
qed

lemma apart8_off_block: "off_block base a \<Longrightarrow> k + 8 \<le> EXC_STATE_SIZE \<Longrightarrow> apart8 (exc_addr base k) a"
  using sep_apart8 [of base EXC_STATE_SIZE a 8 k 0] by (simp add: off_block_def exc_addr_def)

lemma exc_addr_apart:
  "i + 8 \<le> j \<or> j + 8 \<le> i \<Longrightarrow> i < 2 ^ 63 \<Longrightarrow> j < 2 ^ 63 \<Longrightarrow> apart8 (exc_addr base i) (exc_addr base j)"
  unfolding exc_addr_def by (rule apart8_of_nat)

text \<open>The addresses the helpers compute, as offsets into the block.\<close>

lemma exc_addr_norm:
  "base + of_nat n * 64 + 16 = exc_addr base (16 + 64 * n)"
  "numeral k + (base + of_nat n * 64) = exc_addr base (numeral k + 64 * n)"
  "base + 8 = exc_addr base 8"
  "exc_addr (exc_addr base i) j = exc_addr base (i + j)"
  by (simp_all add: exc_addr_def)

lemma ld64_exc_addr:
  "i \<noteq> j \<Longrightarrow> i + 8 \<le> j \<or> j + 8 \<le> i \<Longrightarrow> i < 2 ^ 63 \<Longrightarrow> j < 2 ^ 63 \<Longrightarrow>
   ld64 (st64 m (exc_addr base i) v) (exc_addr base j) = ld64 m (exc_addr base j)"
  by (simp add: ld64_st64_apart exc_addr_apart)

lemma ld64_in_flight: "8 \<le> j \<Longrightarrow> j < 2 ^ 63 \<Longrightarrow> ld64 (st64 m base v) (exc_addr base j) = ld64 m (exc_addr base j)"
  using exc_addr_apart [of 0 j base] by (simp add: ld64_st64_apart exc_addr_def)

lemma ld64_off_block:
  "off_block base a \<Longrightarrow> k + 8 \<le> EXC_STATE_SIZE \<Longrightarrow> ld64 (st64 m (exc_addr base k) v) a = ld64 m a"
  by (simp add: ld64_st64_apart apart8_off_block)

lemma exc_stack_depth: "exc_stack m base hs \<Longrightarrow> ld64 m (exc_addr base 8) = of_nat (length hs)"
  by (simp add: exc_stack_def exc_cell_def exc_layout_defs)

section \<open>Entering a handler\<close>

definition saved :: "handler \<Rightarrow> u64 \<Rightarrow> nat \<Rightarrow> (u64 \<Rightarrow> u8) \<Rightarrow> (u64 \<Rightarrow> u8)" where
  "saved h base n m =
     st64 (st64 (st64 (st64 (st64 (st64 (st64 (st64 (st64 m
       (exc_addr base (72 + 64 * n)) (h_ret h))
       (exc_addr base (64 + 64 * n)) (h_rsp h))
       (exc_addr base (16 + 64 * n)) (h_rbx h))
       (exc_addr base (24 + 64 * n)) (h_r12 h))
       (exc_addr base (32 + 64 * n)) (h_r13 h))
       (exc_addr base (40 + 64 * n)) (h_r14 h))
       (exc_addr base (48 + 64 * n)) (h_r15 h))
       (exc_addr base (56 + 64 * n)) (h_rbp h))
       (exc_addr base 8) (of_nat n + 1)"

lemma enter_run:
  assumes "ld64 (mem s) (exc_addr base 8) = of_nat n"
  shows "\<exists>s'. run sys (at_base EXC_ENTER EXC_BASE_OFFSET base) 18 (0, s)
       = Some (ld64 (saved (snapshot s) base n (mem s)) (regs s 4), s')
     \<and> mem s' = saved (snapshot s) base n (mem s) \<and> regs s' 0 = 0 \<and> regs s' 4 = regs s 4 + 8
     \<and> map (regs s') [3, 5, 12, 13, 14, 15] = map (regs s) [3, 5, 12, 13, 14, 15]"
  using assms by (simp add: EXC_ENTER_steps exec_simps exc_addr_norm saved_def snapshot_def)

lemma saved_stack:
  assumes "exc_stack m base hs" and "length hs < EXC_MAX_HANDLERS"
  shows "exc_stack (saved h base (length hs) m) base (hs @ [h])"
proof -
  have "handler_at (saved h base (length hs) m) base i = (hs @ [h]) ! i" if "i < Suc (length hs)" for i
  proof (cases "i = length hs")
    case True
    then show ?thesis using assms(2)
      by (cases h) (simp add: handler_at_def saved_def exc_cell_def exc_layout_defs ld64_exc_addr)
  next
    case False
    then have i: "i < length hs" using that by simp
    then have "handler_at (saved h base (length hs) m) base i = handler_at m base i" using assms(2)
      by (simp add: handler_at_def saved_def exc_cell_def exc_layout_defs ld64_exc_addr)
    then show ?thesis using i assms(1) by (simp add: exc_stack_def list_all_iff nth_append)
  qed
  then show ?thesis using assms
    by (auto simp: exc_stack_def list_all_iff saved_def exc_cell_def exc_layout_defs)
qed

lemma saved_flight: "n < EXC_MAX_HANDLERS \<Longrightarrow> in_flight (saved h base n m) base = in_flight m base"
  by (simp add: in_flight_def saved_def exc_cell_def exc_layout_defs ld64_exc_addr)

lemma saved_off_block:
  "n < EXC_MAX_HANDLERS \<Longrightarrow> off_block base a \<Longrightarrow> ld64 (saved h base n m) a = ld64 m a"
  by (simp add: saved_def exc_layout_defs ld64_off_block)


section \<open>Leaving and resuming a handler\<close>

lemma pop_run:
  assumes "ld64 (mem s) (exc_addr base 8) = of_nat (Suc n)"
  shows "\<exists>s'. run sys (at_base EXC_POP EXC_BASE_OFFSET base) 5 (0, s)
       = Some (ld64 (st64 (mem s) (exc_addr base 8) (of_nat n)) (regs s 4), s')
     \<and> mem s' = st64 (mem s) (exc_addr base 8) (of_nat n) \<and> regs s' = (regs s)(8 := base, 1 := of_nat n, 4 := regs s 4 + 8)"
  using assms by (simp add: EXC_POP_steps exec_simps exc_addr_norm fun_upd_twist)

lemma depth_stack:
  assumes "exc_stack m base (hs @ [h])"
  shows "exc_stack (st64 m (exc_addr base 8) (of_nat (length hs))) base hs"
proof -
  have "handler_at (st64 m (exc_addr base 8) (of_nat (length hs))) base i = hs ! i" if "i < length hs" for i
  proof -
    have "i < EXC_MAX_HANDLERS" using that assms by (simp add: exc_stack_def)
    then have "handler_at (st64 m (exc_addr base 8) (of_nat (length hs))) base i = handler_at m base i"
      by (simp add: handler_at_def exc_cell_def exc_layout_defs ld64_exc_addr)
    then show ?thesis using that assms by (auto simp: exc_stack_def list_all_iff nth_append)
  qed
  then show ?thesis using assms by (auto simp: exc_stack_def list_all_iff exc_cell_def exc_layout_defs)
qed

lemma top_depth:
  assumes "exc_stack m base (hs @ [h])"
  shows "ld64 m (exc_addr base 8) = of_nat (length hs) + 1" and "length hs < 64"
    and "unat (of_nat (length hs) + 1 :: u64) = length hs + 1" and "(of_nat (length hs) :: u64) + 1 \<noteq> 0"
proof -
  show "ld64 m (exc_addr base 8) = of_nat (length hs) + 1" and l: "length hs < 64"
    using assms by (auto simp: exc_stack_def exc_cell_def exc_layout_defs)
  show u: "unat (of_nat (length hs) + 1 :: u64) = length hs + 1"
    using l unat_of_nat_u64 [of "length hs + 1"] by (simp add: add.commute)
  show "(of_nat (length hs) :: u64) + 1 \<noteq> 0"
    using u by (metis One_nat_def add_is_0 nat.distinct(1) unsigned_0)
qed

lemma top_cells:
  assumes "exc_stack m base (hs @ [h])"
  shows "ld64 m (exc_addr base (16 + 64 * length hs)) = h_rbx h"
    and "ld64 m (exc_addr base (24 + 64 * length hs)) = h_r12 h"
    and "ld64 m (exc_addr base (32 + 64 * length hs)) = h_r13 h"
    and "ld64 m (exc_addr base (40 + 64 * length hs)) = h_r14 h"
    and "ld64 m (exc_addr base (48 + 64 * length hs)) = h_r15 h"
    and "ld64 m (exc_addr base (56 + 64 * length hs)) = h_rbp h"
    and "ld64 m (exc_addr base (64 + 64 * length hs)) = h_rsp h"
    and "ld64 m (exc_addr base (72 + 64 * length hs)) = h_ret h"
proof -
  have "handler_at m base (length hs) = h" using assms by (auto simp: exc_stack_def list_all_iff)
  then show "ld64 m (exc_addr base (16 + 64 * length hs)) = h_rbx h"
    and "ld64 m (exc_addr base (24 + 64 * length hs)) = h_r12 h"
    and "ld64 m (exc_addr base (32 + 64 * length hs)) = h_r13 h"
    and "ld64 m (exc_addr base (40 + 64 * length hs)) = h_r14 h"
    and "ld64 m (exc_addr base (48 + 64 * length hs)) = h_r15 h"
    and "ld64 m (exc_addr base (56 + 64 * length hs)) = h_rbp h"
    and "ld64 m (exc_addr base (64 + 64 * length hs)) = h_rsp h"
    and "ld64 m (exc_addr base (72 + 64 * length hs)) = h_ret h"
    by (auto simp: handler_at_def exc_cell_def exc_layout_defs add.commute)
qed

lemma exc_addr_64: "base + (of_nat n * 64 + 64) = exc_addr base (64 + 64 * n)" "base + 4096 = exc_addr base 4096"
  by (simp_all add: exc_addr_def)

text \<open>The tail that \<open>EXC_THROW\<close> and \<open>EXC_RETHROW\<close> share: drop the top handler and jump to it.\<close>

lemma throw_run:
  assumes "exc_stack (mem s) base (hs @ [h])"
  shows "\<exists>s'. run sys (at_base EXC_THROW EXC_BASE_OFFSET base) 21 (0, s) = Some (h_ret h, s')
     \<and> mem s' = st64 (st64 (mem s) base (regs s 7)) (exc_addr base 8) (of_nat (length hs)) \<and> resumed h s'"
proof -
  note t = top_depth [OF assms] top_cells [OF assms]
  have c: "alu_carry Cmp (of_nat (length hs) + 1) (64 :: u64) \<or> (of_nat (length hs) :: u64) = 63"
  proof (cases "length hs = 63")
    case False
    then show ?thesis using t(2,3) by (simp add: alu_carry_def word_less_nat_alt)
  qed simp
  show ?thesis
    using t c by (auto simp: EXC_THROW_steps exec_simps exc_addr_norm ld64_in_flight ld64_exc_addr resumed_def)
      (simp_all add: exc_addr_64 ld64_in_flight ld64_exc_addr)
qed

lemma rethrow_run:
  assumes "exc_stack (mem s) base (hs @ [h])"
  shows "\<exists>s'. run sys (at_base EXC_RETHROW EXC_BASE_OFFSET base) 18 (0, s) = Some (h_ret h, s')
     \<and> mem s' = st64 (mem s) (exc_addr base 8) (of_nat (length hs)) \<and> resumed h s'"
proof -
  note t = top_depth [OF assms] top_cells [OF assms]
  show ?thesis
    using t by (simp add: EXC_RETHROW_steps exec_simps exc_addr_norm ld64_exc_addr resumed_def) (simp add: exc_addr_64 ld64_exc_addr)
qed

lemma no_handler_walk:
  assumes "exc_stack (mem s) base []"
  shows "\<exists>s'. walk sys (at_base EXC_THROW EXC_BASE_OFFSET base) 7 (0, s) = Some (95, s')
      \<and> regs s' 0 = 60 \<and> regs s' 7 = 1 \<and> mem s' = st64 (mem s) base (regs s 7)"
    and "\<exists>s'. walk sys (at_base EXC_RETHROW EXC_BASE_OFFSET base) 6 (0, s) = Some (86, s')
      \<and> regs s' 0 = 60 \<and> regs s' 7 = 1 \<and> mem s' = mem s"
  using exc_stack_depth [OF assms]
  by (simp_all add: EXC_THROW_steps EXC_RETHROW_steps exec_simps exc_addr_norm ld64_in_flight)

lemma clear_run:
  "\<exists>s'. run sys (at_base EXC_CLEAR EXC_BASE_OFFSET base) 3 (0, s) = Some (ld64 (st64 (mem s) base 0) (regs s 4), s')
     \<and> mem s' = st64 (mem s) base 0 \<and> regs s' = (regs s)(8 := base, 4 := regs s 4 + 8)"
  by (simp add: EXC_CLEAR_steps exec_simps exc_addr_norm)

lemma load_run:
  "\<exists>s'. run sys (at_base EXC_LOAD EXC_BASE_OFFSET base) 3 (0, s) = Some (ld64 (mem s) (regs s 4), s')
     \<and> mem s' = mem s \<and> regs s' = (regs s)(8 := base, 0 := in_flight (mem s) base, 4 := regs s 4 + 8)"
proof -
  have "in_flight (mem s) base = ld64 (mem s) base"
    by (simp add: in_flight_def exc_cell_def exc_addr_def exc_layout_defs)
  then show ?thesis by (simp add: EXC_LOAD_steps exec_simps)
qed

lemma flight_stack: "exc_stack m base hs \<Longrightarrow> exc_stack (st64 m base v) base hs"
  by (simp add: exc_stack_def list_all_iff handler_at_def exc_cell_def exc_layout_defs ld64_in_flight)

lemma flight_st64 [simp]: "in_flight (st64 m base v) base = v"
  by (simp add: in_flight_def exc_cell_def exc_addr_def exc_layout_defs)

lemma flight_depth: "in_flight (st64 m (exc_addr base 8) v) base = in_flight m base"
  by (simp add: in_flight_def exc_cell_def exc_layout_defs ld64_exc_addr)


lemma zero_stack:
  "n \<le> EXC_MAX_HANDLERS \<Longrightarrow>
   exc_stack (st64 (\<lambda>_. 0) (exc_addr base 8) (of_nat n)) base (replicate n \<lparr>h_rbx = 0, h_r12 = 0, h_r13 = 0, h_r14 = 0, h_r15 = 0, h_rbp = 0, h_rsp = 0, h_ret = 0\<rparr>)"
  by (simp add: exc_stack_def list_all_iff handler_at_def exc_cell_def exc_layout_defs ld64_exc_addr)

lemma empty_stack: "exc_stack (\<lambda>_. 0) base []"
  by (simp add: exc_stack_def exc_cell_def)

abbreviation handler0 :: handler where
  "handler0 \<equiv> \<lparr>h_rbx = 0, h_r12 = 0, h_r13 = 0, h_r14 = 0, h_r15 = 0, h_rbp = 0, h_rsp = 0, h_ret = 0\<rparr>"

text \<open>A block with one handler, for the concrete runs.\<close>

abbreviation one_handler :: mstate where
  "one_handler \<equiv> machine 0x9000 (st64 (\<lambda>_. 0) (exc_addr 0x1000 8) 1)"

lemma one_handler_stack: "exc_stack (mem one_handler) 0x1000 ([] @ [handler0])"
  using zero_stack [of 1 "0x1000"] by (simp add: exc_layout_defs)

section \<open>The helpers as operations on the handler stack\<close>

abbreviation enter_code :: "u64 \<Rightarrow> bytes" where "enter_code base \<equiv> at_base EXC_ENTER EXC_BASE_OFFSET base"
abbreviation pop_code :: "u64 \<Rightarrow> bytes" where "pop_code base \<equiv> at_base EXC_POP EXC_BASE_OFFSET base"
abbreviation throw_code :: "u64 \<Rightarrow> bytes" where "throw_code base \<equiv> at_base EXC_THROW EXC_BASE_OFFSET base"
abbreviation rethrow_code :: "u64 \<Rightarrow> bytes" where "rethrow_code base \<equiv> at_base EXC_RETHROW EXC_BASE_OFFSET base"

text \<open>
  C18. \<open>EXC_ENTER\<close> refines a push: called with fewer than 64 active handlers, it returns 0 to its caller
  with the callee-saved registers unchanged, and the block then holds one more handler, the caller's
  registers, stack pointer and return address; the exception in flight is untouched.
\<close>

theorem enter_pushes:
  assumes "exc_stack (mem s) base hs" and "length hs < EXC_MAX_HANDLERS" and "off_block base (regs s 4)"
  shows "\<exists>s'. leaves sys (enter_code base) (0, s) (ld64 (mem s) (regs s 4), s')
    \<and> exc_stack (mem s') base (hs @ [snapshot s]) \<and> in_flight (mem s') base = in_flight (mem s) base
    \<and> regs s' 0 = 0 \<and> regs s' 4 = regs s 4 + 8
    \<and> map (regs s') [3, 5, 12, 13, 14, 15] = map (regs s) [3, 5, 12, 13, 14, 15]"
proof -
  obtain s' where r: "run sys (enter_code base) 18 (0, s)
       = Some (ld64 (saved (snapshot s) base (length hs) (mem s)) (regs s 4), s')"
    and m: "mem s' = saved (snapshot s) base (length hs) (mem s)"
    and rg: "regs s' 0 = 0" "regs s' 4 = regs s 4 + 8"
      "map (regs s') [3, 5, 12, 13, 14, 15] = map (regs s) [3, 5, 12, 13, 14, 15]"
    using enter_run [OF exc_stack_depth [OF assms(1)], of sys] by blast
  have "ld64 (saved (snapshot s) base (length hs) (mem s)) (regs s 4) = ld64 (mem s) (regs s 4)"
    using assms by (simp add: saved_off_block)
  then show ?thesis
    using run_leaves [OF r] rg m saved_stack [OF assms(1,2)] saved_flight [OF assms(2)] by auto
qed

theorem enter_pushes_witness:
  "\<exists>s'. leaves (\<lambda>_. None) (enter_code 0x1000) (0, machine 0x9000 (\<lambda>_. 0)) (0, s')
    \<and> exc_stack (mem s') 0x1000 [snapshot (machine 0x9000 (\<lambda>_. 0))]"
  using enter_pushes [of "machine 0x9000 (\<lambda>_. 0)" "0x1000" "[]" "\<lambda>_. None"] empty_stack
  by (auto simp: off_block_def sep_def exc_layout_defs)

text \<open>
  C19. \<open>EXC_THROW\<close> refines pop-and-resume: with a handler active it never returns to its caller but
  transfers to the address the innermost handler saved, with 1 in \<open>rax\<close> and the saved registers and
  stack pointer restored; the handler is gone and the object in \<open>rdi\<close> is in flight.
\<close>

theorem throw_resumes:
  assumes "exc_stack (mem s) base (hs @ [h])"
  shows "\<exists>s'. leaves sys (throw_code base) (0, s) (h_ret h, s') \<and> resumed h s'
    \<and> exc_stack (mem s') base hs \<and> in_flight (mem s') base = regs s 7"
proof -
  obtain s' where r: "run sys (throw_code base) 21 (0, s) = Some (h_ret h, s')" "resumed h s'"
    and m: "mem s' = st64 (st64 (mem s) base (regs s 7)) (exc_addr base 8) (of_nat (length hs))"
    using throw_run [OF assms, of sys] by blast
  then show ?thesis
    using run_leaves [OF r(1)] depth_stack [OF flight_stack [OF assms]] by (auto simp: flight_depth)
qed

theorem throw_resumes_witness:
  "\<exists>s'. leaves (\<lambda>_. None) (throw_code 0x1000) (0, one_handler) (0, s') \<and> resumed handler0 s'
    \<and> exc_stack (mem s') 0x1000 [] \<and> in_flight (mem s') 0x1000 = 0"
  using throw_resumes [OF one_handler_stack, of "\<lambda>_. None"] by auto

text \<open>
  C20. \<open>EXC_POP\<close> and \<open>EXC_RETHROW\<close> drop exactly the innermost handler: the first returns to its caller,
  the second resumes the handler with the exception that is still in flight.
\<close>

theorem pop_and_rethrow:
  assumes "exc_stack (mem s) base (hs @ [h])" and "off_block base (regs s 4)"
  shows "(\<exists>s'. leaves sys (pop_code base) (0, s) (ld64 (mem s) (regs s 4), s')
      \<and> exc_stack (mem s') base hs \<and> in_flight (mem s') base = in_flight (mem s) base)
    \<and> (\<exists>s'. leaves sys (rethrow_code base) (0, s) (h_ret h, s') \<and> resumed h s'
      \<and> exc_stack (mem s') base hs \<and> in_flight (mem s') base = in_flight (mem s) base)"
proof
  have d: "ld64 (mem s) (exc_addr base 8) = of_nat (Suc (length hs))" using top_depth(1) [OF assms(1)] by simp
  have o: "ld64 (st64 (mem s) (exc_addr base 8) v) (regs s 4) = ld64 (mem s) (regs s 4)" for v
    using assms(2) by (simp add: ld64_off_block exc_layout_defs)
  obtain s' where r: "run sys (pop_code base) 5 (0, s)
       = Some (ld64 (st64 (mem s) (exc_addr base 8) (of_nat (length hs))) (regs s 4), s')"
    and m: "mem s' = st64 (mem s) (exc_addr base 8) (of_nat (length hs))"
    using pop_run [OF d, of sys] by blast
  then show "\<exists>s'. leaves sys (pop_code base) (0, s) (ld64 (mem s) (regs s 4), s')
      \<and> exc_stack (mem s') base hs \<and> in_flight (mem s') base = in_flight (mem s) base"
    using run_leaves [OF r] depth_stack [OF assms(1)] by (auto simp: flight_depth o)
next
  obtain s' where r: "run sys (rethrow_code base) 18 (0, s) = Some (h_ret h, s')" "resumed h s'"
    and m: "mem s' = st64 (mem s) (exc_addr base 8) (of_nat (length hs))"
    using rethrow_run [OF assms(1), of sys] by blast
  then show "\<exists>s'. leaves sys (rethrow_code base) (0, s) (h_ret h, s') \<and> resumed h s'
      \<and> exc_stack (mem s') base hs \<and> in_flight (mem s') base = in_flight (mem s) base"
    using run_leaves [OF r(1)] depth_stack [OF assms(1)] by (auto simp: flight_depth)
qed

theorem pop_and_rethrow_witness:
  "\<exists>s'. leaves (\<lambda>_. None) (rethrow_code 0x1000) (0, one_handler) (0, s') \<and> resumed handler0 s' \<and> exc_stack (mem s') 0x1000 []"
  using pop_and_rethrow [OF one_handler_stack, of "\<lambda>_. None"] by (auto simp: off_block_def sep_def exc_layout_defs)

text \<open>
  C21. An exception nobody handles ends the process: with no handler active, \<open>EXC_THROW\<close> and
  \<open>EXC_RETHROW\<close> reach their system call with number 60 (\<open>exit\<close>, of the calling thread; the comments
  call it \<open>exit_group\<close>, which is 231) and status 1.
\<close>

theorem unhandled_exits:
  assumes "exc_stack (mem s) base []"
  shows "(\<exists>s'. steps sys (throw_code base) (0, s) (95, s') \<and> decode_x86 (drop 95 EXC_THROW) = Some (Syscall, 2)
      \<and> regs s' 0 = 60 \<and> regs s' 7 = 1)
    \<and> (\<exists>s'. steps sys (rethrow_code base) (0, s) (86, s') \<and> decode_x86 (drop 86 EXC_RETHROW) = Some (Syscall, 2)
      \<and> regs s' 0 = 60 \<and> regs s' 7 = 1)"
proof -
  have "decode_x86 (drop 95 EXC_THROW) = Some (Syscall, 2)" "decode_x86 (drop 86 EXC_RETHROW) = Some (Syscall, 2)"
    by (simp_all add: EXC_THROW_def EXC_RETHROW_def decode_simps)
  then show ?thesis using no_handler_walk [OF assms, of sys] walk_steps by blast
qed

theorem unhandled_exits_witness:
  "\<exists>s'. steps (\<lambda>_. None) (throw_code 0x1000) (0, machine 0x9000 (\<lambda>_. 0)) (95, s') \<and> regs s' 0 = 60 \<and> regs s' 7 = 1"
  using unhandled_exits [of "machine 0x9000 (\<lambda>_. 0)" "0x1000" "\<lambda>_. None"] empty_stack by auto

text \<open>
  C22. \<open>EXC_ENTER\<close> does not check the depth: called with all 64 handlers active it returns as usual, the
  depth becomes 65 and the caller's registers are written past the end of the 4112-byte block, so that the
  64 bytes of data behind it are overwritten (here \<open>rbx\<close> at the first of them).
\<close>

theorem enter_overflows:
  assumes "exc_stack (mem s) base hs" and "length hs = EXC_MAX_HANDLERS"
  shows "\<exists>a s'. leaves sys (enter_code base) (0, s) (a, s') \<and> exc_cell (mem s') base EXC_DEPTH_OFF = 65
    \<and> exc_cell (mem s') base EXC_STATE_SIZE = regs s 3"
proof -
  obtain s' where r: "run sys (enter_code base) 18 (0, s)
       = Some (ld64 (saved (snapshot s) base 64 (mem s)) (regs s 4), s')"
    and m: "mem s' = saved (snapshot s) base 64 (mem s)"
    using enter_run [of s base 64 sys] exc_stack_depth [OF assms(1)] assms(2) by (auto simp: exc_layout_defs)
  have "exc_cell (mem s') base EXC_DEPTH_OFF = 65 \<and> exc_cell (mem s') base EXC_STATE_SIZE = regs s 3"
    by (simp add: m exc_cell_def saved_def exc_layout_defs ld64_exc_addr snapshot_def)
  then show ?thesis using run_leaves [OF r] by blast
qed

theorem enter_overflows_witness:
  "\<exists>a s'. leaves (\<lambda>_. None) (enter_code 0x1000) (0, machine 0x9000 (st64 (\<lambda>_. 0) (exc_addr 0x1000 8) 64)) (a, s')
    \<and> exc_cell (mem s') 0x1000 EXC_DEPTH_OFF = 65"
  using enter_overflows [of "machine 0x9000 (st64 (\<lambda>_. 0) (exc_addr 0x1000 8) 64)" "0x1000" "replicate 64 handler0" "\<lambda>_. None"]
    zero_stack [of 64 "0x1000"] by (auto simp: exc_layout_defs)

end
