(* ===== verification/Allocator.thy ===== *)
theory Allocator
  imports Runtime_Code Regions
begin

text \<open>
  Reference counting and the object allocator of \<open>src/x86/runtime.rs\<close> on the processor model:
  \<open>RETAIN\<close>, \<open>RELEASE\<close> and \<open>ALLOC_REVISED\<close> against a heap of free blocks and a bump pointer.
\<close>

section \<open>The heap\<close>

record heap =
  free_blocks :: "(u64 \<times> u64) list"
  bump :: u64

text \<open>
  The freelist in memory: each free block holds the next one in its first word and its capacity in the
  second, the slot of the dead reference count.
\<close>

fun free_list :: "(u64 \<Rightarrow> u8) \<Rightarrow> u64 \<Rightarrow> (u64 \<times> u64) list \<Rightarrow> bool" where
  "free_list m p [] \<longleftrightarrow> p = 0"
| "free_list m p ((a, c) # fs) \<longleftrightarrow> p = a \<and> a \<noteq> 0 \<and> ld64 m (a + 8) = c \<and> free_list m (ld64 m a) fs"

text \<open>The heap segment at \<open>base\<close>: freelist head, then the bump pointer, 0 until the first allocation.\<close>

definition heap_at :: "(u64 \<Rightarrow> u8) \<Rightarrow> u64 \<Rightarrow> heap \<Rightarrow> bool" where
  "heap_at m base h \<longleftrightarrow> free_list m (ld64 m base) (free_blocks h)
     \<and> bump h = (if ld64 m (base + 8) = 0 then base + 4096 else ld64 m (base + 8))"

text \<open>
  What the allocator keeps: the blocks, free or in use (\<open>used\<close>), are 16-byte aligned, at least 16 bytes
  long, pairwise disjoint, and lie between the first object and the bump pointer.
\<close>

definition disj_blocks :: "u64 \<times> u64 \<Rightarrow> u64 \<times> u64 \<Rightarrow> bool" where
  "disj_blocks x y \<longleftrightarrow> unat (fst x) + unat (snd x) \<le> unat (fst y) \<or> unat (fst y) + unat (snd y) \<le> unat (fst x)"

definition block_ok :: "u64 \<Rightarrow> heap \<Rightarrow> u64 \<times> u64 \<Rightarrow> bool" where
  "block_ok base h x \<longleftrightarrow> 16 \<le> unat (snd x) \<and> 16 dvd unat (fst x) \<and> unat base + 4096 \<le> unat (fst x)
     \<and> unat (fst x) + unat (snd x) \<le> unat (bump h)"

definition heap_inv :: "u64 \<Rightarrow> heap \<Rightarrow> (u64 \<times> u64) list \<Rightarrow> bool" where
  "heap_inv base h used \<longleftrightarrow> unat base + 4096 \<le> unat (bump h) \<and> 16 dvd unat (bump h)
     \<and> list_all (block_ok base h) (free_blocks h @ used) \<and> sorted_wrt disj_blocks (free_blocks h @ used)"

text \<open>The operations on the abstract heap: push, and pop when the first free block is large enough.\<close>

definition release_abs :: "u64 \<Rightarrow> u64 \<Rightarrow> heap \<Rightarrow> heap" where
  "release_abs a c h = h\<lparr>free_blocks := (a, c) # free_blocks h\<rparr>"

definition round16 :: "u64 \<Rightarrow> u64" where
  "round16 x = (x + 15) AND 0xFFFFFFFFFFFFFFF0"

definition fits :: "u64 \<Rightarrow> heap \<Rightarrow> bool" where
  "fits n h \<longleftrightarrow> (case free_blocks h of [] \<Rightarrow> False | (a, c) # fs \<Rightarrow> n \<le> c)"

definition alloc_abs :: "u64 \<Rightarrow> heap \<Rightarrow> u64 \<times> heap" where
  "alloc_abs n h = (if fits n h then (fst (hd (free_blocks h)), h\<lparr>free_blocks := tl (free_blocks h)\<rparr>)
     else (bump h, h\<lparr>bump := round16 (bump h + n)\<rparr>))"

section \<open>The abstract heap keeps its invariant\<close>

lemma unat_round16:
  assumes "unat x + 15 < 2 ^ 64"
  shows "unat (round16 x) = (unat x + 15) div 16 * 16"
proof -
  have m: "(0xFFFFFFFFFFFFFFF0 :: u64) = NOT (mask 4)" by (simp add: mask_eq_exp_minus_1)
  have "round16 x = push_bit 4 (drop_bit 4 (x + 15))"
    unfolding round16_def m by (rule bit_word_eqI) (auto simp: bit_simps)
  then have "round16 x = (x + 15) div 16 * 16" by (simp add: push_bit_eq_mult drop_bit_eq_div)
  moreover have u: "unat (x + 15) = unat x + 15" using assms by (simp add: unat_add64)
  have "unat ((x + 15) div 16 * 16) = (unat ((x + 15) div 16) * 16) mod 2 ^ 64"
    by (simp add: unat_word_ariths)
  moreover have "unat ((x + 15) div 16) = (unat x + 15) div 16" by (simp add: unat_div u)
  moreover have "(unat x + 15) div 16 * 16 < 2 ^ 64" using assms by linarith
  ultimately show ?thesis by simp
qed

lemma disj_blocks_sym: "disj_blocks x y \<longleftrightarrow> disj_blocks y x"
  by (auto simp: disj_blocks_def)

lemma round16_bounds:
  assumes "unat x + 15 < 2 ^ 64"
  shows "unat x \<le> unat (round16 x)" and "unat (round16 x) \<le> unat x + 15" and "16 dvd unat (round16 x)"
  unfolding unat_round16 [OF assms] by simp_all

lemma block_ok_mono: "block_ok base h x \<Longrightarrow> unat (bump h) \<le> unat (bump h') \<Longrightarrow> block_ok base h' x"
  by (auto simp: block_ok_def)

lemma alloc_abs_inv:
  assumes i: "heap_inv base h used" and n: "16 \<le> unat n" and r: "unat (bump h) + unat n + 15 < 2 ^ 64"
  shows "heap_inv base (snd (alloc_abs n h)) ((fst (alloc_abs n h), n) # used)"
proof (cases "fits n h")
  case True
  then obtain a c fs where f: "free_blocks h = (a, c) # fs" and c: "n \<le> c"
    by (auto simp: fits_def split: list.splits)
  have e: "disj_blocks (a, n) x" if "disj_blocks (a, c) x" for x
    using that c by (auto simp: disj_blocks_def word_le_nat_alt)
  have b: "block_ok base h (a, n)" using i f c n by (auto simp: heap_inv_def block_ok_def word_le_nat_alt)
  have "heap_inv base (h\<lparr>free_blocks := fs\<rparr>) ((a, n) # used)"
    using i f b e by (auto simp: heap_inv_def sorted_wrt_append block_ok_def disj_blocks_sym list_all_iff)
  then show ?thesis using True f by (simp add: alloc_abs_def)
next
  case False
  have u: "unat (bump h + n) = unat (bump h) + unat n" using r by (simp add: unat_add64)
  then have b: "unat (bump h) + unat n \<le> unat (round16 (bump h + n))" "16 dvd unat (round16 (bump h + n))"
    using round16_bounds [of "bump h + n"] r by simp_all
  let ?h = "h\<lparr>bump := round16 (bump h + n)\<rparr>"
  have all: "list_all (block_ok base ?h) (free_blocks h @ used)"
    using i b(1) by (auto simp: heap_inv_def list_all_iff intro: block_ok_mono)
  have new: "block_ok base ?h (bump h, n)" using i n b(1) by (auto simp: block_ok_def heap_inv_def)
  have d: "disj_blocks (bump h, n) x" "disj_blocks x (bump h, n)" if "x \<in> set (free_blocks h @ used)" for x
    using i that by (auto simp: heap_inv_def list_all_iff block_ok_def disj_blocks_def)
  have "heap_inv base ?h ((bump h, n) # used)"
    using i b all new d by (auto simp: heap_inv_def sorted_wrt_append list_all_iff)
  then show ?thesis using False by (simp add: alloc_abs_def)
qed

lemma release_abs_inv:
  assumes "heap_inv base h (u1 @ (a, c) # u2)"
  shows "heap_inv base (release_abs a c h) (u1 @ u2)"
  using assms by (auto simp: heap_inv_def release_abs_def sorted_wrt_append block_ok_def list_all_iff disj_blocks_sym)

section \<open>Reference counts\<close>

lemma retain_run:
  assumes "regs s 0 \<noteq> 0" and "apart8 (regs s 0 + 8) (regs s 4)"
  shows "\<exists>s'. run sys RETAIN 4 (0, s) = Some (ld64 (mem s) (regs s 4), s')
    \<and> mem s' = st64 (mem s) (regs s 0 + 8) (ld64 (mem s) (regs s 0 + 8) + 1) \<and> regs s' = (regs s)(4 := regs s 4 + 8)"
  using assms by (simp add: RETAIN_steps exec_simps ld64_st64_apart)

lemma retain_null_run:
  assumes "regs s 0 = 0"
  shows "\<exists>s'. run sys RETAIN 3 (0, s) = Some (ld64 (mem s) (regs s 4), s')
    \<and> mem s' = mem s \<and> regs s' = (regs s)(4 := regs s 4 + 8)"
  using assms by (simp add: RETAIN_steps exec_simps)

abbreviation release_code :: "u64 \<Rightarrow> bytes" where "release_code base \<equiv> at_base RELEASE RELEASE_HEAPBASE_OFFSET base"
abbreviation alloc_code :: "u64 \<Rightarrow> bytes" where "alloc_code base \<equiv> at_base ALLOC_REVISED ALLOC_REVISED_HEAPBASE_OFFSET base"

lemma release_run:
  assumes "regs s 0 \<noteq> 0" and "w = ld64 (mem s) (regs s 0 + 8) - 1" and "push_bit 2 w \<noteq> 0"
  shows "\<exists>s'. run sys (release_code base) 7 (0, s) = Some (ld64 (st64 (mem s) (regs s 0 + 8) w) (regs s 4), s')
    \<and> mem s' = st64 (mem s) (regs s 0 + 8) w \<and> regs s' = (regs s)(1 := push_bit 2 w, 4 := regs s 4 + 8)"
  using assms by (simp add: RELEASE_steps exec_simps do_shift_def shift_val_def fun_upd_twist)

lemma release_free_run:
  assumes "regs s 0 \<noteq> 0" and "w = ld64 (mem s) (regs s 0 + 8) - 1" and "push_bit 2 w = 0"
   and "apart8 (regs s 0 + 8) base"
  shows "\<exists>s'. run sys (release_code base) 12 (0, s) = Some (ld64 (mem s') (regs s 4), s')
    \<and> mem s' = st64 (st64 (st64 (st64 (mem s) (regs s 0 + 8) w) (regs s 0) (ld64 (mem s) base)) (regs s 0 + 8) (regs s 6)) base (regs s 0)
    \<and> regs s' = (regs s)(1 := ld64 (mem s) base, 10 := base, 4 := regs s 4 + 8)"
  using assms by (simp add: RELEASE_steps exec_simps do_shift_def shift_val_def fun_upd_twist ld64_st64_apart)


section \<open>The heap in memory\<close>

lemma sep_intervals:
  assumes "unat a + n \<le> unat b \<or> unat b + k \<le> unat a" and "unat a + n < 2 ^ 64" and "unat b + k < 2 ^ 64" and "0 < n" and "0 < k"
  shows "sep a n b k"
  using assms by (auto simp: sep_def unat_sub64)

text \<open>The cells the representation reads; what leaves them alone leaves the heap alone.\<close>

fun block_cells :: "u64 \<times> u64 \<Rightarrow> u64 list" where "block_cells (a, c) = [a, a + 8]"

definition heap_cells :: "u64 \<Rightarrow> heap \<Rightarrow> u64 list" where
  "heap_cells base h = [base, base + 8] @ concat (map block_cells (free_blocks h))"

lemma free_list_cong:
  "(\<And>x. x \<in> set (concat (map block_cells fs)) \<Longrightarrow> ld64 m' x = ld64 m x) \<Longrightarrow> free_list m' p fs = free_list m p fs"
proof (induction fs arbitrary: p)
  case (Cons x fs)
  then show ?case by (cases x) auto
qed simp

lemma heap_at_cong:
  assumes "\<And>x. x \<in> set (heap_cells base h) \<Longrightarrow> ld64 m' x = ld64 m x"
  shows "heap_at m' base h = heap_at m base h"
proof -
  have "ld64 m' base = ld64 m base" "ld64 m' (base + 8) = ld64 m (base + 8)"
    using assms by (simp_all add: heap_cells_def)
  moreover have "free_list m' p (free_blocks h) = free_list m p (free_blocks h)" for p
    using assms by (intro free_list_cong) (simp add: heap_cells_def)
  ultimately show ?thesis by (simp add: heap_at_def)
qed

text \<open>A region that meets no block and not the first page of the heap is clear of the cells.\<close>

definition clear_of_heap :: "u64 \<Rightarrow> heap \<Rightarrow> u64 \<Rightarrow> nat \<Rightarrow> bool" where
  "clear_of_heap base h a n \<longleftrightarrow> sep a n base 16 \<and> list_all (\<lambda>x. sep a n (fst x) 16) (free_blocks h)"

lemma clear_cells:
  assumes "clear_of_heap base h a n" and "x \<in> set (heap_cells base h)"
  shows "sep a n x 8"
proof -
  have *: "sep a n b 8" "sep a n (b + 8) 8" if "sep a n b 16" for b
    using that sep_part [of b 16 a n 0 8] sep_left [of b 16 a n 0 8] sep_left [of b 16 a n 8 8] sep_sym by auto
  show ?thesis using assms * by (fastforce simp: clear_of_heap_def heap_cells_def list_all_iff)
qed

lemma heap_at_st64:
  "clear_of_heap base h a 8 \<Longrightarrow> heap_at (st64 m a v) base h = heap_at m base h"
  by (rule heap_at_cong) (simp add: ld64_st64_apart apart8_sep clear_cells)

lemma heap_at_st32:
  "clear_of_heap base h a 4 \<Longrightarrow> heap_at (st32 m a v) base h = heap_at m base h"
  by (rule heap_at_cong) (simp add: ld64_st32_sep clear_cells)

lemma heap_at_stos:
  "clear_of_heap base h a n \<Longrightarrow> heap_at (stos n a v m) base h = heap_at m base h"
  by (rule heap_at_cong) (simp add: ld64_stos_sep clear_cells)

lemma clear_sub:
  assumes "clear_of_heap base h a n" and "i + k \<le> n" and "0 < k"
  shows "clear_of_heap base h (a + of_nat i) k"
  using assms by (auto simp: clear_of_heap_def list_all_iff intro: sep_left)

text \<open>The first page is clear of the free blocks.\<close>

definition blocks_off :: "u64 \<Rightarrow> heap \<Rightarrow> bool" where
  "blocks_off base h \<longleftrightarrow> list_all (\<lambda>x. sep base 16 (fst x) 16) (free_blocks h)"

lemma free_list_off:
  assumes "blocks_off base h" and "y = base \<or> y = base + 8"
  shows "free_list (st64 m y v) p (free_blocks h) = free_list m p (free_blocks h)"
proof (rule free_list_cong)
  fix x assume "x \<in> set (concat (map block_cells (free_blocks h)))"
  then obtain b where b: "sep base 16 b 16" "x = b \<or> x = b + 8"
    using assms(1) by (auto simp: blocks_off_def list_all_iff)
  then show "ld64 (st64 m y v) x = ld64 m x"
    using sep_cells [OF b(1)] assms(2) by (auto simp: ld64_st64_apart)
qed

lemma apart8_self: "apart8 a (a + 8)" "apart8 (a + 8) a"
  by (simp_all add: apart8_def)

lemma heap_at_push:
  assumes "heap_at m base h" and "blocks_off base h" and "clear_of_heap base h a 16" and "a \<noteq> 0"
  shows "heap_at (st64 (st64 (st64 m a (ld64 m base)) (a + 8) c) base a) base (release_abs a c h)"
proof -
  have c: "clear_of_heap base h a 8" "clear_of_heap base h (a + 8) 8"
    using clear_sub [OF assms(3), of 0 8] clear_sub [OF assms(3), of 8 8] by simp_all
  let ?m = "st64 (st64 m a (ld64 m base)) (a + 8) c"
  have h: "heap_at ?m base h" using assms(1) c by (simp add: heap_at_st64)
  have "sep a 16 base 16" using assms(3) by (simp add: clear_of_heap_def)
  note s = sep_cells [OF this] sep_cells [OF this [unfolded sep_sym [of a]]]
  show ?thesis
    using h s assms(1,2,4)
    by (simp add: heap_at_def release_abs_def ld64_st64_apart apart8_self free_list_off)
qed

lemma heap_at_pop:
  assumes "heap_at m base h" and "blocks_off base h" and "free_blocks h = (a, c) # fs"
  shows "heap_at (st64 m base (ld64 m a)) base (h\<lparr>free_blocks := fs\<rparr>)"
proof -
  have o: "blocks_off base (h\<lparr>free_blocks := fs\<rparr>)" using assms(2,3) by (simp add: blocks_off_def)
  show ?thesis
    using assms(1,3) free_list_off [OF o]
    by (simp add: heap_at_def ld64_st64_apart apart8_self)
qed

lemma heap_at_bump:
  assumes "heap_at m base h" and "blocks_off base h" and "b \<noteq> 0"
  shows "heap_at (st64 m (base + 8) b) base (h\<lparr>bump := b\<rparr>)"
  using assms by (simp add: heap_at_def ld64_st64_apart apart8_self free_list_off)

text \<open>From the interval invariant to separation.\<close>

lemma inv_room:
  assumes "heap_inv base h used"
  shows "unat base + 4096 \<le> unat (bump h)"
  using assms by (simp add: heap_inv_def)

lemma inv_blocks_off:
  assumes "heap_inv base h used"
  shows "blocks_off base h"
proof -
  have "sep base 16 (fst x) 16" if "x \<in> set (free_blocks h)" for x
  proof (rule sep_intervals)
    have "block_ok base h x" using assms that by (simp add: heap_inv_def list_all_iff)
    then show "unat base + 16 \<le> unat (fst x) \<or> unat (fst x) + 16 \<le> unat base" "unat base + 16 < 2 ^ 64"
      "unat (fst x) + 16 < 2 ^ 64"
      using unat_u64_less [of "bump h"] by (auto simp: block_ok_def)
  qed simp_all
  then show ?thesis by (simp add: blocks_off_def list_all_iff)
qed

lemma inv_clear_used:
  assumes "heap_inv base h used" and "(a, c) \<in> set used"
  shows "clear_of_heap base h a (unat c)"
proof -
  have ok: "block_ok base h (a, c)" using assms by (simp add: heap_inv_def list_all_iff)
  then have ac: "16 \<le> unat c" "unat base + 4096 \<le> unat a" "unat a + unat c < 2 ^ 64"
    using unat_u64_less [of "bump h"] by (auto simp: block_ok_def)
  have "sep a (unat c) (fst x) 16" if "x \<in> set (free_blocks h)" for x
  proof -
    have "block_ok base h x" "disj_blocks x (a, c)"
      using assms that by (auto simp: heap_inv_def list_all_iff sorted_wrt_append)
    then show ?thesis using ac unat_u64_less [of "bump h"]
      by (intro sep_intervals) (auto simp: block_ok_def disj_blocks_def)
  qed
  then show ?thesis using ac by (auto simp: clear_of_heap_def list_all_iff intro!: sep_intervals)
qed

lemma inv_clear_above:
  assumes "heap_inv base h used" and "unat (bump h) \<le> unat a" and "unat a + n < 2 ^ 64" and "0 < n"
  shows "clear_of_heap base h a n"
proof -
  have "sep a n (fst x) 16" if "x \<in> set (free_blocks h)" for x
  proof -
    have "block_ok base h x" using assms that by (auto simp: heap_inv_def list_all_iff)
    then show ?thesis using assms unat_u64_less [of "bump h"]
      by (intro sep_intervals) (auto simp: block_ok_def)
  qed
  moreover have "sep a n base 16"
    using assms inv_room [OF assms(1)] by (intro sep_intervals) auto
  ultimately show ?thesis by (simp add: clear_of_heap_def list_all_iff)
qed


text \<open>The stack slot a snippet returns through lies above the heap.\<close>

definition stack_above :: "heap \<Rightarrow> nat \<Rightarrow> u64 \<Rightarrow> bool" where
  "stack_above h n sp \<longleftrightarrow> unat (bump h) + n \<le> unat sp \<and> unat sp + 8 < 2 ^ 64"

lemma stack_apart:
  assumes "stack_above h n sp" and "unat a + 8 \<le> unat (bump h) + n"
  shows "apart8 a sp"
  using assms unfolding apart8_sep stack_above_def by (intro sep_intervals) auto

lemma block_nonzero: "heap_inv base h used \<Longrightarrow> (a, c) \<in> set used \<Longrightarrow> a \<noteq> 0"
proof -
  assume "heap_inv base h used" and "(a, c) \<in> set used"
  then have "block_ok base h (a, c)" by (simp add: heap_inv_def list_all_iff)
  then show "a \<noteq> 0" by (auto simp: block_ok_def)
qed

lemma block_stack:
  assumes "heap_inv base h used" and "(a, c) \<in> set used" and "stack_above h n sp"
  shows "apart8 a sp" and "apart8 (a + 8) sp" and "apart8 base sp" and "apart8 (base + 8) sp"
proof -
  have ok: "block_ok base h (a, c)" using assms by (simp add: heap_inv_def list_all_iff)
  then have u: "unat (a + 8) = unat a + 8" "unat (base + 8) = unat base + 8"
    using inv_room [OF assms(1)] unat_u64_less [of "bump h"] by (auto simp: block_ok_def unat_add64)
  show "apart8 a sp" "apart8 (a + 8) sp" "apart8 base sp" "apart8 (base + 8) sp"
    using ok u inv_room [OF assms(1)] by (auto simp: block_ok_def intro!: stack_apart [OF assms(3)])
qed

lemma release_effect:
  assumes "heap_at (mem s) base h" and "heap_inv base h used" and "(regs s 0, regs s 6) \<in> set used"
    and "stack_above h 0 (regs s 4)"
  shows "\<exists>s'. leaves sys (release_code base) (0, s) (ld64 (mem s) (regs s 4), s') \<and> regs s' 4 = regs s 4 + 8
    \<and> (if push_bit 2 (ld64 (mem s) (regs s 0 + 8) - 1) = 0
       then heap_at (mem s') base (release_abs (regs s 0) (regs s 6) h)
       else heap_at (mem s') base h \<and> ld64 (mem s') (regs s 0 + 8) = ld64 (mem s) (regs s 0 + 8) - 1)"
proof -
  let ?a = "regs s 0" and ?c = "regs s 6"
  let ?w = "ld64 (mem s) (?a + 8) - 1"
  let ?m = "st64 (mem s) (?a + 8) ?w"
  note st = block_stack [OF assms(2,3,4)]
  have nz: "?a \<noteq> 0" by (rule block_nonzero [OF assms(2,3)])
  have ok: "block_ok base h (?a, ?c)" using assms(2,3) by (simp add: heap_inv_def list_all_iff)
  then have cl: "clear_of_heap base h ?a 16" "clear_of_heap base h (?a + 8) 8"
    using clear_sub [OF inv_clear_used [OF assms(2,3)], of 0 16] clear_sub [OF inv_clear_used [OF assms(2,3)], of 8 8]
    by (simp_all add: block_ok_def)
  have h: "heap_at ?m base h" using assms(1) cl(2) by (simp add: heap_at_st64)
  have ab: "apart8 (?a + 8) base" using cl(1) sep_cells(2) [of ?a 16 base 16] by (simp add: clear_of_heap_def)
  show ?thesis
  proof (cases "push_bit 2 ?w = 0")
    case True
    let ?m' = "st64 (st64 (st64 ?m ?a (ld64 (mem s) base)) (?a + 8) ?c) base ?a"
    obtain s' where r: "run sys (release_code base) 12 (0, s) = Some (ld64 (mem s') (regs s 4), s')"
      and m: "mem s' = ?m'" and g: "regs s' 4 = regs s 4 + 8"
      using release_free_run [OF nz refl True ab, of sys] by auto
    have "heap_at (mem s') base (release_abs ?a ?c h)"
      using heap_at_push [OF h inv_blocks_off [OF assms(2)] cl(1) nz, of ?c] ab
      by (simp add: m ld64_st64_apart)
    moreover have "ld64 (mem s') (regs s 4) = ld64 (mem s) (regs s 4)"
      using st by (simp add: m ld64_st64_apart)
    ultimately show ?thesis using run_leaves [OF r] g True by auto
  next
    case False
    obtain s' where r: "run sys (release_code base) 7 (0, s) = Some (ld64 ?m (regs s 4), s')"
      and m: "mem s' = ?m" and g: "regs s' 4 = regs s 4 + 8"
      using release_run [OF nz refl False, of sys base] by auto
    have "ld64 ?m (regs s 4) = ld64 (mem s) (regs s 4)" using st by (simp add: ld64_st64_apart)
    then show ?thesis using run_leaves [OF r] g h m False by auto
  qed
qed

section \<open>Allocation\<close>

lemma alloc_start:
  assumes "heap_at (mem s) base h" and "heap_inv base h used" and "stack_above h 8 (regs s 4)"
  shows "\<exists>t. steps sys (alloc_code base) (0, s) (32, t) \<and> heap_at (mem t) base h \<and> ld64 (mem t) (base + 8) = bump h
    \<and> ld64 (mem t) (regs s 4 - 8) = regs s 5 \<and> ld64 (mem t) (regs s 4) = ld64 (mem s) (regs s 4)
    \<and> regs t 10 = base \<and> regs t 4 = regs s 4 - 8 \<and> map (regs t) [3, 6, 12, 13, 14, 15] = map (regs s) [3, 6, 12, 13, 14, 15]"
proof -
  let ?sp = "regs s 4 - 8"
  have u: "unat ?sp = unat (regs s 4) - 8"
    using assms(3) by (auto simp: stack_above_def unat_sub64)
  have r: "unat base + 4096 \<le> unat (bump h)" by (rule inv_room [OF assms(2)])
  have c: "clear_of_heap base h ?sp 8"
    using assms(3) u by (intro inv_clear_above [OF assms(2)]) (auto simp: stack_above_def)
  let ?m = "st64 (mem s) ?sp (regs s 5)"
  have h: "heap_at ?m base h" using assms(1) c by (simp add: heap_at_st64)
  have x: "apart8 ?sp (regs s 4)" by (simp add: apart8_def)
  have "sep ?sp 8 base 16" using c by (simp add: clear_of_heap_def)
  note sp = sep_cells [OF this [unfolded sep_sym [of ?sp]]] sep_cells [OF this]
  have b: "base + 8 \<noteq> 0" "apart8 (base + 8) (regs s 4)" "base + 4096 \<noteq> 0"
  proof -
    have "unat (base + 8) = unat base + 8" "unat (base + 4096) = unat base + 4096"
      using r unat_u64_less [of "bump h"] by (simp_all add: unat_add64)
    then show "base + 8 \<noteq> 0" "apart8 (base + 8) (regs s 4)" "base + 4096 \<noteq> 0"
      using r by (auto intro!: stack_apart [OF assms(3)] simp del: unat_eq_zero)
  qed
  show ?thesis
  proof (cases "ld64 (mem s) (base + 8) = 0")
    case True
    then have bh: "bump h = base + 4096" using assms(1) by (simp add: heap_at_def)
    have "\<exists>t. walk sys (alloc_code base) 7 (0, s) = Some (32, t) \<and> mem t = st64 ?m (base + 8) (base + 4096)
      \<and> regs t 10 = base \<and> regs t 4 = ?sp \<and> map (regs t) [3, 6, 12, 13, 14, 15] = map (regs s) [3, 6, 12, 13, 14, 15]"
      using True sp by (simp add: ALLOC_REVISED_steps exec_simps ld64_st64_apart)
    then obtain t where w: "walk sys (alloc_code base) 7 (0, s) = Some (32, t)"
      and m: "mem t = st64 ?m (base + 8) (base + 4096)" and g: "regs t 10 = base" "regs t 4 = ?sp"
        "map (regs t) [3, 6, 12, 13, 14, 15] = map (regs s) [3, 6, 12, 13, 14, 15]" by blast
    have "heap_at (mem t) base (h\<lparr>bump := base + 4096\<rparr>)"
      unfolding m by (rule heap_at_bump [OF h inv_blocks_off [OF assms(2)] b(3)])
    moreover have "h\<lparr>bump := base + 4096\<rparr> = h" using bh by simp
    ultimately show ?thesis using walk_steps [OF w] g b sp bh x by (auto simp: m ld64_st64_apart)
  next
    case False
    have "\<exists>t. walk sys (alloc_code base) 5 (0, s) = Some (32, t) \<and> mem t = ?m
      \<and> regs t 10 = base \<and> regs t 4 = ?sp \<and> map (regs t) [3, 6, 12, 13, 14, 15] = map (regs s) [3, 6, 12, 13, 14, 15]"
      using False sp by (simp add: ALLOC_REVISED_steps exec_simps ld64_st64_apart)
    then obtain t where w: "walk sys (alloc_code base) 5 (0, s) = Some (32, t)"
      and m: "mem t = ?m" and g: "regs t 10 = base" "regs t 4 = ?sp"
        "map (regs t) [3, 6, 12, 13, 14, 15] = map (regs s) [3, 6, 12, 13, 14, 15]" by blast
    have "ld64 (mem t) (base + 8) = bump h" using False assms(1) sp by (simp add: m ld64_st64_apart heap_at_def)
    then show ?thesis using walk_steps [OF w] g h x by (auto simp: m ld64_st64_apart)
  qed
qed


lemma bump_run:
  assumes "regs t 10 = base"
  shows "\<exists>s'. run sys (alloc_code base) 10 (83, t) = Some (ld64 (mem s') (regs t 4 + 8), s')
    \<and> mem s' = st32 (st64 (mem t) (base + 8) (round16 (ld64 (mem t) (base + 8) + regs t 6))) (ld64 (mem t) (base + 8) + 8) 1
    \<and> regs s' 0 = ld64 (mem t) (base + 8) \<and> regs s' 5 = ld64 (mem s') (regs t 4) \<and> regs s' 4 = regs t 4 + 16
    \<and> map (regs s') [3, 12, 13, 14, 15] = map (regs t) [3, 12, 13, 14, 15]"
  using assms by (simp add: ALLOC_REVISED_steps exec_simps round16_def)

text \<open>The freelist is empty or its first block too small: on to the bump path.\<close>

lemma to_bump:
  assumes "heap_at (mem t) base h" and "regs t 10 = base" and "\<not> fits (regs t 6) h"
  shows "\<exists>t'. steps sys (alloc_code base) (32, t) (83, t') \<and> mem t' = mem t
    \<and> map (regs t') [3, 4, 6, 10, 12, 13, 14, 15] = map (regs t) [3, 4, 6, 10, 12, 13, 14, 15]"
proof (cases "free_blocks h")
  case Nil
  then have "ld64 (mem t) base = 0" using assms(1) by (simp add: heap_at_def)
  then have "\<exists>t'. walk sys (alloc_code base) 3 (32, t) = Some (83, t') \<and> mem t' = mem t
      \<and> map (regs t') [3, 4, 6, 10, 12, 13, 14, 15] = map (regs t) [3, 4, 6, 10, 12, 13, 14, 15]"
    using assms(2) by (simp add: ALLOC_REVISED_steps exec_simps)
  then show ?thesis using walk_steps by blast
next
  case (Cons x fs)
  obtain a c where x: "x = (a, c)" by (cases x)
  have f: "ld64 (mem t) base = a" "a \<noteq> 0" "ld64 (mem t) (a + 8) = c" "c < regs t 6"
    using assms(1,3) by (auto simp: heap_at_def Cons x fits_def not_le)
  then have "\<exists>t'. walk sys (alloc_code base) 6 (32, t) = Some (83, t') \<and> mem t' = mem t
      \<and> map (regs t') [3, 4, 6, 10, 12, 13, 14, 15] = map (regs t) [3, 4, 6, 10, 12, 13, 14, 15]"
    using assms(2) by (simp add: ALLOC_REVISED_steps exec_simps alu_carry_def)
  then show ?thesis using walk_steps by blast
qed

lemma recycle_run:
  assumes "regs t 10 = base" and "ld64 (mem t) base = a" and "a \<noteq> 0" and "ld64 (mem t) (a + 8) = c"
    and "\<not> c < regs t 6" and "unat (regs t 6) < 2 ^ 32"
  shows "\<exists>s'. run sys (alloc_code base) 19 (32, t) = Some (ld64 (mem s') (regs t 4 + 8), s')
    \<and> mem s' = stos (unat (regs t 6)) a 0 (st64 (st64 (mem t) base (ld64 (mem t) a)) (a + 8) 1)
    \<and> regs s' 0 = a \<and> regs s' 5 = ld64 (mem s') (regs t 4) \<and> regs s' 4 = regs t 4 + 16
    \<and> map (regs s') [3, 12, 13, 14, 15] = map (regs t) [3, 12, 13, 14, 15]"
proof -
  have "ucast (ucast (regs t 6) :: u32) = regs t 6"
    using assms(6) by (simp add: unsigned_ucast_eq word_unat_eq_iff unsigned_take_bit_eq take_bit_nat_eq_self)
  then show ?thesis using assms by (simp add: ALLOC_REVISED_steps exec_simps alu_carry_def)
qed


text \<open>A store below the stack keeps the two slots the allocator reads back, the saved frame pointer and the return address.\<close>

lemma slot_sep:
  assumes "sep x k sp 16" and "y = sp \<or> y = sp + 8" and "0 < k"
  shows "sep x k y 8"
  using assms sep_part [of x k sp 16 0 k 0 8] sep_part [of x k sp 16 0 k 8 8] by auto

lemma below_stack:
  assumes "stack_above h 24 (sp + 8)" and "8 \<le> unat (sp + 8)" and "unat x + k \<le> unat (bump h) + 16" and "0 < k"
    and "y = sp \<or> y = sp + 8"
  shows "sep x k y 8"
proof -
  have "unat sp = unat (sp + 8) - 8"
    using assms(2) unat_sub64 [of "sp + 8" 8] by simp
  then have "sep x k sp 16" using assms by (intro sep_intervals) (auto simp: stack_above_def)
  then show ?thesis using assms(4,5) by (intro slot_sep)
qed

lemma bump_effect:
  assumes h: "heap_at (mem t) base h" and i: "heap_inv base h used" and b: "ld64 (mem t) (base + 8) = bump h"
    and g: "regs t 10 = base" "regs t 4 = sp" and st: "stack_above h 24 (sp + 8)"
    and n: "16 \<le> unat (regs t 6)" and r: "unat (bump h) + unat (regs t 6) + 15 < 2 ^ 64"
  shows "\<exists>s'. leaves sys (alloc_code base) (83, t) (ld64 (mem t) (sp + 8), s') \<and> regs s' 0 = bump h
    \<and> heap_at (mem s') base (h\<lparr>bump := round16 (bump h + regs t 6)\<rparr>) \<and> regs s' 5 = ld64 (mem t) sp \<and> regs s' 4 = sp + 16
    \<and> map (regs s') [3, 12, 13, 14, 15] = map (regs t) [3, 12, 13, 14, 15] \<and> ld32 (mem s') (bump h + 8) = 1"
proof -
  let ?b' = "round16 (bump h + regs t 6)"
  let ?m = "st32 (st64 (mem t) (base + 8) ?b') (bump h + 8) 1"
  obtain s' where rn: "run sys (alloc_code base) 10 (83, t) = Some (ld64 (mem s') (sp + 8), s')" and m': "mem s' = ?m"
    and g2: "regs s' 0 = bump h" "regs s' 5 = ld64 (mem s') sp" "regs s' 4 = sp + 16"
      "map (regs s') [3, 12, 13, 14, 15] = map (regs t) [3, 12, 13, 14, 15]"
    using bump_run [of t base sys] g b by auto
  have u: "unat (bump h) + 24 \<le> unat (sp + 8)" "unat (sp + 8) + 8 < 2 ^ 64" using st by (simp_all add: stack_above_def)
  have room: "unat base + 4096 \<le> unat (bump h)" by (rule inv_room [OF i])
  have u8: "unat (bump h + 8) = unat (bump h) + 8" "unat (base + 8) = unat base + 8"
    using u room by (simp_all add: unat_add64)
  have "unat (bump h + regs t 6) = unat (bump h) + unat (regs t 6)" using r by (simp add: unat_add64)
  then have "?b' \<noteq> 0" using round16_bounds(1) [of "bump h + regs t 6"] n r by auto
  then have h1: "heap_at (st64 (mem t) (base + 8) ?b') base (h\<lparr>bump := ?b'\<rparr>)"
    by (rule heap_at_bump [OF h inv_blocks_off [OF i]])
  have "clear_of_heap base h (bump h + 8) 4" using u u8 by (intro inv_clear_above [OF i]) auto
  then have "clear_of_heap base (h\<lparr>bump := ?b'\<rparr>) (bump h + 8) 4" by (simp add: clear_of_heap_def)
  then have h2: "heap_at (mem s') base (h\<lparr>bump := ?b'\<rparr>)" unfolding m' using h1 by (simp add: heap_at_st32)
  have k: "ld64 ?m y = ld64 (mem t) y" if y: "y = sp \<or> y = sp + 8" for y
  proof -
    have "sep (bump h + 8) 4 y 8" "sep (base + 8) 8 y 8"
      using u u8 room by (auto intro!: below_stack [OF st _ _ _ y])
    then show ?thesis by (simp add: ld64_st32_sep ld64_st64_apart apart8_sep)
  qed
  show ?thesis using run_leaves [OF rn] h2 g2 k by (auto simp: m')
qed

lemma recycle_effect:
  assumes h: "heap_at (mem t) base h" and i: "heap_inv base h used" and f: "free_blocks h = (a, c) # fs" "regs t 6 \<le> c"
    and g: "regs t 10 = base" "regs t 4 = sp" and st: "stack_above h 24 (sp + 8)"
    and n: "16 \<le> unat (regs t 6)" "unat (regs t 6) < 2 ^ 32" and r: "unat (bump h) + unat (regs t 6) + 15 < 2 ^ 64"
  shows "\<exists>s'. leaves sys (alloc_code base) (32, t) (ld64 (mem t) (sp + 8), s') \<and> regs s' 0 = a
    \<and> heap_at (mem s') base (h\<lparr>free_blocks := fs\<rparr>) \<and> regs s' 5 = ld64 (mem t) sp \<and> regs s' 4 = sp + 16
    \<and> map (regs s') [3, 12, 13, 14, 15] = map (regs t) [3, 12, 13, 14, 15] \<and> ld64 (mem s') (a + 8) = 0"
proof -
  let ?n = "regs t 6" and ?h = "h\<lparr>free_blocks := fs\<rparr>"
  have hd: "ld64 (mem t) base = a" "a \<noteq> 0" "ld64 (mem t) (a + 8) = c" using h f by (auto simp: heap_at_def)
  let ?m1 = "st64 (mem t) base (ld64 (mem t) a)"
  let ?m = "stos (unat ?n) a 0 (st64 ?m1 (a + 8) 1)"
  have "\<not> c < ?n" using f(2) by simp
  then obtain s' where rn: "run sys (alloc_code base) 19 (32, t) = Some (ld64 (mem s') (sp + 8), s')" and m': "mem s' = ?m"
    and g2: "regs s' 0 = a" "regs s' 5 = ld64 (mem s') sp" "regs s' 4 = sp + 16"
      "map (regs s') [3, 12, 13, 14, 15] = map (regs t) [3, 12, 13, 14, 15]"
    using recycle_run [OF g(1) hd, of sys] n(2) unfolding g(2) by blast
  have "heap_inv base ?h ((a, ?n) # used)"
    using alloc_abs_inv [OF i n(1) r] f by (simp add: alloc_abs_def fits_def)
  then have cl: "clear_of_heap base ?h a (unat ?n)" by (rule inv_clear_used) simp
  have "clear_of_heap base ?h (a + 8) 8" using clear_sub [OF cl, of 8 8] n(1) by simp
  then have h2: "heap_at (mem s') base ?h"
    unfolding m' using heap_at_pop [OF h inv_blocks_off [OF i] f(1)] cl by (simp add: heap_at_stos heap_at_st64)
  have u: "unat (bump h) + 24 \<le> unat (sp + 8)" "unat a + unat c \<le> unat (bump h)" "unat base + 4096 \<le> unat a" "unat ?n \<le> unat c"
    using st i f by (auto simp: stack_above_def heap_inv_def block_ok_def word_le_nat_alt)
  have u8: "unat (a + 8) = unat a + 8" using u n(1) unat_u64_less [of "bump h"] by (simp add: unat_add64)
  have k: "ld64 ?m y = ld64 (mem t) y" if y: "y = sp \<or> y = sp + 8" for y
  proof -
    have "sep a (unat ?n) y 8" "sep (a + 8) 8 y 8" "sep base 8 y 8"
      using u u8 n(1) by (auto intro!: below_stack [OF st _ _ _ y])
    then show ?thesis by (simp add: ld64_stos_sep ld64_st64_apart apart8_sep)
  qed
  have "ld64 (mem s') (a + 8) = 0" using ld64_stos_zero [of 8 "unat ?n" a] n(1) by (simp add: m')
  then show ?thesis using run_leaves [OF rn] h2 g2 k by (auto simp: m')
qed

text \<open>What a call needs: room for the request below the stack, and a request of at least a header.\<close>

definition can_alloc :: "heap \<Rightarrow> u64 \<Rightarrow> u64 \<Rightarrow> bool" where
  "can_alloc h n sp \<longleftrightarrow> stack_above h 24 sp \<and> 16 \<le> unat n \<and> unat n < 2 ^ 32 \<and> unat (bump h) + unat n + 15 < 2 ^ 64"

lemma alloc_effect:
  assumes "heap_at (mem s) base h" and i: "heap_inv base h used" and c: "can_alloc h (regs s 6) (regs s 4)"
  shows "\<exists>s'. leaves sys (alloc_code base) (0, s) (ld64 (mem s) (regs s 4), s')
    \<and> regs s' 0 = fst (alloc_abs (regs s 6) h) \<and> heap_at (mem s') base (snd (alloc_abs (regs s 6) h))
    \<and> map (regs s') [3, 5, 12, 13, 14, 15] = map (regs s) [3, 5, 12, 13, 14, 15] \<and> regs s' 4 = regs s 4 + 8
    \<and> (if fits (regs s 6) h then ld64 (mem s') (regs s' 0 + 8) = 0 else ld32 (mem s') (regs s' 0 + 8) = 1)"
proof -
  let ?n = "regs s 6" and ?sp = "regs s 4 - 8"
  have st: "stack_above h 8 (regs s 4)" "stack_above h 24 (?sp + 8)" and n: "16 \<le> unat ?n" "unat ?n < 2 ^ 32"
    and r: "unat (bump h) + unat ?n + 15 < 2 ^ 64"
    using c by (simp_all add: can_alloc_def stack_above_def)
  obtain t where w: "steps sys (alloc_code base) (0, s) (32, t)" and h: "heap_at (mem t) base h"
    and b: "ld64 (mem t) (base + 8) = bump h" and m: "ld64 (mem t) ?sp = regs s 5" "ld64 (mem t) (regs s 4) = ld64 (mem s) (regs s 4)"
    and g: "regs t 10 = base" "regs t 4 = ?sp" "map (regs t) [3, 6, 12, 13, 14, 15] = map (regs s) [3, 6, 12, 13, 14, 15]"
    using alloc_start [OF assms(1) i st(1), of sys] by blast
  have e: "?sp + 8 = regs s 4" "?sp + 16 = regs s 4 + 8" "regs t 6 = ?n" using g(3) by simp_all
  show ?thesis
  proof (cases "fits ?n h")
    case False
    obtain t' where w': "steps sys (alloc_code base) (32, t) (83, t')" and m': "mem t' = mem t"
      and g': "map (regs t') [3, 4, 6, 10, 12, 13, 14, 15] = map (regs t) [3, 4, 6, 10, 12, 13, 14, 15]"
      using to_bump [OF h g(1)] False e(3) by auto
    then have "heap_at (mem t') base h" "ld64 (mem t') (base + 8) = bump h" "regs t' 10 = base" "regs t' 4 = ?sp"
      "regs t' 6 = ?n" using h b g e by auto
    then show ?thesis
      using bump_effect [OF _ i _ _ _ st(2), of t' sys] n r g(3) g' m' m e False steps_leaves [OF steps_trans [OF w w']]
      by (fastforce simp: alloc_abs_def)
  next
    case True
    then obtain a c fs where f: "free_blocks h = (a, c) # fs" "?n \<le> c" by (auto simp: fits_def split: list.splits)
    then show ?thesis
      using recycle_effect [OF h i f(1) _ g(1,2) st(2), of sys] n r g(3) m e True steps_leaves [OF w]
      by (fastforce simp: alloc_abs_def)
  qed
qed


section \<open>Concrete heaps\<close>

text \<open>An untouched heap, one with a block in use, and one with that block free.\<close>

abbreviation heap0 :: heap where "heap0 \<equiv> \<lparr>free_blocks = [], bump = 0x11000\<rparr>"
abbreviation heap1 :: heap where "heap1 \<equiv> \<lparr>free_blocks = [], bump = 0x11020\<rparr>"
abbreviation heap2 :: heap where "heap2 \<equiv> \<lparr>free_blocks = [(0x11000, 32)], bump = 0x11020\<rparr>"

definition mem1 :: "u64 \<Rightarrow> u8" where
  "mem1 = st64 (st64 (\<lambda>_. 0) 0x11008 1) 0x10008 0x11020"

definition mem2 :: "u64 \<Rightarrow> u8" where
  "mem2 = st64 (st64 (st64 (\<lambda>_. 0) 0x11008 32) 0x10008 0x11020) 0x10000 0x11000"

lemmas concrete = heap_at_def heap_inv_def block_ok_def disj_blocks_def can_alloc_def stack_above_def mem1_def mem2_def
  ld64_st64_apart apart8_def set_reg_def fits_def alloc_abs_def release_abs_def

lemma heaps_ok:
  "heap_at (\<lambda>_. 0) 0x10000 heap0" "heap_inv 0x10000 heap0 []"
  "heap_at mem1 0x10000 heap1" "heap_inv 0x10000 heap1 ([] @ (0x11000, 32) # [])"
  "heap_at mem2 0x10000 heap2" "heap_inv 0x10000 heap2 []"
  by (simp_all add: concrete)

abbreviation asks :: "u64 \<Rightarrow> (u64 \<Rightarrow> u8) \<Rightarrow> mstate" where
  "asks n m \<equiv> set_reg 6 n (machine 0x900000 m)"

abbreviation gives :: "(u64 \<Rightarrow> u8) \<Rightarrow> mstate" where
  "gives m \<equiv> set_reg 0 0x11000 (asks 32 m)"

section \<open>Properties\<close>



text \<open>
  C16. \<open>RELEASE\<close> of a block in use (its capacity in \<open>rsi\<close>) decrements its count; when only the two tag
  bits remain the block becomes the first free block and leaves the blocks in use, and otherwise the heap
  is unchanged.
\<close>

theorem release_refines:
  assumes "heap_at (mem s) base h" and "heap_inv base h (u1 @ (regs s 0, regs s 6) # u2)" and "stack_above h 0 (regs s 4)"
  shows "\<exists>s'. leaves sys (release_code base) (0, s) (ld64 (mem s) (regs s 4), s')
    \<and> (if push_bit 2 (ld64 (mem s) (regs s 0 + 8) - 1) = 0
       then heap_at (mem s') base (release_abs (regs s 0) (regs s 6) h)
         \<and> heap_inv base (release_abs (regs s 0) (regs s 6) h) (u1 @ u2)
       else heap_at (mem s') base h \<and> ld64 (mem s') (regs s 0 + 8) = ld64 (mem s) (regs s 0 + 8) - 1)"
proof -
  have "(regs s 0, regs s 6) \<in> set (u1 @ (regs s 0, regs s 6) # u2)" by simp
  then obtain s' where "leaves sys (release_code base) (0, s) (ld64 (mem s) (regs s 4), s')"
    "if push_bit 2 (ld64 (mem s) (regs s 0 + 8) - 1) = 0
       then heap_at (mem s') base (release_abs (regs s 0) (regs s 6) h)
       else heap_at (mem s') base h \<and> ld64 (mem s') (regs s 0 + 8) = ld64 (mem s) (regs s 0 + 8) - 1"
    using release_effect [OF assms(1,2) _ assms(3), of sys] by blast
  then show ?thesis using release_abs_inv [OF assms(2)] by auto
qed

theorem release_refines_witness:
  "\<exists>s'. leaves (\<lambda>_. None) (release_code 0x10000) (0, gives mem1) (0, s')
    \<and> heap_at (mem s') 0x10000 (release_abs 0x11000 32 heap1)"
  using release_refines [of "gives mem1" "0x10000" heap1 "[]" "[]" "\<lambda>_. None"] heaps_ok
  by (auto simp: concrete)

text \<open>
  The reference count of a new object is 1 when the block comes from the bump pointer, but 0 when it
  is recycled from the freelist: the snippet stores 1 and then clears the block with \<open>rep stosb\<close>, the
  count included.
\<close>

theorem new_refcount:
  assumes "heap_at (mem s) base h" and "heap_inv base h used" and "can_alloc h (regs s 6) (regs s 4)"
  shows "\<exists>s'. leaves sys (alloc_code base) (0, s) (ld64 (mem s) (regs s 4), s')
    \<and> (if fits (regs s 6) h then ld64 (mem s') (regs s' 0 + 8) = 0 else ld32 (mem s') (regs s' 0 + 8) = 1)"
  using alloc_effect [OF assms, of sys] by auto

theorem new_refcount_witness:
  "\<exists>s'. leaves (\<lambda>_. None) (alloc_code 0x10000) (0, asks 32 mem2) (0, s') \<and> ld64 (mem s') (regs s' 0 + 8) = 0"
  using new_refcount [of "asks 32 mem2" "0x10000" heap2 "[]" "\<lambda>_. None"] heaps_ok
  by (auto simp: concrete)

lemma retain_effect:
  assumes "heap_at (mem s) base h" and "heap_inv base h used" and "(regs s 0, c) \<in> set used"
    and "stack_above h 0 (regs s 4)"
  shows "\<exists>s'. leaves sys RETAIN (0, s) (ld64 (mem s) (regs s 4), s') \<and> heap_at (mem s') base h
    \<and> ld64 (mem s') (regs s 0 + 8) = ld64 (mem s) (regs s 0 + 8) + 1 \<and> regs s' = (regs s)(4 := regs s 4 + 8)"
proof -
  note st = block_stack [OF assms(2,3,4)]
  have "block_ok base h (regs s 0, c)" using assms(2,3) by (simp add: heap_inv_def list_all_iff)
  then have "clear_of_heap base h (regs s 0 + 8) 8"
    using clear_sub [OF inv_clear_used [OF assms(2,3)], of 8 8] by (simp add: block_ok_def)
  then have "heap_at (st64 (mem s) (regs s 0 + 8) v) base h" for v using assms(1) by (simp add: heap_at_st64)
  then show ?thesis
    using retain_run [OF block_nonzero [OF assms(2,3)] st(2), of sys] run_leaves by fastforce
qed

text \<open>
  \<open>RETAIN\<close> adds one reference to the object in \<open>rax\<close> and changes nothing else of the heap; on the
  null reference it does nothing.
\<close>

theorem retain_increments:
  assumes "heap_at (mem s) base h" and "heap_inv base h ((a, c) # used)" and "regs s 0 = a \<or> regs s 0 = 0"
    and "stack_above h 0 (regs s 4)"
  shows "\<exists>s'. leaves sys RETAIN (0, s) (ld64 (mem s) (regs s 4), s') \<and> regs s' = (regs s)(4 := regs s 4 + 8)
    \<and> heap_at (mem s') base h
    \<and> (if regs s 0 = 0 then mem s' = mem s else ld64 (mem s') (a + 8) = ld64 (mem s) (a + 8) + 1)"
proof (cases "regs s 0 = 0")
  case True
  obtain s' where "run sys RETAIN 3 (0, s) = Some (ld64 (mem s) (regs s 4), s')" "mem s' = mem s"
    "regs s' = (regs s)(4 := regs s 4 + 8)" using retain_null_run [OF True, of sys] by blast
  then show ?thesis using run_leaves assms(1) True by fastforce
next
  case False
  then have a: "regs s 0 = a" using assms(3) by simp
  have "(regs s 0, c) \<in> set ((a, c) # used)" by (simp add: a)
  from retain_effect [OF assms(1,2) this assms(4), of sys] show ?thesis using False a by auto
qed

theorem retain_increments_witness:
  "\<exists>s'. leaves (\<lambda>_. None) RETAIN (0, gives mem1) (0, s') \<and> ld64 (mem s') 0x11008 = 2"
  using retain_increments [of "gives mem1" "0x10000" heap1 "0x11000" 32 "[]" "\<lambda>_. None"] heaps_ok
  by (auto simp: concrete)

text \<open>
  C17. What the count of 0 leads to: an object recycled from the freelist is retained once and released
  once, so its creator still holds it, and yet the release puts the block back on the freelist; the next
  allocation that fits returns the same address. (With a block from the bump pointer the same sequence
  leaves the count at 1.)
\<close>

theorem recycled_freed_early:
  assumes "heap_at (mem s) base h" and "heap_inv base h used" and "can_alloc h (regs s 6) (regs s 4)"
    and "fits (regs s 6) h" and "stack_above (snd (alloc_abs (regs s 6) h)) 0 (regs s 4)"
  shows "\<exists>s1 s2 s3. leaves sys (alloc_code base) (0, s) (ld64 (mem s) (regs s 4), s1)
    \<and> leaves sys RETAIN (0, set_reg 4 (regs s 4) s1) (ld64 (mem s1) (regs s 4), s2)
    \<and> leaves sys (release_code base) (0, set_reg 4 (regs s 4) (set_reg 6 (regs s 6) s2)) (ld64 (mem s2) (regs s 4), s3)
    \<and> heap_at (mem s3) base (release_abs (regs s1 0) (regs s 6) (snd (alloc_abs (regs s 6) h)))"
proof -
  let ?n = "regs s 6" and ?sp = "regs s 4"
  let ?h = "snd (alloc_abs ?n h)"
  obtain s1 where l1: "leaves sys (alloc_code base) (0, s) (ld64 (mem s) ?sp, s1)"
    and r1: "regs s1 0 = fst (alloc_abs ?n h)" and h1: "heap_at (mem s1) base ?h" and z: "ld64 (mem s1) (regs s1 0 + 8) = 0"
    using alloc_effect [OF assms(1-3), of sys] assms(4) by auto
  have i: "heap_inv base ?h ((regs s1 0, ?n) # used)"
    using alloc_abs_inv [OF assms(2)] assms(3) r1 by (simp add: can_alloc_def)
  let ?t1 = "set_reg 4 ?sp s1"
  have t1: "mem ?t1 = mem s1" "regs ?t1 0 = regs s1 0" "regs ?t1 4 = ?sp" by (simp_all add: set_reg_def)
  obtain s2 where l2: "leaves sys RETAIN (0, ?t1) (ld64 (mem s1) ?sp, s2)" and h2: "heap_at (mem s2) base ?h"
    and o2: "ld64 (mem s2) (regs s1 0 + 8) = 1" and r2: "regs s2 = (regs ?t1)(4 := ?sp + 8)"
    using retain_effect [of ?t1 base ?h _ ?n sys, unfolded t1, OF h1 i _ assms(5)] z by auto
  let ?t2 = "set_reg 4 ?sp (set_reg 6 ?n s2)"
  have t2: "mem ?t2 = mem s2" "regs ?t2 0 = regs s1 0" "regs ?t2 4 = ?sp" "regs ?t2 6 = ?n"
    using r2 t1(2) by (simp_all add: set_reg_def)
  obtain s3 where "leaves sys (release_code base) (0, ?t2) (ld64 (mem s2) ?sp, s3)"
    "heap_at (mem s3) base (release_abs (regs s1 0) ?n ?h)"
    using release_effect [of ?t2 base ?h _ sys, unfolded t2, OF h2 i _ assms(5)] o2 by auto
  then show ?thesis using l1 l2 by blast
qed

theorem recycled_freed_early_witness:
  "\<exists>s1 s2 s3. leaves (\<lambda>_. None) (alloc_code 0x10000) (0, asks 32 mem2) (0, s1)
    \<and> leaves (\<lambda>_. None) RETAIN (0, set_reg 4 0x900000 s1) (ld64 (mem s1) 0x900000, s2)
    \<and> leaves (\<lambda>_. None) (release_code 0x10000) (0, set_reg 4 0x900000 (set_reg 6 32 s2)) (ld64 (mem s2) 0x900000, s3)
    \<and> heap_at (mem s3) 0x10000 (release_abs (regs s1 0) 32 heap1)"
  using recycled_freed_early [of "asks 32 mem2" "0x10000" heap2 "[]" "\<lambda>_. None"] heaps_ok
  by (simp add: concrete)

end
