(* ===== verification/Itoa.thy ===== *)
theory Itoa
  imports Runtime_Code Regions Decimal
begin

text \<open>
  \<open>ITOA\<close> and \<open>itoa_to_fd\<close> of \<open>src/x86/runtime.rs\<close> on the processor model: whatever the 64-bit value, the
  system call the snippet makes writes its decimal text.
\<close>

section \<open>The code\<close>

lemma itoa_bytes: "itoa_to_fd fd = take 72 ITOA @ ucast fd # drop 73 ITOA"
  by (simp add: itoa_to_fd_def upd_conv_take_nth_drop)

lemma ITOA_to_fd: "ITOA = itoa_to_fd 1"
  by (simp add: itoa_bytes ITOA_def)

lemma itoa_code: "disassemble 30 0 (itoa_to_fd fd) =
     [(0, AluImm Sub (Reg 4) 32, 4), (4, Mov (Reg 9) (Reg 4), 3), (7, Mov (Reg 8) (Reg 4), 3), (10, Alu32 Xor (Reg
      1) (Reg 1), 2), (12, Alu Test (Reg 0) (Reg 0), 3), (15, Jcc 9 10, 2), (17, MovImm8 (Mem 9 None 0) 45, 4),
      (21, Inc (Reg 9), 3), (24, Neg (Reg 0), 3), (27, Alu32 Xor (Reg 2) (Reg 2), 2), (29, MovImm32 (Reg 11) 10,
      6), (35, Div (Reg 11), 3), (38, AluImm8 Add (Reg 2) 48, 3), (41, Push 2, 1), (42, Inc (Reg 1), 3), (45,
      Alu Test (Reg 0) (Reg 0), 3), (48, Jcc 5 (- 23), 2), (50, Pop 2, 1), (51, Mov8 (Mem 9 None 0) (Reg 2), 3),
      (54, Inc (Reg 9), 3), (57, Dec (Reg 1), 3), (60, Jcc 5 (- 12), 2), (62, Mov (Reg 6) (Reg 8), 3), (65, Mov
      (Reg 2) (Reg 9), 3), (68, Alu Sub (Reg 2) (Reg 6), 3), (71, MovImm32 (Reg 7) (ucast (ucast fd :: u8)), 5), (76, MovImm32
      (Reg 0) 1, 5), (81, Syscall, 2), (83, AluImm Add (Reg 4) 32, 4), (87, Ret, 1)]"
  by (simp add: itoa_bytes ITOA_def decode_simps sx8_def sx32_def)

lemmas itoa_steps = listing [OF itoa_code, unfolded step_list]

section \<open>The digit loop\<close>

text \<open>Digits on the machine stack, the top first.\<close>

fun stacked :: "(u64 \<Rightarrow> u8) \<Rightarrow> u64 \<Rightarrow> nat list \<Rightarrow> bool" where
  "stacked m p [] \<longleftrightarrow> True"
| "stacked m p (d # ds) \<longleftrightarrow> ld64 m p = of_nat (48 + d) \<and> stacked m (p + 8) ds"

lemma digit_char:
  "d < 10 \<Longrightarrow> (of_nat d AND NOT 0xFF) OR ucast (ucast (of_nat d :: u64) + 0x30 :: u8) = (of_nat (48 + d) :: u64)"
proof -
  assume "d < 10"
  then have "d \<in> {0, 1, 2, 3, 4, 5, 6, 7, 8, 9}" by auto
  then show ?thesis by auto
qed

lemma div10:
  assumes "regs s 2 = 0" and "regs s 11 = 10" and "regs s 0 = of_nat v" and "v < 2 ^ 64"
  shows "exec (Div (Reg 11)) s = Some (set_reg 2 (of_nat (v mod 10)) (set_reg 0 (of_nat (v div 10)) s))"
proof -
  have u: "uint (of_nat v :: u64) = int v" using assms(4) by (simp add: uint_nat)
  have "int v div 10 = int (v div 10)" "int v mod 10 = int (v mod 10)" by (simp_all add: zdiv_int zmod_int)
  then have q: "(of_int (int v div 10) :: u64) = of_nat (v div 10)" "(of_int (int v mod 10) :: u64) = of_nat (v mod 10)"
    by (simp_all only: of_int_of_nat_eq)
  have "v div 10 < 2 ^ 64" using assms(4) div_le_dividend [of v 10] by (rule le_less_trans [rotated])
  then have b: "int v div 10 < 2 ^ 64" by (simp flip: zdiv_int)
  show ?thesis using assms u q b by (simp add: Let_def)
qed

lemma push_digit:
  assumes "regs t 2 = of_nat d" and "d < 10"
  shows "\<exists>t'. walk sys (itoa_to_fd fd) 5 (38, t) = Some (if regs t 0 = 0 then 50 else 27, t')
    \<and> mem t' = st64 (mem t) (regs t 4 - 8) (of_nat (48 + d)) \<and> regs t' 0 = regs t 0
    \<and> regs t' 1 = regs t 1 + 1 \<and> regs t' 4 = regs t 4 - 8 \<and> regs t' 8 = regs t 8 \<and> regs t' 9 = regs t 9"
  using digit_char [OF assms(2)] by (simp add: itoa_steps exec_simps assms(1))

lemma divide:
  assumes "regs t 0 = of_nat v" and "v < 2 ^ 64"
  shows "\<exists>t'. steps sys (itoa_to_fd fd) (27, t) (38, t') \<and> mem t' = mem t \<and> regs t' 0 = of_nat (v div 10)
    \<and> regs t' 2 = of_nat (v mod 10) \<and> map (regs t') [1, 4, 8, 9] = map (regs t) [1, 4, 8, 9]"
proof -
  have "\<exists>t1. walk sys (itoa_to_fd fd) 2 (27, t) = Some (35, t1) \<and> mem t1 = mem t \<and> regs t1 2 = 0 \<and> regs t1 11 = 10
    \<and> map (regs t1) [0, 1, 4, 8, 9] = map (regs t) [0, 1, 4, 8, 9]"
    by (simp add: itoa_steps exec_simps)
  then obtain t1 where w: "walk sys (itoa_to_fd fd) 2 (27, t) = Some (35, t1)" and m: "mem t1 = mem t"
    and r: "regs t1 2 = 0" "regs t1 11 = 10" "map (regs t1) [0, 1, 4, 8, 9] = map (regs t) [0, 1, 4, 8, 9]" by blast
  have "step sys (itoa_to_fd fd) (35, t1) = Some (Next 38, set_reg 2 (of_nat (v mod 10)) (set_reg 0 (of_nat (v div 10)) t1))"
    using div10 [OF r(1,2), of v] r(3) assms by (simp add: itoa_steps del: exec.simps)
  then have "steps sys (itoa_to_fd fd) (27, t) (38, set_reg 2 (of_nat (v mod 10)) (set_reg 0 (of_nat (v div 10)) t1))"
    by (rule steps_trans [OF walk_steps [OF w] steps_step [OF _ steps_refl]])
  then show ?thesis using m r by (auto intro!: exI simp: set_reg_def)
qed

lemma div_body:
  assumes "regs t 0 = of_nat v" and "v < 2 ^ 64"
  shows "\<exists>t'. steps sys (itoa_to_fd fd) (27, t) (if v < 10 then 50 else 27, t')
    \<and> mem t' = st64 (mem t) (regs t 4 - 8) (of_nat (48 + v mod 10)) \<and> regs t' 0 = of_nat (v div 10)
    \<and> regs t' 1 = regs t 1 + 1 \<and> regs t' 4 = regs t 4 - 8 \<and> regs t' 8 = regs t 8 \<and> regs t' 9 = regs t 9"
proof -
  have z: "(of_nat (v div 10) :: u64) = 0 \<longleftrightarrow> v < 10"
    using assms(2) by (auto simp: word_unat_eq_iff)
  obtain t1 where w: "steps sys (itoa_to_fd fd) (27, t) (38, t1)" and m: "mem t1 = mem t"
    and r: "regs t1 0 = of_nat (v div 10)" "regs t1 2 = of_nat (v mod 10)"
      "map (regs t1) [1, 4, 8, 9] = map (regs t) [1, 4, 8, 9]"
    using divide [OF assms, of sys fd] by blast
  have "v mod 10 < 10" by simp
  from push_digit [OF r(2) this, of sys fd] obtain t2
    where "walk sys (itoa_to_fd fd) 5 (38, t1) = Some (if v < 10 then 50 else 27, t2)"
      "mem t2 = st64 (mem t) (regs t 4 - 8) (of_nat (48 + v mod 10))" "regs t2 0 = of_nat (v div 10)"
      "regs t2 1 = regs t 1 + 1" "regs t2 4 = regs t 4 - 8" "regs t2 8 = regs t 8" "regs t2 9 = regs t 9"
    using m r z by auto
  then show ?thesis using steps_trans [OF w walk_steps] by blast
qed

lemma stacked_cong:
  "(\<And>i. i < length ds \<Longrightarrow> ld64 m' (p + of_nat (8 * i)) = ld64 m (p + of_nat (8 * i))) \<Longrightarrow> stacked m' p ds = stacked m p ds"
proof (induction ds arbitrary: p)
  case (Cons d ds)
  have "stacked m' (p + 8) ds = stacked m (p + 8) ds"
  proof (rule Cons.IH)
    fix i assume "i < length ds"
    then show "ld64 m' (p + 8 + of_nat (8 * i)) = ld64 m (p + 8 + of_nat (8 * i))"
      using Cons.prems [of "Suc i"] by (simp add: algebra_simps)
  qed
  then show ?case using Cons.prems [of 0] by simp
qed simp

lemma stacked_st64:
  assumes "sep a 8 p (8 * length ds)"
  shows "stacked (st64 m a v) p ds = stacked m p ds"
proof (rule stacked_cong)
  fix i assume i: "i < length ds"
  have "sep a 8 (p + of_nat (8 * i)) 8"
    using sep_part [OF assms, of 0 8 "8 * i" 8] i by simp
  then show "ld64 (st64 m a v) (p + of_nat (8 * i)) = ld64 m (p + of_nat (8 * i))"
    by (simp add: ld64_st64_apart apart8_sep)
qed

lemma push_sep: "n \<le> 2 ^ 63 \<Longrightarrow> sep (p - 8) 8 p n"
  by (simp add: sep_def)

text \<open>Memory is unchanged outside the \<open>n\<close> bytes at \<open>a\<close>.\<close>

definition only_at :: "u64 \<Rightarrow> nat \<Rightarrow> (u64 \<Rightarrow> u8) \<Rightarrow> (u64 \<Rightarrow> u8) \<Rightarrow> bool" where
  "only_at a n m m' \<longleftrightarrow> (\<forall>x. (\<forall>j<n. x \<noteq> a + of_nat j) \<longrightarrow> m' x = m x)"

lemma only_at_st64: "only_at a 8 m (st64 m a v)"
  unfolding only_at_def by (auto intro: st64_other)

lemma only_at_append:
  assumes "only_at (a + of_nat n) k m m1" and "only_at a n m1 m2"
  shows "only_at a (n + k) m m2"
  unfolding only_at_def
proof (intro allI impI)
  fix x assume x: "\<forall>j<n + k. x \<noteq> a + of_nat j"
  then have "m2 x = m1 x" using assms(2) by (simp add: only_at_def)
  moreover have "x \<noteq> a + of_nat n + of_nat j" if "j < k" for j
    using x [rule_format, of "n + j"] that by (simp add: add.assoc)
  then have "m1 x = m x" using assms(1) by (simp add: only_at_def)
  ultimately show "m2 x = m x" by simp
qed

lemma div_loop:
  assumes "regs t 0 = of_nat v" and "v < 2 ^ 64" and "stacked (mem t) (regs t 4) ds" and "length ds + length (digits v) \<le> 100"
  shows "\<exists>t'. steps sys (itoa_to_fd fd) (27, t) (50, t')
    \<and> stacked (mem t') (regs t' 4) (digits v @ ds) \<and> regs t' 4 = regs t 4 - of_nat (8 * length (digits v))
    \<and> only_at (regs t' 4) (8 * length (digits v)) (mem t) (mem t')
    \<and> regs t' 1 = regs t 1 + of_nat (length (digits v)) \<and> regs t' 8 = regs t 8 \<and> regs t' 9 = regs t 9"
  using assms
proof (induction v arbitrary: t ds rule: digits.induct)
  case (1 v)
  obtain t1 where w: "steps sys (itoa_to_fd fd) (27, t) (if v < 10 then 50 else 27, t1)"
    and m: "mem t1 = st64 (mem t) (regs t 4 - 8) (of_nat (48 + v mod 10))" and a: "regs t1 0 = of_nat (v div 10)"
    and g: "regs t1 1 = regs t 1 + 1" "regs t1 4 = regs t 4 - 8" "regs t1 8 = regs t 8" "regs t1 9 = regs t 9"
    using div_body [OF 1(2,3), of sys fd] by blast
  have st: "stacked (mem t1) (regs t1 4) (v mod 10 # ds)"
    using 1(4,5) stacked_st64 [of "regs t 4 - 8" "regs t 4" ds] push_sep [of "8 * length ds" "regs t 4"] by (simp add: m g)
  have o: "only_at (regs t1 4) 8 (mem t) (mem t1)" by (simp add: m g only_at_st64)
  show ?case
  proof (cases "v < 10")
    case True
    then have "digits v = [v]" by (simp add: digits.simps [of v])
    then show ?thesis using w st o g True by auto
  next
    case False
    then have d: "digits v = digits (v div 10) @ [v mod 10]" by (subst digits.simps) simp
    have vd: "v div 10 < 2 ^ 64" using 1(3) div_le_dividend [of v 10] by (rule le_less_trans [rotated])
    have le: "length (v mod 10 # ds) + length (digits (v div 10)) \<le> 100" using 1(5) d by simp
    obtain t2 where w2: "steps sys (itoa_to_fd fd) (27, t1) (50, t2)"
      and s2: "stacked (mem t2) (regs t2 4) (digits (v div 10) @ v mod 10 # ds)"
      and p2: "regs t2 4 = regs t1 4 - of_nat (8 * length (digits (v div 10)))"
      and o2: "only_at (regs t2 4) (8 * length (digits (v div 10))) (mem t1) (mem t2)"
      and g2: "regs t2 1 = regs t1 1 + of_nat (length (digits (v div 10)))" "regs t2 8 = regs t1 8" "regs t2 9 = regs t1 9"
      using 1(1) [OF False a vd st le] by blast
    have "only_at (regs t2 4) (8 * length (digits (v div 10)) + 8) (mem t) (mem t2)"
      by (rule only_at_append [OF _ o2]) (use o p2 in simp)
    then have "only_at (regs t2 4) (8 * length (digits v)) (mem t) (mem t2)"
      by (simp add: d algebra_simps)
    moreover have "regs t2 4 = regs t 4 - of_nat (8 * length (digits v))"
      using p2 g by (simp add: d algebra_simps)
    moreover have "regs t2 1 = regs t 1 + of_nat (length (digits v))"
      using g2 g by (simp add: d)
    moreover have "stacked (mem t2) (regs t2 4) (digits v @ ds)" using s2 by (simp add: d)
    ultimately show ?thesis
      using steps_trans [OF w [unfolded if_not_P [OF False]] w2] g2 g by metis
  qed
qed

section \<open>The fill loop\<close>

text \<open>The bytes at \<open>a\<close>.\<close>

definition bytes_at :: "(u64 \<Rightarrow> u8) \<Rightarrow> u64 \<Rightarrow> nat \<Rightarrow> bytes" where
  "bytes_at m a n = map (\<lambda>i. m (a + of_nat i)) [0..<n]"

lemma fill_body:
  assumes "ld64 (mem t) (regs t 4) = of_nat (48 + d)" and "d < 10"
  shows "\<exists>t'. walk sys (itoa_to_fd fd) 5 (50, t) = Some (if regs t 1 = 1 then 62 else 50, t')
    \<and> mem t' = (mem t)(regs t 9 := of_nat (48 + d)) \<and> regs t' 1 = regs t 1 - 1 \<and> regs t' 4 = regs t 4 + 8
    \<and> regs t' 8 = regs t 8 \<and> regs t' 9 = regs t 9 + 1"
proof -
  have "ucast (of_nat (48 + d) :: u64) = (of_nat (48 + d) :: u8)" 
  proof -
    have "d \<in> {0, 1, 2, 3, 4, 5, 6, 7, 8, 9}" using assms(2) by auto
    then show ?thesis by auto
  qed
  then show ?thesis using assms by (simp add: itoa_steps exec_simps)
qed


abbreviation chars :: "nat list \<Rightarrow> bytes" where "chars ds \<equiv> map (\<lambda>d. of_nat (48 + d)) ds"

lemma bytes_at_Suc: "bytes_at m a (Suc n) = m a # bytes_at m (a + 1) n"
proof -
  have "[0..<Suc n] = 0 # map Suc [0..<n]" by (simp add: upt_conv_Cons map_Suc_upt del: upt_Suc)
  then show ?thesis by (simp add: bytes_at_def algebra_simps del: upt_Suc)
qed

lemma stacked_byte:
  assumes "sep a 1 p (8 * length ds)"
  shows "stacked (m(a := b)) p ds = stacked m p ds"
proof (rule stacked_cong)
  fix i assume i: "i < length ds"
  have "sep a 1 (p + of_nat (8 * i)) 8"
    using sep_part [OF assms, of 0 1 "8 * i" 8] i by simp
  then show "ld64 (m(a := b)) (p + of_nat (8 * i)) = ld64 m (p + of_nat (8 * i))"
    using sep_byte_other [of a 1 "p + of_nat (8 * i)" 8 _ 0] by (intro ld64_cong) simp
qed

lemma fill_loop:
  assumes "stacked (mem t) (regs t 4) (d # ds)" and "d < 10" and "list_all (\<lambda>d. d < 10) ds"
    and "regs t 1 = of_nat (length (d # ds))" and "length (d # ds) \<le> 20"
    and "sep (regs t 9) (length (d # ds)) (regs t 4) (8 * length (d # ds))"
  shows "\<exists>t'. steps sys (itoa_to_fd fd) (50, t) (62, t') \<and> bytes_at (mem t') (regs t 9) (length (d # ds)) = chars (d # ds)
    \<and> only_at (regs t 9) (length (d # ds)) (mem t) (mem t')
    \<and> regs t' 4 = regs t 4 + of_nat (8 * length (d # ds)) \<and> regs t' 9 = regs t 9 + of_nat (length (d # ds)) \<and> regs t' 8 = regs t 8"
  using assms
proof (induction ds arbitrary: t d)
  case Nil
  obtain t1 where w: "walk sys (itoa_to_fd fd) 5 (50, t) = Some (62, t1)"
    and "mem t1 = (mem t)(regs t 9 := of_nat (48 + d))" "regs t1 4 = regs t 4 + 8" "regs t1 8 = regs t 8" "regs t1 9 = regs t 9 + 1"
    using fill_body [of t d sys fd] Nil.prems by auto
  then show ?case using walk_steps [OF w] by (auto simp: bytes_at_def only_at_def intro!: exI [of _ t1])
next
  case (Cons e ds)
  let ?n = "length (e # ds)" and ?a = "regs t 9" and ?p = "regs t 4"
  have one: "regs t 1 \<noteq> 1"
  proof
    assume "regs t 1 = 1"
    then have "unat (of_nat (Suc ?n) :: u64) = 1" using Cons.prems(4) by simp
    then show False using Cons.prems(5) unat_of_nat_u64 [of "Suc ?n"] by simp
  qed
  obtain t1 where w: "walk sys (itoa_to_fd fd) 5 (50, t) = Some (50, t1)"
    and m: "mem t1 = (mem t)(?a := of_nat (48 + d))" and g: "regs t1 1 = regs t 1 - 1" "regs t1 4 = ?p + 8"
      "regs t1 8 = regs t 8" "regs t1 9 = ?a + 1"
    using fill_body [of t d sys fd] Cons.prems(1,2) one by auto
  have s1: "sep ?a 1 (?p + 8) (8 * ?n)" and s2: "sep (?a + 1) ?n (?p + 8) (8 * ?n)"
    using sep_part [OF Cons.prems(6), of 0 1 8 "8 * ?n"] sep_part [OF Cons.prems(6), of 1 ?n 8 "8 * ?n"] by simp_all
  have "stacked (mem t1) (regs t1 4) (e # ds)"
    unfolding m g(2) stacked_byte [OF s1] using Cons.prems(1) by simp
  moreover have "regs t1 1 = of_nat ?n" using Cons.prems(4) g(1) by simp
  ultimately obtain t2 where w2: "steps sys (itoa_to_fd fd) (50, t1) (62, t2)"
    and b2: "bytes_at (mem t2) (?a + 1) ?n = chars (e # ds)" and o2: "only_at (?a + 1) ?n (mem t1) (mem t2)"
    and g2: "regs t2 4 = ?p + 8 + of_nat (8 * ?n)" "regs t2 9 = ?a + 1 + of_nat ?n" "regs t2 8 = regs t 8"
    using Cons.IH [of t1 e] Cons.prems(3,5) s2 unfolding g by auto
  have "?a \<noteq> ?a + 1 + of_nat j" if "j < ?n" for j
  proof
    assume "?a = ?a + 1 + of_nat j"
    then have "(of_nat (Suc j) :: u64) = 0" by (simp add: algebra_simps)
    then have "unat (of_nat (Suc j) :: u64) = 0" by (simp only: unsigned_0)
    then show False using that Cons.prems(5) unat_of_nat_u64 [of "Suc j"] by simp
  qed
  then have "mem t2 ?a = of_nat (48 + d)" using o2 m by (simp add: only_at_def)
  then have b: "bytes_at (mem t2) ?a (length (d # e # ds)) = chars (d # e # ds)"
    using b2 by (simp add: bytes_at_Suc)
  have "only_at ?a (length (d # e # ds)) (mem t) (mem t2)"
    unfolding only_at_def
  proof (intro allI impI)
    fix x assume x: "\<forall>j<length (d # e # ds). x \<noteq> ?a + of_nat j"
    have "x \<noteq> ?a + 1 + of_nat j" if "j < ?n" for j using x [rule_format, of "Suc j"] that by (simp add: algebra_simps)
    then have "mem t2 x = mem t1 x" using o2 by (simp add: only_at_def)
    moreover have "x \<noteq> ?a" using x [rule_format, of 0] by simp
    ultimately show "mem t2 x = mem t x" by (simp add: m)
  qed
  then show ?case
    using steps_trans [OF walk_steps [OF w] w2] b g2 by (intro exI [of _ t2]) (simp add: algebra_simps)
qed


section \<open>The whole snippet\<close>

text \<open>The sign: a minus in the buffer and the magnitude in \<open>rax\<close>.\<close>

lemma sign_part:
  assumes "sp = regs s 4 - 32" and "z = sint (regs s 0)"
  shows "\<exists>t. steps sys (itoa_to_fd fd) (0, s) (27, t) \<and> regs t 0 = of_nat (nat \<bar>z\<bar>) \<and> regs t 1 = 0 \<and> regs t 4 = sp \<and> regs t 8 = sp
    \<and> (if z < 0 then regs t 9 = sp + 1 \<and> mem t = (mem s)(sp := 0x2D) else regs t 9 = sp \<and> mem t = mem s)"
proof (cases "z < 0")
  case True
  have "of_nat (nat \<bar>z\<bar>) = - regs s 0" using True by (simp add: assms(2))
  then have "\<exists>t. walk sys (itoa_to_fd fd) 9 (0, s) = Some (27, t) \<and> regs t 0 = of_nat (nat \<bar>z\<bar>) \<and> regs t 1 = 0 \<and> regs t 4 = sp \<and> regs t 8 = sp
    \<and> regs t 9 = sp + 1 \<and> mem t = (mem s)(sp := 0x2D)"
    using True assms by (simp add: itoa_steps exec_simps)
  then show ?thesis using True walk_steps by fastforce
next
  case False
  have "of_nat (nat \<bar>z\<bar>) = regs s 0" using False by (simp add: assms(2))
  then have "\<exists>t. walk sys (itoa_to_fd fd) 6 (0, s) = Some (27, t) \<and> regs t 0 = of_nat (nat \<bar>z\<bar>) \<and> regs t 1 = 0 \<and> regs t 4 = sp \<and> regs t 8 = sp
    \<and> regs t 9 = sp \<and> mem t = mem s"
    using False assms by (simp add: itoa_steps exec_simps)
  then show ?thesis using False walk_steps by fastforce
qed


text \<open>A kernel that carries out the call: a result in \<open>rax\<close>, \<open>rcx\<close> and \<open>r11\<close> clobbered, all else kept.\<close>

definition kernel :: "(mstate \<Rightarrow> u64) \<Rightarrow> mstate \<Rightarrow> mstate option" where
  "kernel f t = Some (set_reg 11 (f t) (set_reg 1 (f t) (set_reg 0 (f t) t)))"

lemma only_at_ld64: "only_at a n m m' \<Longrightarrow> sep a n b 8 \<Longrightarrow> ld64 m' b = ld64 m b"
  by (rule ld64_cong) (metis (no_types) only_at_def sep_byte_other)

lemma write_part:
  "\<exists>t'. walk sys (itoa_to_fd fd) 5 (62, t) = Some (81, t') \<and> mem t' = mem t \<and> regs t' 0 = 1 \<and> regs t' 7 = take_bit 8 (ucast fd)
    \<and> regs t' 6 = regs t 8 \<and> regs t' 2 = regs t 9 - regs t 8 \<and> regs t' 4 = regs t 4"
proof -
  have "ucast (ucast (ucast fd :: u8) :: u32) = take_bit 8 (ucast fd :: u64)" by (rule bit_word_eqI) (auto simp: bit_simps)
  then show ?thesis by (simp add: itoa_steps exec_simps)
qed

lemma return_part:
  "\<exists>s'. run (kernel f) (itoa_to_fd fd) 3 (81, t) = Some (ld64 (mem t) (regs t 4 + 32), s') \<and> regs s' 4 = regs t 4 + 40"
  by (simp add: itoa_steps exec_simps kernel_def)

lemma sep_stack:
  assumes "n \<le> 20" and "0 < n"
  shows "sep sp n (sp - of_nat (8 * n)) (8 * n)" and "sep (sp + 1) n (sp - of_nat (8 * n)) (8 * n)"
    and "sep (sp - of_nat (8 * n)) (8 * n) (sp + 32) 8" and "sep (sp - of_nat (8 * n)) (8 * n) sp 1"
    and "sep sp n (sp + 32) 8" and "sep (sp + 1) n (sp + 32) 8" and "sep (sp + 1) n sp 1" and "sep sp 1 (sp + 32) 8"
proof -
  define x :: u64 where "x = of_nat (8 * n)"
  have "8 * n < 2 ^ 64" using assms by simp
  then have "unat x = 8 * n" unfolding x_def by (rule unat_of_nat_u64)
  then have u: "unat x = 8 * n" "unat (- x) = 2 ^ 64 - 8 * n" "unat (- 1 :: u64) = 2 ^ 64 - 1"
    using unat_sub64 [of 0 x] unat_sub64 [of 0 1] assms by simp_all
  show "sep sp n (sp - of_nat (8 * n)) (8 * n)" "sep (sp + 1) n (sp - of_nat (8 * n)) (8 * n)"
    "sep (sp - of_nat (8 * n)) (8 * n) (sp + 32) 8" "sep (sp - of_nat (8 * n)) (8 * n) sp 1"
    "sep sp n (sp + 32) 8" "sep (sp + 1) n (sp + 32) 8" "sep (sp + 1) n sp 1" "sep sp 1 (sp + 32) 8"
    unfolding x_def [symmetric] using assms u by (auto simp: sep_def unat_sub64 unat_add64)
qed


text \<open>From the magnitude in \<open>rax\<close> to its text at the cursor; the stack is back where it was.\<close>

lemma digits_part:
  assumes "regs t 0 = of_nat v" and v: "v < 2 ^ 64" and r: "regs t 1 = 0" "regs t 4 = sp" "regs t 8 = sp"
    and a: "regs t 9 = a" "a = sp \<or> a = sp + 1"
  shows "\<exists>t'. steps sys (itoa_to_fd fd) (27, t) (62, t') \<and> bytes_at (mem t') a (length (digits v)) = chars (digits v)
    \<and> regs t' 4 = sp \<and> regs t' 8 = sp \<and> regs t' 9 = a + of_nat (length (digits v))
    \<and> ld64 (mem t') (sp + 32) = ld64 (mem t) (sp + 32) \<and> (a = sp \<or> mem t' sp = mem t sp)"
proof -
  define n where "n = length (digits v)"
  have n: "n \<le> 20" "0 < n" unfolding n_def using v by (simp_all add: length_digits_u64)
  note sep = sep_stack [OF n, of sp]
  obtain t1 where w1: "steps sys (itoa_to_fd fd) (27, t) (50, t1)" and s1: "stacked (mem t1) (regs t1 4) (digits v)"
    and p1: "regs t1 4 = sp - of_nat (8 * n)" and o1: "only_at (sp - of_nat (8 * n)) (8 * n) (mem t) (mem t1)"
    and r1: "regs t1 1 = of_nat n" "regs t1 8 = sp" "regs t1 9 = a"
    using div_loop [OF assms(1) v, of "[]" sys fd] n r a by (auto simp: n_def)
  obtain d ds where ds: "digits v = d # ds" by (cases "digits v") simp_all
  have le: "d < 10" "list_all (\<lambda>d. d < 10) ds" using digits_less [of _ v] by (auto simp: ds list_all_iff)
  have "sep (regs t1 9) n (regs t1 4) (8 * n)" using sep(1,2) a(2) by (auto simp: r1 p1)
  then obtain t2 where w2: "steps sys (itoa_to_fd fd) (50, t1) (62, t2)" and b2: "bytes_at (mem t2) a n = chars (digits v)"
    and o2: "only_at a n (mem t1) (mem t2)" and r2: "regs t2 4 = sp" "regs t2 9 = a + of_nat n" "regs t2 8 = sp"
    using fill_loop [of t1 d ds sys fd] s1 le n r1 p1 unfolding ds n_def by auto
  have "ld64 (mem t2) (sp + 32) = ld64 (mem t1) (sp + 32)"
    by (rule only_at_ld64 [OF o2]) (use a(2) sep in auto)
  also have "\<dots> = ld64 (mem t) (sp + 32)" by (rule only_at_ld64 [OF o1 sep(3)])
  moreover have "mem t2 sp = mem t sp" if "a = sp + 1"
  proof -
    have "mem t1 sp = mem t sp" "mem t2 sp = mem t1 sp"
      using o1 o2 sep_byte_other [OF sep(4), of 0] sep_byte_other [OF sep(7), of 0] by (simp_all add: only_at_def that)
    then show ?thesis by simp
  qed
  ultimately show ?thesis using steps_trans [OF w1 w2] b2 r2 a(2) by (intro exI [of _ t2]) (auto simp: n_def)
qed

text \<open>
  C23. Integer output: called with any 64-bit value in \<open>rax\<close>, the snippet for file descriptor \<open>fd\<close> comes to its
  system call as \<open>write\<close> to the low byte of \<open>fd\<close> (1 for \<open>ITOA\<close> itself) with a buffer that holds exactly the
  decimal text of the signed value, \<open>-2^63\<close> included, and returns to its caller with the stack balanced.
\<close>

theorem itoa_writes_decimal:
  "\<exists>t s'. steps (kernel f) (itoa_to_fd fd) (0, s) (81, t) \<and> decode_x86 (drop 81 (itoa_to_fd fd)) = Some (Syscall, 2)
    \<and> regs t 0 = 1 \<and> regs t 7 = take_bit 8 (ucast fd) \<and> bytes_at (mem t) (regs t 6) (unat (regs t 2)) = decimal (sint (regs s 0))
    \<and> leaves (kernel f) (itoa_to_fd fd) (0, s) (ld64 (mem s) (regs s 4), s') \<and> regs s' 4 = regs s 4 + 8"
proof -
  let ?c = "itoa_to_fd fd" and ?k = "kernel f"
  define sp where "sp = regs s 4 - 32"
  define z where "z = sint (regs s 0)"
  define ds where "ds = digits (nat \<bar>z\<bar>)"
  have dec: "decimal z = (if z < 0 then [0x2D] else []) @ chars ds" by (simp add: decimal_def ds_def)
  have "- (2 ^ 63) \<le> z" "z < 2 ^ 63"
    using sint_greater_eq [of "regs s 0"] sint_less [of "regs s 0"] by (simp_all add: z_def)
  then have v: "nat \<bar>z\<bar> < 2 ^ 64" by auto
  then have n: "length ds \<le> 20" unfolding ds_def by (rule length_digits_u64)
  obtain t0 where w0: "steps ?k ?c (0, s) (27, t0)" and r0: "regs t0 0 = of_nat (nat \<bar>z\<bar>)" "regs t0 1 = 0" "regs t0 4 = sp" "regs t0 8 = sp"
    and a0: "if z < 0 then regs t0 9 = sp + 1 \<and> mem t0 = (mem s)(sp := 0x2D) else regs t0 9 = sp \<and> mem t0 = mem s"
    using sign_part [OF sp_def z_def, of ?k fd] by blast
  have "regs t0 9 = sp \<or> regs t0 9 = sp + 1" using a0 by (auto split: if_splits)
  then obtain t2 where w2: "steps ?k ?c (27, t0) (62, t2)" and b2: "bytes_at (mem t2) (regs t0 9) (length ds) = chars ds"
    and r2: "regs t2 4 = sp" "regs t2 8 = sp" "regs t2 9 = regs t0 9 + of_nat (length ds)"
    and k2: "ld64 (mem t2) (sp + 32) = ld64 (mem t0) (sp + 32)" "regs t0 9 = sp \<or> mem t2 sp = mem t0 sp"
    using digits_part [OF r0(1) v r0(2-4) refl, of ?k fd] unfolding ds_def by blast
  obtain t3 where w3: "walk ?k ?c 5 (62, t2) = Some (81, t3)" and m3: "mem t3 = mem t2"
    and r3: "regs t3 0 = 1" "regs t3 7 = take_bit 8 (ucast fd)" "regs t3 6 = sp" "regs t3 2 = regs t2 9 - sp" "regs t3 4 = sp"
    using write_part [of ?k fd t2] r2 by auto
  have buf: "bytes_at (mem t3) (regs t3 6) (unat (regs t3 2)) = decimal z"
    using a0 b2 r2 k2 n dec unat_of_nat_u64 [of "Suc (length ds)"] by (auto simp: m3 r3 bytes_at_Suc split: if_splits)
  have "ld64 (mem t0) (sp + 32) = ld64 (mem s) (sp + 32)"
    by (rule ld64_cong) (use a0 sep_byte_other [OF sep_stack(8) [of 1 sp], of _ 0] in \<open>auto split: if_splits\<close>)
  moreover obtain s' where rn: "run ?k ?c 3 (81, t3) = Some (ld64 (mem t3) (sp + 32), s')" and r4: "regs s' 4 = sp + 40"
    using return_part [of f fd t3] r3(5) by auto
  moreover have w: "steps ?k ?c (0, s) (81, t3)"
    by (rule steps_trans [OF w0 steps_trans [OF w2 walk_steps [OF w3]]])
  moreover have "decode_x86 (drop 81 ?c) = Some (Syscall, 2)" by (simp add: itoa_bytes ITOA_def decode_simps)
  ultimately show ?thesis
    using buf r3 k2 m3 steps_leaves [OF w run_leaves [OF rn]] by (intro exI [of _ t3] exI [of _ s']) (simp add: z_def sp_def)
qed

end
