(* ===== verification/Scan_Int.thy ===== *)
theory Scan_Int
  imports Runtime_Code Itoa
begin

text \<open>
  \<open>SCAN_INT\<close> of \<open>src/x86/runtime.rs\<close> on the processor model, from the moment the \<open>read\<close> system call has
  put the line into the 80-byte stack buffer.
\<close>

text \<open>The number a digit sequence denotes, as the loop accumulates it.\<close>

definition accumulate :: "u64 \<Rightarrow> nat list \<Rightarrow> u64" where
  "accumulate = foldl (\<lambda>acc d. acc * 10 + of_nat d)"

definition number :: "nat list \<Rightarrow> int" where
  "number = foldl (\<lambda>acc d. acc * 10 + int d) 0"

lemma accumulate_number: "accumulate 0 ds = of_int (number ds)"
proof -
  have "accumulate (of_int z) ds = of_int (foldl (\<lambda>acc d. acc * 10 + int d) z ds)" for z
    unfolding accumulate_def
  proof (induction ds arbitrary: z)
    case (Cons d ds)
    have "(of_int z :: u64) * 10 + of_nat d = of_int (z * 10 + int d)" by simp
    then show ?case by (simp only: foldl.simps Cons)
  qed simp
  from this [of 0] show ?thesis by (simp add: number_def)
qed

section \<open>The loop, piece by piece\<close>

text \<open>At the loop head: the count in \<open>rcx\<close>, the index in \<open>r10\<close>.\<close>

lemma counters:
  assumes "i < 2 ^ 31"
  shows "ucast (of_nat i :: u64) = (of_nat i :: u32)" and "sint (of_nat i :: u32) = int i"
  using assms by (simp_all add: word_unat_eq_iff unsigned_ucast_eq take_bit_nat_eq_self signed_of_nat signed_take_bit_int_eq_self)

lemma at_bound:
  assumes "regs t 1 = of_nat n" and "regs t 10 = of_nat i" and "i \<le> 100" and "n \<le> 80"
  shows "\<exists>t'. walk sys SCAN_INT 2 (56, t) = Some (if i < n then 61 else 88, t') \<and> regs t' = regs t \<and> mem t' = mem t"
proof -
  have "i < 2 ^ 31" "n < 2 ^ 31" using assms(3,4) by simp_all
  note c = counters [OF this(1)] counters [OF this(2)]
  show ?thesis using assms c signed_ge_flags [of "of_nat i :: u32" "of_nat n"]
    by (simp add: SCAN_INT_steps exec_simps alu_overflow_def)
qed

lemma not_minus:
  assumes "mem t (regs t 4 + regs t 10) \<noteq> 0x2D"
  shows "\<exists>t'. walk sys SCAN_INT 2 (39, t) = Some (56, t') \<and> regs t' = regs t \<and> mem t' = mem t"
  using assms by (simp add: SCAN_INT_steps exec_simps)

lemma is_minus:
  assumes "mem t (regs t 4 + regs t 10) = 0x2D"
  shows "\<exists>t'. walk sys SCAN_INT 4 (39, t) = Some (56, t') \<and> regs t' = (regs t)(11 := 0xFFFFFFFFFFFFFFFF, 10 := regs t 10 + 1) \<and> mem t' = mem t"
  using assms by (simp add: SCAN_INT_steps exec_simps)

lemma digit_tail:
  assumes "mem t (regs t 4 + regs t 10) = of_nat (48 + d)" and "d < 10" and "regs t 10 = of_nat i" and "i < 80"
  shows "\<exists>t'. walk sys SCAN_INT 9 (61, t) = Some (39, t') \<and> regs t' 9 = regs t 9 * 10 + of_nat d \<and> regs t' 10 = of_nat (Suc i)
    \<and> map (regs t') [1, 3, 4, 11] = map (regs t) [1, 3, 4, 11] \<and> mem t' = mem t"
proof -
  have i: "ucast (of_nat i + 1 :: u32) = (of_nat i + 1 :: u64)"
    using counters(1) [of "Suc i"] assms(4)
    by (simp add: word_unat_eq_iff unsigned_ucast_eq unat_add64 take_bit_nat_eq_self unat_word_ariths)
  have u: "ucast (of_nat i :: u64) = (of_nat i :: u32)" using counters(1) [of i] assms(4) by simp
  from assms(2) have "d = 0 \<or> d = 1 \<or> d = 2 \<or> d = 3 \<or> d = 4 \<or> d = 5 \<or> d = 6 \<or> d = 7 \<or> d = 8 \<or> d = 9" by auto
  then show ?thesis using assms(1,3) i u
    by (elim disjE) (simp_all add: SCAN_INT_steps exec_simps alu_overflow_def)
qed

lemma stop_tail:
  assumes "mem t (regs t 4 + regs t 10) = c" and "c < 48 \<or> 57 < c"
  shows "\<exists>t'. steps sys SCAN_INT (61, t) (88, t') \<and> map (regs t') [3, 4, 9, 11] = map (regs t) [3, 4, 9, 11] \<and> mem t' = mem t"
proof -
  define x where "x = (ucast c :: u32)"
  have x: "(ucast (ucast c :: u64) :: u32) = x" "(ucast (ucast (x - 48) :: u64) :: u32) = x - 48"
    unfolding x_def by (rule bit_word_eqI, auto simp: bit_simps)+
  have "x = of_nat (unat c)" by (simp add: x_def)
  then have s: "sint x = int (unat c)" using counters(2) [of "unat c"] unat_u8_less [of c] by simp
  note f = signed_less_flags [of x 48] signed_less_flags [of "x - 48" 9]
  show ?thesis
  proof (cases "c < 48")
    case True
    then have "sint x < 48" using s by (simp add: word_less_def)
    then have "\<exists>t'. walk sys SCAN_INT 3 (61, t) = Some (88, t') \<and> map (regs t') [3, 4, 9, 11] = map (regs t) [3, 4, 9, 11] \<and> mem t' = mem t"
      using assms(1) x f by (simp add: SCAN_INT_steps exec_simps alu_overflow_def)
    then show ?thesis using walk_steps by blast
  next
    case False
    then have "57 < unat c" using assms(2) by (simp add: word_less_nat_alt)
    have "57 < uint c" using False assms(2) by (simp add: word_less_def)
    then have g: "\<not> sint x < 48" using s by simp
    have "x - 48 = of_nat (unat c - 48)" using \<open>x = of_nat (unat c)\<close> \<open>57 < unat c\<close> by (simp add: of_nat_diff)
    then have "sint (x - 48) = int (unat c - 48)" using counters(2) [of "unat c - 48"] unat_u8_less [of c] by simp
    then have h: "sint (x - 48) = sint x - 48" "9 < sint (x - 48)" using s \<open>57 < unat c\<close> \<open>57 < uint c\<close> by simp_all
    then have "x - 48 \<noteq> 9" by auto
    then have "\<exists>t'. walk sys SCAN_INT 5 (61, t) = Some (88, t') \<and> map (regs t') [3, 4, 9, 11] = map (regs t) [3, 4, 9, 11] \<and> mem t' = mem t"
      using assms(1) x f g h by (simp add: SCAN_INT_steps exec_simps alu_overflow_def)
    then show ?thesis using walk_steps by blast
  qed
qed

lemma final_part:
  "\<exists>s'. leaves sys SCAN_INT (88, t) (ld64 (mem t) (regs t 4 + 96), s') \<and> regs s' 4 = regs t 4 + 104 \<and> regs s' 3 = ld64 (mem t) (regs t 4 + 88)
    \<and> regs s' 0 = (if sint (regs t 11) < 0 then - regs t 9 else regs t 9) \<and> mem s' = mem t"
proof (cases "sint (regs t 11) < 0")
  case True
  then have "\<exists>s'. run sys SCAN_INT 7 (88, t) = Some (ld64 (mem t) (regs t 4 + 96), s') \<and> regs s' 4 = regs t 4 + 104
    \<and> regs s' 3 = ld64 (mem t) (regs t 4 + 88) \<and> regs s' 0 = - regs t 9 \<and> mem s' = mem t"
    by (simp add: SCAN_INT_steps exec_simps add.commute [of 96 "regs t 4"])
  then show ?thesis using True run_leaves by fastforce
next
  case False
  then have "\<exists>s'. run sys SCAN_INT 6 (88, t) = Some (ld64 (mem t) (regs t 4 + 96), s') \<and> regs s' 4 = regs t 4 + 104
    \<and> regs s' 3 = ld64 (mem t) (regs t 4 + 88) \<and> regs s' 0 = regs t 9 \<and> mem s' = mem t"
    by (simp add: SCAN_INT_steps exec_simps add.commute [of 96 "regs t 4"])
  then show ?thesis using False run_leaves by fastforce
qed


section \<open>A line in the buffer\<close>

text \<open>The bytes \<open>bs\<close> in memory at \<open>a\<close>.\<close>

definition holds :: "(u64 \<Rightarrow> u8) \<Rightarrow> u64 \<Rightarrow> bytes \<Rightarrow> bool" where
  "holds m a bs \<longleftrightarrow> bytes_at m a (length bs) = bs"

lemma holds_nth: "holds m a bs \<Longrightarrow> i < length bs \<Longrightarrow> m (a + of_nat i) = bs ! i"
  unfolding holds_def bytes_at_def by (metis (no_types, lifting) add_cancel_left_left length_upt minus_nat.diff_0 nth_map nth_upt)

lemma digit_not_minus: "d < 10 \<Longrightarrow> (of_nat (48 + d) :: u8) \<noteq> 0x2D"
proof -
  assume "d < 10"
  then have "d \<in> {0, 1, 2, 3, 4, 5, 6, 7, 8, 9}" by auto
  then show ?thesis by auto
qed

text \<open>Once a digit has been taken the loop is back at its head; at a digit before the bound it takes it.\<close>

lemma digits_loop:
  assumes "holds (mem t) (regs t 4) (pre @ chars ds @ rest)" and "list_all (\<lambda>d. d < 10) ds"
    and "regs t 1 = of_nat n" and "n = length (pre @ chars ds @ rest)" and "n \<le> 80" and "regs t 10 = of_nat (length pre)"
  shows "\<exists>t'. steps sys SCAN_INT (39, t) (39, t') \<and> regs t' 9 = accumulate (regs t 9) ds \<and> regs t' 10 = of_nat (length (pre @ chars ds))
    \<and> map (regs t') [1, 3, 4, 11] = map (regs t) [1, 3, 4, 11] \<and> mem t' = mem t"
  using assms
proof (induction ds arbitrary: t pre)
  case Nil
  then show ?case by (intro exI [of _ t]) (auto intro: steps_refl simp: accumulate_def)
next
  case (Cons d ds)
  have d: "d < 10" "list_all (\<lambda>d. d < 10) ds" using Cons.prems(2) by simp_all
  have i: "length pre < n" "length pre < 80" using Cons.prems(4,5) by simp_all
  have b: "mem t (regs t 4 + regs t 10) = of_nat (48 + d)"
    using holds_nth [OF Cons.prems(1), of "length pre"] Cons.prems(6) by (simp add: nth_append)
  obtain t1 where w1: "walk sys SCAN_INT 2 (39, t) = Some (56, t1)" and r1: "regs t1 = regs t" "mem t1 = mem t"
    using not_minus [of t sys] b digit_not_minus [OF d(1)] by auto
  obtain t2 where w2: "walk sys SCAN_INT 2 (56, t1) = Some (61, t2)" and r2: "regs t2 = regs t" "mem t2 = mem t"
    using at_bound [of t1 n "length pre" sys] Cons.prems(3,5,6) i r1 by auto
  obtain t3 where w3: "walk sys SCAN_INT 9 (61, t2) = Some (39, t3)" and r3: "regs t3 9 = regs t 9 * 10 + of_nat d"
      "regs t3 10 = of_nat (Suc (length pre))" "map (regs t3) [1, 3, 4, 11] = map (regs t) [1, 3, 4, 11]" "mem t3 = mem t"
    using digit_tail [of t2 d "length pre" sys] b d(1) i(2) Cons.prems(6) r2 by auto
  have w: "steps sys SCAN_INT (39, t) (39, t3)"
    by (rule steps_trans [OF walk_steps [OF w1] steps_trans [OF walk_steps [OF w2] walk_steps [OF w3]]])
  obtain t4 where "steps sys SCAN_INT (39, t3) (39, t4)" "regs t4 9 = accumulate (regs t3 9) ds"
    "regs t4 10 = of_nat (length ((pre @ [of_nat (48 + d)]) @ chars ds))" "map (regs t4) [1, 3, 4, 11] = map (regs t) [1, 3, 4, 11]" "mem t4 = mem t"
    using Cons.IH [of t3 "pre @ [of_nat (48 + d)]"] Cons.prems(1,3,4,5) d(2) r3 by auto
  then show ?case using steps_trans [OF w] r3(1) by (intro exI [of _ t4]) (simp add: accumulate_def)
qed

text \<open>A byte that is neither a digit nor a minus ends the loop.\<close>

lemma loop_stops:
  assumes "holds (mem t) (regs t 4) (pre @ c # rest)" and "c < 48 \<or> 57 < c" and "c \<noteq> 0x2D"
    and "regs t 1 = of_nat n" and "n = length (pre @ c # rest)" and "n \<le> 80" and "regs t 10 = of_nat (length pre)"
  shows "\<exists>t'. steps sys SCAN_INT (39, t) (88, t') \<and> map (regs t') [3, 4, 9, 11] = map (regs t) [3, 4, 9, 11] \<and> mem t' = mem t"
proof -
  have b: "mem t (regs t 4 + regs t 10) = c"
    using holds_nth [OF assms(1), of "length pre"] assms(7) by (simp add: nth_append)
  obtain t1 where w1: "walk sys SCAN_INT 2 (39, t) = Some (56, t1)" and r1: "regs t1 = regs t" "mem t1 = mem t"
    using not_minus [of t sys] b assms(3) by auto
  obtain t2 where w2: "walk sys SCAN_INT 2 (56, t1) = Some (61, t2)" and r2: "regs t2 = regs t" "mem t2 = mem t"
    using at_bound [of t1 n "length pre" sys] assms r1 by auto
  obtain t3 where "steps sys SCAN_INT (61, t2) (88, t3)" "map (regs t3) [3, 4, 9, 11] = map (regs t) [3, 4, 9, 11]" "mem t3 = mem t"
    using stop_tail [of t2 c sys] b assms(2) r2 by auto
  then show ?thesis using steps_trans [OF walk_steps [OF w1] steps_trans [OF walk_steps [OF w2]]] by blast
qed

text \<open>A minus is taken wherever the loop head meets it, and the byte after it read as the next digit or the stop.\<close>

lemma minus_taken:
  assumes "holds (mem t) (regs t 4) (pre @ 0x2D # d # rest)" and "regs t 1 = of_nat n" and "n = length (pre @ 0x2D # d # rest)"
    and "n \<le> 80" and "regs t 10 = of_nat (length pre)"
  shows "\<exists>t'. steps sys SCAN_INT (39, t) (61, t') \<and> mem t' = mem t
    \<and> regs t' = (regs t)(11 := 0xFFFFFFFFFFFFFFFF, 10 := of_nat (Suc (length pre)))"
proof -
  have b: "mem t (regs t 4 + regs t 10) = 0x2D"
    using holds_nth [OF assms(1), of "length pre"] assms(5) by (simp add: nth_append)
  obtain t1 where w1: "walk sys SCAN_INT 4 (39, t) = Some (56, t1)"
    and r1: "regs t1 = (regs t)(11 := 0xFFFFFFFFFFFFFFFF, 10 := of_nat (Suc (length pre)))" "mem t1 = mem t"
    using is_minus [OF b, of sys] assms(5) by (auto simp: add.commute)
  obtain t2 where w2: "walk sys SCAN_INT 2 (56, t1) = Some (61, t2)" and r2: "regs t2 = regs t1" "mem t2 = mem t"
    using at_bound [of t1 n "Suc (length pre)" sys] assms r1 by auto
  show ?thesis using steps_trans [OF walk_steps [OF w1] walk_steps [OF w2]] r1 r2 by auto
qed


text \<open>The rest of the line from the loop head: digits and a stop, with or without a minus before them.\<close>

lemma digits_then_stop:
  assumes "holds (mem t) (regs t 4) (pre @ chars ds @ c # rest)" and "list_all (\<lambda>d. d < 10) ds" and "c < 48 \<or> 57 < c" and "c \<noteq> 0x2D"
    and "regs t 1 = of_nat n" and "n = length (pre @ chars ds @ c # rest)" and "n \<le> 80" and "regs t 10 = of_nat (length pre)"
  shows "\<exists>t'. steps sys SCAN_INT (39, t) (88, t') \<and> regs t' 9 = accumulate (regs t 9) ds
    \<and> map (regs t') [4, 11] = map (regs t) [4, 11] \<and> mem t' = mem t"
proof -
  obtain t1 where w: "steps sys SCAN_INT (39, t) (39, t1)" and r: "regs t1 9 = accumulate (regs t 9) ds"
      "regs t1 10 = of_nat (length (pre @ chars ds))" "map (regs t1) [1, 3, 4, 11] = map (regs t) [1, 3, 4, 11]" "mem t1 = mem t"
    using digits_loop [OF assms(1,2,5-8), of sys] by blast
  obtain t2 where "steps sys SCAN_INT (39, t1) (88, t2)" "map (regs t2) [3, 4, 9, 11] = map (regs t1) [3, 4, 9, 11]" "mem t2 = mem t1"
    using loop_stops [of t1 "pre @ chars ds" c rest n sys] assms r by auto
  then show ?thesis using steps_trans [OF w] r by (intro exI [of _ t2]) auto
qed

lemma minus_then_stop:
  assumes "holds (mem t) (regs t 4) (pre @ 0x2D # chars ds @ c # rest)" and "list_all (\<lambda>d. d < 10) ds" and "c < 48 \<or> 57 < c" and "c \<noteq> 0x2D"
    and "regs t 1 = of_nat n" and "n = length (pre @ 0x2D # chars ds @ c # rest)" and "n \<le> 80" and "regs t 10 = of_nat (length pre)"
  shows "\<exists>t'. steps sys SCAN_INT (39, t) (88, t') \<and> regs t' 9 = accumulate (regs t 9) ds
    \<and> regs t' 4 = regs t 4 \<and> regs t' 11 = 0xFFFFFFFFFFFFFFFF \<and> mem t' = mem t"
proof (cases ds)
  case Nil
  obtain t1 where w: "steps sys SCAN_INT (39, t) (61, t1)" and m: "mem t1 = mem t"
    and r: "regs t1 = (regs t)(11 := 0xFFFFFFFFFFFFFFFF, 10 := of_nat (Suc (length pre)))"
    using minus_taken [of t pre c rest n sys] assms Nil by auto
  have "mem t1 (regs t1 4 + regs t1 10) = c"
    using holds_nth [OF assms(1), of "Suc (length pre)"] by (simp add: Nil r m nth_append)
  then obtain t2 where "steps sys SCAN_INT (61, t1) (88, t2)" "map (regs t2) [3, 4, 9, 11] = map (regs t1) [3, 4, 9, 11]" "mem t2 = mem t1"
    using stop_tail [of t1 c sys] assms(3) by blast
  then show ?thesis using steps_trans [OF w] r m by (intro exI [of _ t2]) (simp add: Nil accumulate_def)
next
  case (Cons d es)
  obtain t1 where w: "steps sys SCAN_INT (39, t) (61, t1)" and m: "mem t1 = mem t"
    and r: "regs t1 = (regs t)(11 := 0xFFFFFFFFFFFFFFFF, 10 := of_nat (Suc (length pre)))"
    using minus_taken [of t pre "of_nat (48 + d)" "chars es @ c # rest" n sys] assms Cons by auto
  have b: "mem t1 (regs t1 4 + regs t1 10) = of_nat (48 + d)"
    using holds_nth [OF assms(1), of "Suc (length pre)"] by (simp add: Cons r m nth_append)
  have d: "d < 10" "Suc (length pre) < 80" "list_all (\<lambda>d. d < 10) es" using assms(2,6,7) Cons by simp_all
  obtain t2 where w2: "walk sys SCAN_INT 9 (61, t1) = Some (39, t2)" and r2: "regs t2 9 = regs t1 9 * 10 + of_nat d"
      "regs t2 10 = of_nat (Suc (Suc (length pre)))" "map (regs t2) [1, 3, 4, 11] = map (regs t1) [1, 3, 4, 11]" "mem t2 = mem t1"
    using digit_tail [OF b d(1) _ d(2), of sys] r by auto
  obtain t3 where "steps sys SCAN_INT (39, t2) (88, t3)" "regs t3 9 = accumulate (regs t2 9) es"
      "map (regs t3) [4, 11] = map (regs t2) [4, 11]" "mem t3 = mem t2"
    using digits_then_stop [of t2 "pre @ [0x2D, of_nat (48 + d)]" es c rest n sys] assms d(3) r r2 m by (auto simp: Cons)
  then show ?thesis using steps_trans [OF w steps_trans [OF walk_steps [OF w2]]] r r2 m
    by (intro exI [of _ t3]) (simp add: Cons accumulate_def)
qed

section \<open>From entry to the loop\<close>

text \<open>\<open>read\<close> on standard input with \<open>line\<close> waiting: as many bytes as fit arrive in the buffer.\<close>

definition reader :: "bytes \<Rightarrow> mstate \<Rightarrow> mstate option" where
  "reader line u = (if regs u 0 = 0 \<and> regs u 7 = 0 then
     (let got = take (unat (regs u 2)) line in
      Some (u\<lparr>regs := (regs u)(0 := of_nat (length got)), mem := st_bytes (mem u) (regs u 6) got\<rparr>)) else None)"

lemma holds_st_bytes: "length bs \<le> 2 ^ 63 \<Longrightarrow> holds (st_bytes m a bs) a bs"
  unfolding holds_def bytes_at_def by (rule nth_equalityI) (simp_all add: st_bytes_nth)

lemma to_loop:
  assumes "got = take 80 line"
  shows "\<exists>t. steps (reader line) SCAN_INT (0, s) (if got = [] then 105 else 39, t) \<and> regs t 4 = regs s 4 - 96
    \<and> mem t = st_bytes (st64 (mem s) (regs s 4 - 8) (regs s 3)) (regs s 4 - 96) got
    \<and> (got = [] \<or> regs t 1 = of_nat (length got) \<and> regs t 9 = 0 \<and> regs t 10 = 0 \<and> regs t 11 = 1)"
proof -
  define n :: u64 where "n = of_nat (length got)"
  have l: "length got \<le> 80" using assms by simp
  have n: "sint n = int (length got)"
    using l by (simp add: n_def signed_of_nat signed_take_bit_int_eq_self)
  have "\<exists>t. walk (reader line) SCAN_INT 8 (0, s) = Some (22, t) \<and> regs t 4 = regs s 4 - 96 \<and> regs t 1 = n
    \<and> mem t = st_bytes (st64 (mem s) (regs s 4 - 8) (regs s 3)) (regs s 4 - 96) got"
    by (simp add: SCAN_INT_steps exec_simps reader_def n_def flip: assms)
  then obtain t where w: "walk (reader line) SCAN_INT 8 (0, s) = Some (22, t)" and r: "regs t 4 = regs s 4 - 96" "regs t 1 = n"
    "mem t = st_bytes (st64 (mem s) (regs s 4 - 8) (regs s 3)) (regs s 4 - 96) got" by blast
  show ?thesis
  proof (cases "got = []")
    case True
    then have "n = 0" by (simp add: n_def)
    then have "\<exists>t'. walk (reader line) SCAN_INT 2 (22, t) = Some (105, t') \<and> regs t' = regs t \<and> mem t' = mem t"
      using r(2) by (simp add: SCAN_INT_steps exec_simps)
    then obtain t' where w': "walk (reader line) SCAN_INT 2 (22, t) = Some (105, t')" and "regs t' = regs t" "mem t' = mem t" by blast
    then show ?thesis using steps_trans [OF walk_steps [OF w] walk_steps [OF w']] True r by (intro exI [of _ t']) simp
  next
    case False
    then have "n \<noteq> 0" "\<not> sint n < 0" using n by auto
    then have "\<exists>t'. walk (reader line) SCAN_INT 5 (22, t) = Some (39, t') \<and> regs t' 4 = regs t 4 \<and> regs t' 1 = n \<and> mem t' = mem t
      \<and> regs t' 9 = 0 \<and> regs t' 10 = 0 \<and> regs t' 11 = 1"
      using r(2) by (simp add: SCAN_INT_steps exec_simps alu_overflow_def)
    then obtain t' where w': "walk (reader line) SCAN_INT 5 (22, t) = Some (39, t')" and "regs t' 4 = regs t 4" "regs t' 1 = n" "mem t' = mem t"
      "regs t' 9 = 0" "regs t' 10 = 0" "regs t' 11 = 1" by blast
    then show ?thesis using steps_trans [OF walk_steps [OF w] walk_steps [OF w']] False r by (intro exI [of _ t']) (simp add: n_def)
  qed
qed

text \<open>From the end of the loop to the caller: the slots above the buffer are as the entry left them.\<close>

lemma slots_above:
  assumes "length got \<le> 80"
  shows "ld64 (st_bytes (st64 m (sp - 8) v) (sp - 96) got) sp = ld64 m sp"
    and "ld64 (st_bytes (st64 m (sp - 8) v) (sp - 96) got) (sp - 8) = v"
proof -
  have "sep (sp - 96) (length got) sp 8" "sep (sp - 96) (length got) (sp - 8) 8" "apart8 (sp - 8) sp"
    using assms by (auto simp: sep_def apart8_def)
  then show "ld64 (st_bytes (st64 m (sp - 8) v) (sp - 96) got) sp = ld64 m sp"
    "ld64 (st_bytes (st64 m (sp - 8) v) (sp - 96) got) (sp - 8) = v"
    by (simp_all add: st_bytes_sep ld64_st64_apart)
qed

lemma finish:
  assumes "steps sys SCAN_INT (0, s) (88, t)" and "regs t 4 = regs s 4 - 96" and "length got \<le> 80"
    and "mem t = st_bytes (st64 (mem s) (regs s 4 - 8) (regs s 3)) (regs s 4 - 96) got"
  shows "\<exists>s'. leaves sys SCAN_INT (0, s) (ld64 (mem s) (regs s 4), s') \<and> regs s' 4 = regs s 4 + 8 \<and> regs s' 3 = regs s 3
    \<and> regs s' 0 = (if sint (regs t 11) < 0 then - regs t 9 else regs t 9)"
proof -
  obtain s' where l: "leaves sys SCAN_INT (88, t) (ld64 (mem t) (regs t 4 + 96), s')" and r: "regs s' 4 = regs t 4 + 104"
    "regs s' 3 = ld64 (mem t) (regs t 4 + 88)" "regs s' 0 = (if sint (regs t 11) < 0 then - regs t 9 else regs t 9)"
    using final_part [of sys t] by blast
  show ?thesis
    using steps_leaves [OF assms(1) l] r slots_above [OF assms(3), of "mem s" "regs s 4" "regs s 3"]
    by (intro exI [of _ s']) (simp add: assms(2,4))
qed

section \<open>Properties\<close>

text \<open>
  C24. Integer input: for a line that is an optional minus, decimal digits, and then a byte that is neither
  (the newline), all within the first 80 bytes, the snippet returns the number the line denotes, modulo
  2^64, with the stack balanced and \<open>rbx\<close> restored.
\<close>

theorem scan_reads_number:
  assumes "take 80 line = (if neg then [0x2D] else []) @ chars ds @ c # rest" and "list_all (\<lambda>d. d < 10) ds"
    and "c < 48 \<or> 57 < c" and "c \<noteq> 0x2D"
  shows "\<exists>s'. leaves (reader line) SCAN_INT (0, s) (ld64 (mem s) (regs s 4), s')
    \<and> regs s' 0 = of_int (if neg then - number ds else number ds) \<and> regs s' 4 = regs s 4 + 8 \<and> regs s' 3 = regs s 3"
proof -
  define got where "got = take 80 line"
  have "got \<noteq> []" using assms(1) by (simp add: got_def)
  moreover have "length got \<le> 80" by (simp add: got_def)
  ultimately have g: "got \<noteq> []" "length got \<le> 80" .
  obtain t where w: "steps (reader line) SCAN_INT (0, s) (39, t)" and r: "regs t 4 = regs s 4 - 96" "regs t 1 = of_nat (length got)"
      "regs t 9 = 0" "regs t 10 = 0" "regs t 11 = 1"
    and m: "mem t = st_bytes (st64 (mem s) (regs s 4 - 8) (regs s 3)) (regs s 4 - 96) got"
    using to_loop [OF got_def, of s] g by auto
  have h: "holds (mem t) (regs t 4) got" unfolding m r(1) using g by (intro holds_st_bytes) simp
  have "\<exists>t'. steps (reader line) SCAN_INT (39, t) (88, t') \<and> regs t' 9 = accumulate 0 ds \<and> regs t' 4 = regs t 4
    \<and> regs t' 11 = (if neg then 0xFFFFFFFFFFFFFFFF else 1) \<and> mem t' = mem t"
  proof (cases neg)
    case True
    then show ?thesis
      using minus_then_stop [of t "[]" ds c rest "length got" "reader line"] assms h r g by (auto simp: got_def)
  next
    case False
    then show ?thesis
      using digits_then_stop [of t "[]" ds c rest "length got" "reader line"] assms h r g by (auto simp: got_def)
  qed
  then obtain t' where w': "steps (reader line) SCAN_INT (39, t) (88, t')" and r': "regs t' 9 = accumulate 0 ds" "regs t' 4 = regs t 4"
    "regs t' 11 = (if neg then 0xFFFFFFFFFFFFFFFF else 1)" "mem t' = mem t" by blast
  show ?thesis
    using finish [OF steps_trans [OF w w'] _ g(2)] r r' m by (auto simp: accumulate_number)
qed


theorem scan_reads_number_witness:
  "\<exists>s'. leaves (reader [0x2D, 0x34, 0x32, 0x0A]) SCAN_INT (0, machine 0x9000 (\<lambda>_. 0)) (0, s') \<and> regs s' 0 = of_int (- 42)"
  using scan_reads_number [of "[0x2D, 0x34, 0x32, 0x0A]" True "[4, 2]" "0x0A" "[]" "machine 0x9000 (\<lambda>_. 0)"]
  by (auto simp: number_def)

text \<open>
  At the end of the input (\<open>read\<close> returns no byte) the snippet returns 0, with the stack balanced and
  \<open>rbx\<close> restored.
\<close>

theorem scan_end_of_input:
  "\<exists>s'. leaves (reader []) SCAN_INT (0, s) (ld64 (mem s) (regs s 4), s') \<and> regs s' 0 = 0 \<and> regs s' 4 = regs s 4 + 8 \<and> regs s' 3 = regs s 3"
proof -
  obtain t where w: "steps (reader []) SCAN_INT (0, s) (105, t)" and r: "regs t 4 = regs s 4 - 96"
    and m: "mem t = st64 (mem s) (regs s 4 - 8) (regs s 3)"
    using to_loop [of "[]" "[]" s] by auto
  have "\<exists>s'. run (reader []) SCAN_INT 4 (105, t) = Some (ld64 (mem t) (regs s 4), s') \<and> regs s' 4 = regs s 4 + 8
    \<and> regs s' 3 = ld64 (mem t) (regs s 4 - 8) \<and> regs s' 0 = 0"
    using r by (simp add: SCAN_INT_steps exec_simps)
  then obtain s' where rn: "run (reader []) SCAN_INT 4 (105, t) = Some (ld64 (mem t) (regs s 4), s')"
    and "regs s' 4 = regs s 4 + 8" "regs s' 3 = ld64 (mem t) (regs s 4 - 8)" "regs s' 0 = 0" by blast
  then show ?thesis
    using steps_leaves [OF w run_leaves [OF rn]] slots_above [of "[]" "mem s" "regs s 4" "regs s 3"] m
    by (intro exI [of _ s']) simp
qed

text \<open>
  C25. A minus after the first digit does not stop the parse, as the comment of \<open>SCAN_INT\<close> says of any
  non-digit: the loop goes back to the sign test, so that the minus is skipped, the digits behind it are
  appended and the result is negated (\<open>1-2\<close> reads as -12).
\<close>

theorem scan_minus_inside:
  assumes "take 80 line = chars (d # ds) @ 0x2D # chars es @ c # rest" and "list_all (\<lambda>d. d < 10) (d # ds @ es)"
    and "c < 48 \<or> 57 < c" and "c \<noteq> 0x2D"
  shows "\<exists>s'. leaves (reader line) SCAN_INT (0, s) (ld64 (mem s) (regs s 4), s') \<and> regs s' 0 = of_int (- number (d # ds @ es))"
proof -
  define got where "got = take 80 line"
  have "got \<noteq> []" using assms(1) by (simp add: got_def)
  moreover have "length got \<le> 80" by (simp add: got_def)
  ultimately have g: "got \<noteq> []" "length got \<le> 80" .
  obtain t where w: "steps (reader line) SCAN_INT (0, s) (39, t)" and r: "regs t 4 = regs s 4 - 96" "regs t 1 = of_nat (length got)"
      "regs t 9 = 0" "regs t 10 = 0" "regs t 11 = 1"
    and m: "mem t = st_bytes (st64 (mem s) (regs s 4 - 8) (regs s 3)) (regs s 4 - 96) got"
    using to_loop [OF got_def, of s] g by auto
  have h: "holds (mem t) (regs t 4) got" unfolding m r(1) using g by (intro holds_st_bytes) simp
  obtain t1 where w1: "steps (reader line) SCAN_INT (39, t) (39, t1)" and r1: "regs t1 9 = accumulate 0 (d # ds)"
      "regs t1 10 = of_nat (length (d # ds))" "map (regs t1) [1, 3, 4, 11] = map (regs t) [1, 3, 4, 11]" "mem t1 = mem t"
    using digits_loop [of t "[]" "d # ds" "0x2D # chars es @ c # rest" "length got" "reader line"] assms h r g
    by (auto simp: got_def)
  obtain t2 where w2: "steps (reader line) SCAN_INT (39, t1) (88, t2)" and r2: "regs t2 9 = accumulate (regs t1 9) es"
      "regs t2 4 = regs t1 4" "regs t2 11 = 0xFFFFFFFFFFFFFFFF" "mem t2 = mem t1"
    using minus_then_stop [of t1 "chars (d # ds)" es c rest "length got" "reader line"] assms h r r1 g
    by (auto simp: got_def)
  have "accumulate (accumulate 0 (d # ds)) es = accumulate 0 (d # ds @ es)" by (simp add: accumulate_def)
  then show ?thesis
    using finish [OF steps_trans [OF w steps_trans [OF w1 w2]] _ g(2)] r r1 r2 m by (auto simp: accumulate_number)
qed

theorem scan_minus_inside_witness:
  "\<exists>s'. leaves (reader [0x31, 0x2D, 0x32, 0x0A]) SCAN_INT (0, machine 0x9000 (\<lambda>_. 0)) (0, s') \<and> regs s' 0 = of_int (- 12)"
  using scan_minus_inside [of "[0x31, 0x2D, 0x32, 0x0A]" 1 "[]" "[2]" "0x0A" "[]" "machine 0x9000 (\<lambda>_. 0)"]
  by (auto simp: number_def)

text \<open>
  C26. Without a terminator in the bytes read, the loop tests one byte more than \<open>read\<close> delivered: when that
  stale stack byte is a minus, the number comes back negated.
\<close>

theorem scan_reads_past_input:
  assumes "line = chars (d # ds)" and "list_all (\<lambda>d. d < 10) (d # ds)" and "length line < 80"
  shows "\<exists>s'. leaves (reader line) SCAN_INT (0, s) (ld64 (mem s) (regs s 4), s')
    \<and> regs s' 0 = of_int (if mem s (regs s 4 - 96 + of_nat (length line)) = 0x2D then - number (d # ds) else number (d # ds))"
proof -
  define n where "n = length line"
  have got: "line = take 80 line" and n: "n < 80" "line \<noteq> []" "length line \<le> 80" using assms by (auto simp: n_def)
  let ?x = "mem s (regs s 4 - 96 + of_nat n)"
  obtain t where w: "steps (reader line) SCAN_INT (0, s) (39, t)" and r: "regs t 4 = regs s 4 - 96" "regs t 1 = of_nat n"
      "regs t 9 = 0" "regs t 10 = 0" "regs t 11 = 1"
    and m: "mem t = st_bytes (st64 (mem s) (regs s 4 - 8) (regs s 3)) (regs s 4 - 96) line"
    using to_loop [OF got, of s] n by (auto simp: n_def)
  have h: "holds (mem t) (regs t 4) line" unfolding m r(1) using n by (intro holds_st_bytes) simp
  obtain t1 where w1: "steps (reader line) SCAN_INT (39, t) (39, t1)" and r1: "regs t1 9 = accumulate 0 (d # ds)"
      "regs t1 10 = of_nat n" "map (regs t1) [1, 3, 4, 11] = map (regs t) [1, 3, 4, 11]" "mem t1 = mem t"
    using digits_loop [of t "[]" "d # ds" "[]" n "reader line"] assms h r n by (auto simp: n_def)
  have s1: "sep (regs s 4 - 96) n (regs s 4 - 96 + of_nat n) 1" and s2: "sep (regs s 4 - 8) 8 (regs s 4 - 96 + of_nat n) 1"
    using n unat_of_nat_u64 [of n] unat_sub64 [of 0 "of_nat n"] by (auto simp: sep_def unat_sub64 n_def)
  have x: "mem t (regs t 4 + regs t1 10) = ?x"
  proof -
    let ?a = "regs s 4 - 96 + of_nat n" and ?m = "st64 (mem s) (regs s 4 - 8) (regs s 3)"
    have "st_bytes ?m (regs s 4 - 96) line ?a = ?m ?a"
      by (rule st_bytes_other) (use sep_byte_other [OF s1, of 0] in \<open>simp add: n_def\<close>)
    moreover have "?m ?a = mem s ?a" by (rule st64_other) (use sep_byte_other [OF s2, of 0] in simp)
    ultimately show ?thesis by (simp add: m r r1)
  qed
  have "\<exists>t2. steps (reader line) SCAN_INT (39, t1) (88, t2) \<and> regs t2 9 = regs t1 9 \<and> regs t2 4 = regs t1 4
    \<and> (sint (regs t2 11) < 0 \<longleftrightarrow> ?x = 0x2D) \<and> mem t2 = mem t1"
  proof (cases "?x = 0x2D")
    case True
    then obtain u where u: "walk (reader line) SCAN_INT 4 (39, t1) = Some (56, u)"
      "regs u = (regs t1)(11 := 0xFFFFFFFFFFFFFFFF, 10 := of_nat (Suc n))" "mem u = mem t1"
      using is_minus [of t1 "reader line"] x r r1 by (auto simp: add.commute)
    then obtain t2 where u2: "walk (reader line) SCAN_INT 2 (56, u) = Some (88, t2)" "regs t2 = regs u" "mem t2 = mem t1"
      using at_bound [of u n "Suc n" "reader line"] n r r1 by auto
    show ?thesis using steps_trans [OF walk_steps [OF u(1)] walk_steps [OF u2(1)]] u u2 True by (intro exI [of _ t2]) auto
  next
    case False
    then obtain u where u: "walk (reader line) SCAN_INT 2 (39, t1) = Some (56, u)" "regs u = regs t1" "mem u = mem t1"
      using not_minus [of t1 "reader line"] x r r1 by auto
    then obtain t2 where u2: "walk (reader line) SCAN_INT 2 (56, u) = Some (88, t2)" "regs t2 = regs u" "mem t2 = mem t1"
      using at_bound [of u n n "reader line"] n r r1 by auto
    show ?thesis using steps_trans [OF walk_steps [OF u(1)] walk_steps [OF u2(1)]] u u2 r r1 False by (intro exI [of _ t2]) auto
  qed
  then obtain t2 where w2: "steps (reader line) SCAN_INT (39, t1) (88, t2)" and r2: "regs t2 9 = regs t1 9" "regs t2 4 = regs t1 4"
    "sint (regs t2 11) < 0 \<longleftrightarrow> ?x = 0x2D" "mem t2 = mem t1" by blast
  show ?thesis
    using finish [OF steps_trans [OF w steps_trans [OF w1 w2]] _ n(3)] r r1 r2 m by (auto simp: accumulate_number n_def)
qed

theorem scan_reads_past_input_witness:
  "\<exists>s'. leaves (reader [0x35]) SCAN_INT (0, machine 0x9000 (\<lambda>_. 0x2D)) (ld64 (\<lambda>_. 0x2D) 0x9000, s') \<and> regs s' 0 = of_int (- 5)"
  using scan_reads_past_input [of "[0x35]" 5 "[]" "machine 0x9000 (\<lambda>_. 0x2D)"]
  by (auto simp: number_def)

end
