(* ===== verification/Loader.thy ===== *)
theory Loader
  imports Prelude
begin

text \<open>
  \<open>src/x86/loader.rs\<close>: telling saved bytecode from source text. The two constants of the container
  format (\<open>JUMP_OVER_MAGIC\<close>, \<open>MAGIC\<close>) belong to the compiler crate and are parameters.
\<close>

datatype input_kind = Source | Bytecode nat

text \<open>\<open>rest.starts_with(p)\<close> and \<open>rest.iter().position(|b| b == c)\<close>.\<close>

definition starts_with :: "bytes \<Rightarrow> bytes \<Rightarrow> bool" where
  "starts_with bs p \<longleftrightarrow> take (length p) bs = p"

fun position :: "u8 \<Rightarrow> bytes \<Rightarrow> nat option" where
  "position c [] = None"
| "position c (b # bs) = (if b = c then Some 0 else map_option Suc (position c bs))"

text \<open>The optional interpreter line: the rest behind its newline, \<open>None\<close> when the line has no end.\<close>

definition skip_shebang :: "bytes \<Rightarrow> bytes option" where
  "skip_shebang bs = (if starts_with bs [0x23, 0x21]
     then (case position 0x0A bs of Some nl \<Rightarrow> Some (drop (nl + 1) bs) | None \<Rightarrow> None)
     else Some bs)"

definition skip_jump :: "bytes \<Rightarrow> bytes \<Rightarrow> bytes" where
  "skip_jump jump bs = (if starts_with bs jump then drop (length jump) bs else bs)"

definition sniff :: "bytes \<Rightarrow> bytes \<Rightarrow> bytes \<Rightarrow> input_kind" where
  "sniff jump magic bs = (case skip_shebang bs of None \<Rightarrow> Source
     | Some rest0 \<Rightarrow> (let rest = skip_jump jump rest0 in
         if starts_with rest magic then Bytecode (length bs - length rest + length magic) else Source))"

section \<open>Lemmas\<close>

lemma starts_with_append [simp]: "starts_with (p @ bs) p"
  by (simp add: starts_with_def)

lemma starts_withD: "starts_with bs p \<Longrightarrow> bs = p @ drop (length p) bs"
  unfolding starts_with_def by (metis append_take_drop_id)

lemma starts_with_iff: "starts_with bs p \<longleftrightarrow> (\<exists>r. bs = p @ r)"
  using starts_withD by auto

lemma position_append: "c \<notin> set xs \<Longrightarrow> position c (xs @ c # ys) = Some (length xs)"
  by (induction xs) auto

lemma position_less: "position c bs = Some i \<Longrightarrow> i < length bs"
  by (induction bs arbitrary: i) (auto split: if_splits)

text \<open>What the two skips leave is a suffix of the input.\<close>

lemma skip_shebang_suffix: "skip_shebang bs = Some r \<Longrightarrow> suffix r bs"
  by (auto simp: skip_shebang_def suffix_drop split: if_splits option.splits)

lemma skip_jump_suffix: "suffix (skip_jump jump bs) bs"
  by (simp add: skip_jump_def suffix_drop)

section \<open>Properties\<close>

text \<open>
  Classification is sound: when \<open>sniff\<close> says bytecode with its payload at \<open>n\<close>, then \<open>n\<close> is inside the
  input and the bytes right before it are the container's magic.
\<close>

theorem sniff_sound:
  assumes "sniff jump magic bs = Bytecode n"
  shows "n \<le> length bs \<and> length magic \<le> n \<and> take (length magic) (drop (n - length magic) bs) = magic"
proof -
  obtain r0 where r0: "skip_shebang bs = Some r0" using assms by (auto simp: sniff_def split: option.splits)
  define r where "r = skip_jump jump r0"
  have m: "starts_with r magic" and n: "n = length bs - length r + length magic"
    using assms r0 by (auto simp: sniff_def r_def Let_def split: if_splits)
  have "suffix r bs"
    using suffix_order.trans [OF skip_jump_suffix skip_shebang_suffix [OF r0]] by (simp add: r_def)
  then obtain p where p: "bs = p @ r" by (auto simp: suffix_def)
  obtain q where q: "r = magic @ q" using m by (auto simp: starts_with_iff)
  show ?thesis by (simp add: n p q)
qed

text \<open>
  C27. Files the compiler writes are recognised: an optional interpreter line, an optional jump prefix, the
  magic and any payload classify as bytecode, and the payload starts where the result says. (The magic must
  not itself begin with the jump prefix or with \<open>#!\<close>, as the two constants of the container do not.)
\<close>

theorem sniff_complete:
  assumes "shebang = [] \<or> (\<exists>l. shebang = [0x23, 0x21] @ l @ [0x0A] \<and> 0x0A \<notin> set l)" and "prefix_bytes = [] \<or> prefix_bytes = jump"
    and "\<not> starts_with (magic @ payload) jump" and "\<not> starts_with (prefix_bytes @ magic @ payload) [0x23, 0x21]"
  shows "sniff jump magic (shebang @ prefix_bytes @ magic @ payload) = Bytecode (length (shebang @ prefix_bytes @ magic))
    \<and> drop (length (shebang @ prefix_bytes @ magic)) (shebang @ prefix_bytes @ magic @ payload) = payload"
proof -
  let ?rest = "prefix_bytes @ magic @ payload"
  have "skip_shebang (shebang @ ?rest) = Some ?rest"
  proof (cases "shebang = []")
    case True
    then show ?thesis using assms(4) by (simp add: skip_shebang_def)
  next
    case False
    then obtain l where l: "shebang = [0x23, 0x21] @ l @ [0x0A]" "0x0A \<notin> set l" using assms(1) by blast
    have "position 0x0A (shebang @ ?rest) = Some (length l + 2)"
      using position_append [of "0x0A" "[0x23, 0x21] @ l" ?rest] l by simp
    moreover have "starts_with (shebang @ ?rest) [0x23, 0x21]" by (simp add: starts_with_def l)
    ultimately show ?thesis by (simp add: skip_shebang_def l)
  qed
  moreover have "skip_jump jump ?rest = magic @ payload"
    using assms(2,3) by (auto simp: skip_jump_def)
  ultimately show ?thesis by (simp add: sniff_def)
qed

theorem sniff_complete_witness:
  "sniff [0xEB, 0x08] [0x52, 0x42] ([0x23, 0x21, 0x2F, 0x0A] @ [0xEB, 0x08] @ [0x52, 0x42] @ [7]) = Bytecode 8"
  using sniff_complete [of "[0x23, 0x21, 0x2F, 0x0A]" "[0xEB, 0x08]" "[0xEB, 0x08]" "[0x52, 0x42]" "[7]"]
  by (simp add: starts_with_def)

theorem sniff_sound_witness:
  "sniff [0xEB] [0x52] [0xEB, 0x52, 7] = Bytecode 2 \<and> take 1 (drop 1 [0xEB, 0x52, 7 :: u8]) = [0x52]"
  using sniff_sound [of "[0xEB]" "[0x52]" "[0xEB, 0x52, 7]" 2]
  by (simp add: sniff_def skip_shebang_def skip_jump_def starts_with_def)

end
