(* ===== verification/Memory_Pages.thy ===== *)
theory Memory_Pages
  imports Prelude
begin

text \<open>
  \<open>src/x86/memory.rs\<close>: the page system calls of the JIT. The kernel is a parameter: \<open>sys nr args\<close> is the
  raw value it returns in \<open>rax\<close>.
\<close>

definition SYS_MMAP :: u64 where "SYS_MMAP = 9"
definition SYS_MPROTECT :: u64 where "SYS_MPROTECT = 10"
definition SYS_MUNMAP :: u64 where "SYS_MUNMAP = 11"
definition PROT_READ :: u64 where "PROT_READ = 1"
definition PROT_WRITE :: u64 where "PROT_WRITE = 2"
definition PROT_EXEC :: u64 where "PROT_EXEC = 4"
definition MAP_PRIVATE :: u64 where "MAP_PRIVATE = 2"
definition MAP_ANONYMOUS :: u64 where "MAP_ANONYMOUS = 0x20"
definition ERR_MAX :: int where "ERR_MAX = - 4095"

type_synonym kernel_fn = "u64 \<Rightarrow> u64 list \<Rightarrow> u64"

text \<open>\<open>Inl\<close> is the operating system's error number.\<close>

type_synonym 'a os_result = "u32 + 'a"

text \<open>\<open>check\<close>: values in \<open>-4095..=-1\<close> are negative error numbers.\<close>

definition check :: "u64 \<Rightarrow> usize os_result" where
  "check ret = (if ERR_MAX \<le> sint ret \<and> sint ret < 0 then Inl (ucast (- ret)) else Inr ret)"

definition syscall3 :: "kernel_fn \<Rightarrow> u64 \<Rightarrow> u64 \<Rightarrow> u64 \<Rightarrow> u64 \<Rightarrow> u64" where
  "syscall3 sys nr a b c = sys nr [a, b, c]"

text \<open>The argument registers of \<open>mmap\<close>: address hint, length, protection, flags, file descriptor, offset.\<close>

definition mmap_args :: "usize \<Rightarrow> u64 list" where
  "mmap_args n = [0, n, PROT_WRITE, MAP_PRIVATE OR MAP_ANONYMOUS, - 1, 0]"

definition syscall6_mmap :: "kernel_fn \<Rightarrow> usize \<Rightarrow> u64" where
  "syscall6_mmap sys n = sys SYS_MMAP (mmap_args n)"

definition map_rw :: "kernel_fn \<Rightarrow> usize \<Rightarrow> u64 os_result" where
  "map_rw sys n = check (syscall6_mmap sys n)"

definition protect_exec :: "kernel_fn \<Rightarrow> u64 \<Rightarrow> usize \<Rightarrow> unit os_result" where
  "protect_exec sys addr n =
     (case check (syscall3 sys SYS_MPROTECT addr n (PROT_READ OR PROT_EXEC)) of Inl e \<Rightarrow> Inl e | Inr _ \<Rightarrow> Inr ())"

text \<open>The result of \<open>munmap\<close> is dropped.\<close>

definition unmap :: "kernel_fn \<Rightarrow> u64 \<Rightarrow> usize \<Rightarrow> unit" where
  "unmap sys addr n = (let _ = syscall3 sys SYS_MUNMAP addr n 0 in ())"

section \<open>The error range\<close>

lemma check_cases_eq:
  "check ret = (if 2 ^ 64 - 4095 \<le> unat ret then Inl (of_nat (2 ^ 64 - unat ret)) else Inr ret)"
proof -
  have u: "int (unat ret) = uint ret" "unat ret < 2 ^ 64" using unat_u64_less [of ret] by simp_all
  have u0: "0 \<le> uint ret" "uint ret < 2 ^ 64" using unsigned_less [of ret, where 'a = int] by simp_all
  have e: "sint ret = (uint ret + 2 ^ 63) mod 2 ^ 64 - 2 ^ 63"
    by (simp add: sint_uint signed_take_bit_eq_take_bit_shift take_bit_eq_mod)
  have s: "sint ret = (if uint ret < 2 ^ 63 then uint ret else uint ret - 2 ^ 64)"
  proof (cases "uint ret < 2 ^ 63")
    case True
    then have "(uint ret + 2 ^ 63) mod 2 ^ 64 = uint ret + 2 ^ 63"
      using u0 by (intro mod_pos_pos_trivial) simp_all
    then show ?thesis using True e by simp
  next
    case False
    then have "(uint ret + 2 ^ 63 - 2 ^ 64) mod 2 ^ 64 = uint ret + 2 ^ 63 - 2 ^ 64"
      using u0 by (intro mod_pos_pos_trivial) simp_all
    then have "(uint ret + 2 ^ 63) mod 2 ^ 64 = uint ret + 2 ^ 63 - 2 ^ 64"
      by (metis minus_mod_self2)
    then show ?thesis using False e by simp
  qed
  have i: "(2 ^ 64 - 4095 \<le> unat ret) \<longleftrightarrow> ERR_MAX \<le> sint ret \<and> sint ret < 0"
  proof -
    define z where "z = uint ret"
    have "unat ret = nat z" "0 \<le> z" "z < 2 ^ 64" "sint ret = (if z < 2 ^ 63 then z else z - 2 ^ 64)"
      using u0 s by (simp_all add: z_def)
    then show ?thesis by (auto simp: ERR_MAX_def)
  qed
  show ?thesis
  proof (cases "2 ^ 64 - 4095 \<le> unat ret")
    case True
    define k where "k = 2 ^ 64 - unat ret"
    have k: "k < 2 ^ 32" using True u by (simp add: k_def)
    have "ret \<noteq> 0" using True by auto
    then have "unat (- ret) = k"
      using unat_sub_if' [of 0 ret] by (simp add: unat_eq_zero k_def)
    then have "unat (ucast (- ret) :: u32) = unat (of_nat k :: u32)"
      using k by (simp add: unsigned_ucast_eq take_bit_nat_eq_self)
    then have "ucast (- ret) = (of_nat k :: u32)" by (simp only: word_unat_eq_iff)
    then show ?thesis using True i by (simp add: check_def k_def)
  next
    case False
    then show ?thesis using i by (auto simp: check_def)
  qed
qed

section \<open>Properties\<close>

text \<open>
  C28. \<open>check\<close> splits the kernel's return values exactly at the error range: the 4095 values from
  \<open>-4095\<close> to \<open>-1\<close> become the error number (between 1 and 4095), every other value, addresses with the top
  bit set included, is returned unchanged.
\<close>

theorem check_cases:
  "check ret = (if 2 ^ 64 - 4095 \<le> unat ret then Inl (of_nat (2 ^ 64 - unat ret)) else Inr ret)"
  by (rule check_cases_eq)

end
