(* ===== verification/Image.thy ===== *)
theory Image
  imports Target_Types
begin

text \<open>
  What the two image writers (\<open>src/x86/elf.rs\<close>, \<open>src/x86/shlib.rs\<close>) share: a file image is a byte vector
  of fixed length that is filled by a sequence of slice writes, each of which panics when it is out of
  range; and the constants of the container format, which belong to the compiler crate.
\<close>

section \<open>Container constants\<close>

record container =
  ct_jump :: bytes
  ct_magic :: bytes
  ct_preamble_len :: nat
  ct_kind_shared :: u8
  ct_kind_shared_types :: u8
  ct_version :: u16

text \<open>The array types of the constants: \<open>[u8; 2]\<close> and \<open>[u8; 8]\<close>; the preamble is 13 bytes.\<close>

definition container_ok :: "container \<Rightarrow> bool" where
  "container_ok ct \<longleftrightarrow> length (ct_jump ct) = 2 \<and> length (ct_magic ct) = 8 \<and> ct_preamble_len ct = 13"

text \<open>The constants as the examples below take them.\<close>

definition sample_container :: container where
  "sample_container = \<lparr>ct_jump = [0xEB, 0x0B], ct_magic = [0xF0, 0x9F, 0x90, 0x95, 0xF0, 0x9F, 0x87, 0xA8], ct_preamble_len = 13,
     ct_kind_shared = 3, ct_kind_shared_types = 4, ct_version = 1\<rparr>"

section \<open>Slices and sequences of writes\<close>

definition slice :: "'a list \<Rightarrow> nat \<Rightarrow> nat \<Rightarrow> 'a list" where
  "slice xs at n = take n (drop at xs)"

fun put_all :: "'a list \<Rightarrow> (nat \<times> 'a list) list \<Rightarrow> 'a list res" where
  "put_all img [] = Inr img"
| "put_all img ((at, bs) # ws) = bindr (put_slice img at bs) (\<lambda>img'. put_all img' ws)"

text \<open>All writes of the sequence lie in \<open>a..b\<close>.\<close>

definition writes_in :: "nat \<Rightarrow> nat \<Rightarrow> (nat \<times> 'a list) list \<Rightarrow> bool" where
  "writes_in a b ws \<longleftrightarrow> list_all (\<lambda>(at, bs). a \<le> at \<and> at + length bs \<le> b) ws"

text \<open>No write of the sequence touches \<open>a..b\<close>.\<close>

definition writes_off :: "nat \<Rightarrow> nat \<Rightarrow> (nat \<times> 'a list) list \<Rightarrow> bool" where
  "writes_off a b ws \<longleftrightarrow> list_all (\<lambda>(at, bs). at + length bs \<le> a \<or> b \<le> at) ws"

text \<open>Consecutive writes starting at \<open>at\<close>.\<close>

fun consec :: "nat \<Rightarrow> 'a list list \<Rightarrow> (nat \<times> 'a list) list" where
  "consec at [] = []"
| "consec at (bs # bss) = (at, bs) # consec (at + length bs) bss"

lemma slice_length: "at + n \<le> length xs \<Longrightarrow> length (slice xs at n) = n"
  by (simp add: slice_def)

lemma slice_slice: "a + m \<le> n \<Longrightarrow> slice (slice xs at n) a m = slice xs (at + a) m"
  by (simp add: slice_def drop_take min_def add.commute)

lemma slice_append:
  "slice (xs @ ys) at n = (if length xs \<le> at then slice ys (at - length xs) n
     else if at + n \<le> length xs then slice xs at n else take n (drop at xs @ ys))"
  by (auto simp: slice_def)

lemma slice_0_all: "length xs = n \<Longrightarrow> slice xs 0 n = xs"
  by (simp add: slice_def)

lemma nth_slice: "i < n \<Longrightarrow> at + n \<le> length xs \<Longrightarrow> slice xs at n ! i = xs ! (at + i)"
  by (simp add: slice_def)

lemma slice_join: "slice xs at m = ys \<Longrightarrow> slice xs (at + m) n = zs \<Longrightarrow> slice xs at (m + n) = ys @ zs"
  by (auto simp: slice_def take_add add.commute)

lemma slice_replicate: "at + n \<le> m \<Longrightarrow> slice (replicate m x) at n = replicate n x"
  by (simp add: slice_def min_def)

lemma slice_splice_same: "at + length bs \<le> length xs \<Longrightarrow> slice (splice xs at bs) at (length bs) = bs"
  by (simp add: slice_def splice_read)

lemma slice_splice_other:
  assumes "b + length bs \<le> length xs" and "at + n \<le> length xs" and "b + length bs \<le> at \<or> at + n \<le> b"
  shows "slice (splice xs b bs) at n = slice xs at n"
  using assms by (intro nth_equalityI) (auto simp: slice_length nth_slice nth_splice)

text \<open>A write inside a window, seen through the window.\<close>

lemma slice_splice_within:
  assumes "at \<le> b" and "b + length bs \<le> at + n" and "at + n \<le> length xs"
  shows "slice (splice xs b bs) at n = splice (slice xs at n) (b - at) bs"
  using assms by (intro nth_equalityI) (auto simp: slice_length nth_slice nth_splice add.commute)

lemma splice_all: "length bs = length xs \<Longrightarrow> splice xs 0 bs = bs"
  by (simp add: splice_def)

lemma put_all_append: "put_all img (ws @ ws') = bindr (put_all img ws) (\<lambda>i. put_all i ws')"
  by (induction img ws rule: put_all.induct) (simp_all add: bindr_assoc cong: bindr_cong)

lemma put_all_ok:
  "writes_in a (length img) ws \<Longrightarrow> \<exists>img'. put_all img ws = Inr img' \<and> length img' = length img"
proof (induction img ws rule: put_all.induct)
  case (2 img at bs ws)
  then have "at + length bs \<le> length img" "writes_in a (length img) ws" by (simp_all add: writes_in_def)
  then show ?case using "2.IH" [of "splice img at bs"] by (simp add: put_slice_def)
qed simp

lemma put_all_length: "put_all img ws = Inr img' \<Longrightarrow> length img' = length img"
  by (induction img ws rule: put_all.induct) (auto simp: bindr_Inr_conv put_slice_Inr_conv)

lemma put_all_not_fault: "put_all img ws \<noteq> Inl (Fault e) \<and> put_all img ws \<noteq> Inl Diverge"
  by (induction img ws rule: put_all.induct) (auto simp: bindr_Inl_conv put_slice_def)

text \<open>A sequence that stays off a window leaves it unchanged.\<close>

lemma put_all_off:
  "put_all img ws = Inr img' \<Longrightarrow> writes_off at (at + n) ws \<Longrightarrow> at + n \<le> length img \<Longrightarrow> slice img' at n = slice img at n"
proof (induction img ws rule: put_all.induct)
  case (2 img b bs ws)
  then have b: "b + length bs \<le> length img" "put_all (splice img b bs) ws = Inr img'"
    by (auto simp: bindr_Inr_conv put_slice_Inr_conv)
  then have "slice img' at n = slice (splice img b bs) at n"
    using "2.IH" [OF _ b(2)] "2.prems" by (simp add: put_slice_def writes_off_def)
  then show ?case using b(1) "2.prems" by (auto simp: slice_splice_other writes_off_def)
qed simp

text \<open>A sequence of writes that is one consecutive run is one write of the concatenation.\<close>

lemma put_all_consec:
  "put_all img (consec at bss) = (if bss = [] then Inr img else put_slice img at (concat bss))"
proof (induction bss arbitrary: img at)
  case (Cons bs bss)
  show ?case
  proof (cases "bss = []")
    case True
    then show ?thesis by (simp add: put_slice_def)
  next
    case False
    have "at + length bs \<le> length img \<Longrightarrow> at + length bs + length (concat bss) \<le> length img \<Longrightarrow>
        splice (splice img at bs) (at + length bs) (concat bss) = splice img at (bs @ concat bss)"
      by (simp add: splice_def add.left_commute add.commute)
    then show ?thesis using False by (simp add: Cons.IH put_slice_def)
  qed
qed simp

text \<open>What a write in the middle of a sequence leaves in the final image.\<close>

lemma put_all_read:
  assumes "put_all img (ws @ (at, bs) # ws') = Inr img'" and "writes_off at (at + length bs) ws'"
  shows "slice img' at (length bs) = bs"
proof -
  obtain i where i: "put_all img ws = Inr i" "at + length bs \<le> length i" "put_all (splice i at bs) ws' = Inr img'"
    using assms(1) by (auto simp: put_all_append bindr_Inr_conv put_slice_Inr_conv)
  show ?thesis using put_all_off [OF i(3) assms(2)] i(2) by (simp add: slice_splice_same)
qed

lemma put_all_read_consec:
  assumes "put_all img (ws @ consec at bss @ ws') = Inr img'" and "bss \<noteq> []" and "writes_off at (at + length (concat bss)) ws'"
  shows "slice img' at (length (concat bss)) = concat bss"
proof -
  have "put_all img (ws @ (at, concat bss) # ws') = Inr img'"
    using assms(1,2) by (simp add: put_all_append put_all_consec)
  then show ?thesis by (rule put_all_read) (rule assms(3))
qed

text \<open>Every write of a run of pairwise disjoint writes is still there at the end.\<close>

fun disjoint_writes :: "(nat \<times> 'a list) list \<Rightarrow> bool" where
  "disjoint_writes [] \<longleftrightarrow> True"
| "disjoint_writes ((at, bs) # ws) \<longleftrightarrow> writes_off at (at + length bs) ws \<and> disjoint_writes ws"

lemma put_all_read_disjoint:
  assumes "put_all img (ws @ g @ ws') = Inr img'" and "disjoint_writes g" and "(at, bs) \<in> set g"
    and "writes_off at (at + length bs) ws'"
  shows "slice img' at (length bs) = bs"
proof -
  obtain g1 g2 where g: "g = g1 @ (at, bs) # g2" using assms(3) by (auto simp: in_set_conv_decomp)
  have "disjoint_writes ((at, bs) # g2)" using assms(2) unfolding g by (induction g1) auto
  then have "writes_off at (at + length bs) (g2 @ ws')" using assms(4) by (auto simp: writes_off_def)
  moreover have "put_all img ((ws @ g1) @ (at, bs) # (g2 @ ws')) = Inr img'" using assms(1) by (simp add: g)
  ultimately show ?thesis by (intro put_all_read)
qed

lemma consec_append: "consec at (bss @ bss') = consec at bss @ consec (at + length (concat bss)) bss'"
  by (induction bss arbitrary: at) (simp_all add: add.assoc)

lemma writes_in_simps [simp]:
  "writes_in a b []"
  "writes_in a b ((at, bs) # ws) \<longleftrightarrow> a \<le> at \<and> at + length bs \<le> b \<and> writes_in a b ws"
  "writes_in a b (ws @ ws') \<longleftrightarrow> writes_in a b ws \<and> writes_in a b ws'"
  by (auto simp: writes_in_def)

lemma writes_off_simps [simp]:
  "writes_off a b []"
  "writes_off a b ((at, bs) # ws) \<longleftrightarrow> (at + length bs \<le> a \<or> b \<le> at) \<and> writes_off a b ws"
  "writes_off a b (ws @ ws') \<longleftrightarrow> writes_off a b ws \<and> writes_off a b ws'"
  by (auto simp: writes_off_def)

lemma writes_in_off: "writes_in c d ws \<Longrightarrow> d \<le> a \<or> b \<le> c \<Longrightarrow> writes_off a b ws"
  by (induction ws) (auto simp: writes_in_def writes_off_def)

lemma writes_in_mono: "writes_in c d ws \<Longrightarrow> a \<le> c \<Longrightarrow> d \<le> b \<Longrightarrow> writes_in a b ws"
  by (induction ws) (auto simp: writes_in_def)

lemma writes_in_consec: "writes_in a b (consec at bss)" if "a \<le> at" "at + length (concat bss) \<le> b"
  using that by (induction bss arbitrary: at) auto

section \<open>Reading integers back\<close>

definition img16 :: "bytes \<Rightarrow> nat \<Rightarrow> u16" where "img16 img at = from_le (slice img at 2)"
definition img32 :: "bytes \<Rightarrow> nat \<Rightarrow> u32" where "img32 img at = from_le (slice img at 4)"
definition img64 :: "bytes \<Rightarrow> nat \<Rightarrow> u64" where "img64 img at = from_le (slice img at 8)"

text \<open>An integer inside a window of known content.\<close>

lemma rd_window:
  "slice img at n = bs \<Longrightarrow> a + 2 \<le> n \<Longrightarrow> img16 img (at + a) = from_le (slice bs a 2)"
  "slice img at n = bs \<Longrightarrow> a + 4 \<le> n \<Longrightarrow> img32 img (at + a) = from_le (slice bs a 4)"
  "slice img at n = bs \<Longrightarrow> a + 8 \<le> n \<Longrightarrow> img64 img (at + a) = from_le (slice bs a 8)"
  by (auto simp: img16_def img32_def img64_def slice_slice)

text \<open>A displacement that fits 32 bits is restored by sign extension.\<close>

lemma displacement_reaches:
  assumes "- (2 ^ 31) \<le> sint d" and "sint d < 2 ^ 31"
  shows "scast (ucast (d :: u64) :: i32) = d"
proof -
  have "signed_take_bit 31 (sint d) = sint d" using assms by (simp add: signed_take_bit_int_eq_self)
  moreover have "sint (ucast d :: i32) = signed_take_bit 31 (sint d)"
  proof -
    have "sint d = signed_take_bit 63 (uint d)" by (simp add: sint_uint)
    then show ?thesis by (simp add: signed_ucast_eq signed_take_bit_signed_take_bit)
  qed
  ultimately have "sint (ucast d :: i32) = sint d" by simp
  then show ?thesis by (metis scast_id scast_eq)
qed

section \<open>Program headers and the program loader\<close>

text \<open>The page size of both writers and of the JIT.\<close>

definition PAGE :: nat where "PAGE = 0x1000"

lemma PAGE_pos [simp]: "0 < PAGE"
  by (simp add: PAGE_def)

text \<open>The fields of one program header, in file order.\<close>

definition ph_fields :: "u32 \<Rightarrow> u32 \<Rightarrow> nat \<Rightarrow> nat \<Rightarrow> nat \<Rightarrow> nat \<Rightarrow> bytes list" where
  "ph_fields t f off v fs ms = [le32 t, le32 f, le64 (of_nat off), le64 (of_nat v), le64 (of_nat v), le64 (of_nat fs),
     le64 (of_nat ms), le64 (of_nat PAGE)]"

lemma length_ph_fields [simp]: "length (concat (ph_fields t f off v fs ms)) = 56"
  by (simp add: ph_fields_def)

text \<open>
  The loader reads the program headers the ELF header points to and maps each \<open>PT_LOAD\<close> segment: the file
  bytes first, zeros up to the memory size. \<open>mapped img a\<close> is the protection and the byte at address \<open>a\<close>.
\<close>

record segment =
  sg_flags :: u32
  sg_off :: nat
  sg_vaddr :: nat
  sg_filesz :: nat
  sg_memsz :: nat

definition read_segment :: "bytes \<Rightarrow> nat \<Rightarrow> segment" where
  "read_segment img at = \<lparr>sg_flags = img32 img (at + 4), sg_off = unat (img64 img (at + 8)), sg_vaddr = unat (img64 img (at + 16)),
     sg_filesz = unat (img64 img (at + 32)), sg_memsz = unat (img64 img (at + 40))\<rparr>"

definition segments :: "bytes \<Rightarrow> segment list" where
  "segments img = map (read_segment img) (filter (\<lambda>at. img32 img at = 1)
     (map (\<lambda>i. unat (img64 img 32) + i * unat (img16 img 54)) [0..<unat (img16 img 56)]))"

definition mapped :: "bytes \<Rightarrow> nat \<Rightarrow> (u32 \<times> u8) option" where
  "mapped img a = map_option (\<lambda>s. (sg_flags s, if a - sg_vaddr s < sg_filesz s then img ! (sg_off s + (a - sg_vaddr s)) else 0))
     (find (\<lambda>s. sg_vaddr s \<le> a \<and> a < sg_vaddr s + sg_memsz s) (segments img))"

lemma read_segment_fields:
  assumes "slice img at 56 = concat (ph_fields t f off v fs ms)" and "off < 2 ^ 64" "v < 2 ^ 64" "fs < 2 ^ 64" "ms < 2 ^ 64"
  shows "img32 img at = t" and "read_segment img at = \<lparr>sg_flags = f, sg_off = off, sg_vaddr = v, sg_filesz = fs, sg_memsz = ms\<rparr>"
  using rd_window(2) [OF assms(1), of 0] rd_window(2) [OF assms(1), of 4] rd_window(3) [OF assms(1), of 8]
    rd_window(3) [OF assms(1), of 16] rd_window(3) [OF assms(1), of 32] rd_window(3) [OF assms(1), of 40] assms(2-)
  by (simp_all add: read_segment_def ph_fields_def slice_def)

end
