(* ===== verification/Elf_Writer.thy ===== *)
theory Elf_Writer
  imports Image Decimal
begin

text \<open>
  \<open>src/x86/elf.rs\<close>: the static executable. Sizes and file offsets are natural numbers, converted to the
  width of the field when they are written; address arithmetic on values of the machine code record is
  64-bit and wraps, as in a release build.
\<close>

section \<open>Constants and helpers\<close>

definition BASE_VADDR :: nat where "BASE_VADDR = 0x00400000"

definition entry_offset :: nat where "entry_offset = 64 + 3 * 56"

definition sym_info :: "u8 \<Rightarrow> u8 \<Rightarrow> u64" where
  "sym_info typ bind = push_bit 4 (ucast bind) OR ucast typ"

text \<open>\<open>add_string\<close>: the extended table and the offset of the new string.\<close>

definition add_string :: "bytes \<Rightarrow> bytes \<Rightarrow> bytes \<times> u64" where
  "add_string strtab s = (strtab @ s @ [0], of_nat (length strtab))"

definition preamble_len_for :: "container \<Rightarrow> bool \<Rightarrow> nat" where
  "preamble_len_for ct ep = (if ep then ct_preamble_len ct else 0)"

definition heap_size_pages :: "u64 \<Rightarrow> nat" where
  "heap_size_pages n = align_up (unat n) PAGE"

text \<open>\<open>write_sh\<close>, its last argument unused as in the source.\<close>

definition write_sh ::
  "nat \<Rightarrow> u32 \<Rightarrow> u32 \<Rightarrow> u64 \<Rightarrow> u64 \<Rightarrow> u64 \<Rightarrow> u64 \<Rightarrow> u32 \<Rightarrow> u32 \<Rightarrow> u64 \<Rightarrow> u64 \<Rightarrow> u64 \<Rightarrow> (nat \<times> bytes) list" where
  "write_sh at name typ flags addr offset sz link info addr_align ent_size unused =
     [(at, le32 name), (at + 4, le32 typ), (at + 8, le64 flags), (at + 16, le64 addr), (at + 24, le64 offset),
      (at + 32, le64 sz), (at + 40, le32 link), (at + 44, le32 info), (at + 48, le64 addr_align), (at + 56, le64 ent_size)]"

text \<open>\<open>write_ph\<close>\<close>

definition write_ph :: "nat \<Rightarrow> u32 \<Rightarrow> u32 \<Rightarrow> nat \<Rightarrow> nat \<Rightarrow> nat \<Rightarrow> nat \<Rightarrow> (nat \<times> bytes) list" where
  "write_ph at p_type flags offset vaddr filesz memsz =
     [(at, le32 p_type), (at + 4, le32 flags), (at + 8, le64 (of_nat offset)), (at + 16, le64 (of_nat vaddr)),
      (at + 24, le64 (of_nat vaddr)), (at + 32, le64 (of_nat filesz)), (at + 40, le64 (of_nat memsz)),
      (at + 48, le64 (of_nat PAGE))]"

section \<open>Symbol table\<close>

text \<open>\<open>[name_off, info, other, shndx]\<close>\<close>

type_synonym sym_row = "u64 \<times> u64 \<times> u64 \<times> u64"

fun fn_symbols :: "nat \<Rightarrow> usize list \<Rightarrow> bytes \<times> sym_row list \<Rightarrow> bytes \<times> sym_row list" where
  "fn_symbols i [] st = st"
| "fn_symbols i (b # bs) (strtab, symbols) =
     (let name = (if i = 0 then ascii ''main'' else ascii ''fn_'' @ decimal (int i));
          (strtab', off) = add_string strtab name
      in fn_symbols (i + 1) bs (strtab', symbols @ [(off, sym_info 2 0, 0, 1)]))"

definition build_symbols :: "machine_code \<Rightarrow> bytes \<times> sym_row list" where
  "build_symbols mc = (if mc_strip_symbols mc then ([0], [])
     else let (strtab1, start_off) = add_string [0] (ascii ''_start'');
              (strtab2, symbols) = fn_symbols 0 (mc_fn_bases mc) (strtab1, [(0, 0, 0, 0), (start_off, sym_info 2 0, 0, 1)]);
              (strtab3, heap_off) = add_string strtab2 (ascii ''__heap_base'')
          in (strtab3, symbols @ [(heap_off, sym_info 1 3, 0, 3)]))"

definition sym_entry :: "sym_row \<Rightarrow> bytes" where
  "sym_entry = (\<lambda>(name_off, info, other, shndx).
     le64 name_off @ [ucast info, ucast other] @ le16 (ucast shndx) @ replicate 12 0)"

definition shstrtab :: bytes where
  "shstrtab = [0] @ ascii ''.text'' @ [0] @ ascii ''.data'' @ [0] @ ascii ''.bss'' @ [0] @ ascii ''.symtab'' @ [0] @ ascii ''.strtab''"

section \<open>Layout\<close>

record elf_offsets =
  el_code_off :: nat
  el_rx_len :: nat
  el_code_vaddr :: nat
  el_data_vaddr :: nat
  el_heap_vaddr :: nat
  el_data_off :: nat
  el_symtab_off :: nat
  el_symtab_len :: nat
  el_strtab_off :: nat
  el_strtab_len :: nat
  el_shstrtab_off :: nat
  el_shnum :: nat
  el_shoff :: nat
  el_total :: nat

definition elf_layout :: "container \<Rightarrow> bool \<Rightarrow> machine_code \<Rightarrow> elf_offsets" where
  "elf_layout ct ep mc =
     (let preamble_len = (if ep then ct_preamble_len ct else 0);
          code_off = 64 + 3 * 56;
          rx_len = preamble_len + length (mc_code mc);
          code_vaddr = BASE_VADDR + code_off;
          data_vaddr = align_up (code_vaddr + rx_len) PAGE;
          heap_vaddr = align_up (data_vaddr + length (mc_data mc)) PAGE;
          data_file_off = align_up (code_off + rx_len) PAGE;
          (strtab, symbols) = build_symbols mc;
          symtab_off = align_up (data_file_off + length (mc_data mc)) 8;
          symtab_len = (if mc_strip_symbols mc then 0 else length symbols * 24);
          strtab_off = align_up (symtab_off + symtab_len) 8;
          strtab_len = (if mc_strip_symbols mc then 0 else length strtab);
          shstrtab_off = align_up (strtab_off + strtab_len) 8;
          shnum = (if mc_strip_symbols mc then 4 else 6);
          shoff = align_up (shstrtab_off + length shstrtab) 8
      in \<lparr>el_code_off = code_off, el_rx_len = rx_len, el_code_vaddr = code_vaddr, el_data_vaddr = data_vaddr,
          el_heap_vaddr = heap_vaddr, el_data_off = data_file_off, el_symtab_off = symtab_off,
          el_symtab_len = symtab_len, el_strtab_off = strtab_off, el_strtab_len = strtab_len,
          el_shstrtab_off = shstrtab_off, el_shnum = shnum, el_shoff = shoff, el_total = shoff + shnum * 64\<rparr>)"

section \<open>Relocations\<close>

definition code_blob_vaddr :: "container \<Rightarrow> bool \<Rightarrow> elf_offsets \<Rightarrow> u64" where
  "code_blob_vaddr ct ep l = of_nat (el_code_vaddr l) + of_nat (if ep then ct_preamble_len ct else 0)"

definition or0 :: "usize option \<Rightarrow> u64" where
  "or0 x = (case x of None \<Rightarrow> 0 | Some v \<Rightarrow> v)"

fun reloc_target :: "u64 \<Rightarrow> elf_offsets \<Rightarrow> machine_code \<Rightarrow> sym \<Rightarrow> u64 res" where
  "reloc_target blob l mc (Sym_Fn i) = bindr (idx (mc_fn_bases mc) (unat i)) (\<lambda>b. Inr (blob + b))"
| "reloc_target blob l mc (Sym_String off) = Inr (of_nat (el_data_vaddr l) + off)"
| "reloc_target blob l mc (Sym_VtableOff off) = Inr (of_nat (el_data_vaddr l) + off)"
| "reloc_target blob l mc (Sym_Static i) = Inr (of_nat (el_data_vaddr l) + or0 (get_opt (mc_static_offsets mc) (unat i)))"
| "reloc_target blob l mc Sym_HeapBase = Inr (of_nat (el_heap_vaddr l))"
| "reloc_target blob l mc Sym_HelperItoa = Inr (blob + or0 (mc_helper_itoa mc))"
| "reloc_target blob l mc Sym_HelperItoaErr = Inr (blob + or0 (mc_helper_itoa_err mc))"
| "reloc_target blob l mc Sym_HelperScanInt = Inr (blob + or0 (mc_helper_scan_int mc))"
| "reloc_target blob l mc Sym_HelperRetain = Inr (blob + or0 (mc_helper_retain mc))"
| "reloc_target blob l mc Sym_HelperRelease = Inr (blob + or0 (mc_helper_release mc))"
| "reloc_target blob l mc Sym_HelperAlloc = Inr (blob + or0 (mc_helper_alloc mc))"
| "reloc_target blob l mc Sym_HelperExcEnter = Inr (blob + or0 (mc_helper_exc_enter mc))"
| "reloc_target blob l mc Sym_HelperExcPop = Inr (blob + or0 (mc_helper_exc_pop mc))"
| "reloc_target blob l mc Sym_HelperExcThrow = Inr (blob + or0 (mc_helper_exc_throw mc))"
| "reloc_target blob l mc Sym_HelperExcRethrow = Inr (blob + or0 (mc_helper_exc_rethrow mc))"
| "reloc_target blob l mc Sym_HelperExcLoad = Inr (blob + or0 (mc_helper_exc_load mc))"
| "reloc_target blob l mc Sym_HelperExcClear = Inr (blob + or0 (mc_helper_exc_clear mc))"
| "reloc_target blob l mc (Sym_ExcState off) = Inr (of_nat (el_data_vaddr l) + off)"
| "reloc_target blob l mc Sym_ArgvRsp = Inr (of_nat (el_data_vaddr l) + or0 (mc_helper_argv mc))"
| "reloc_target blob l mc (Sym_Import i) = (case get_opt (mc_import_bases mc) (unat i) of
     Some b \<Rightarrow> Inr (blob + b) | None \<Rightarrow> Inl Panic)"
| "reloc_target blob l mc (Sym_Name i) = Inr 0"

text \<open>The displacement is relative to the end of the four patched bytes.\<close>

definition rel32_of :: "u64 \<Rightarrow> u64 \<Rightarrow> usize \<Rightarrow> i32" where
  "rel32_of target blob site = (let instr_vaddr = blob + site in ucast (target - (instr_vaddr + 4)))"

definition apply_reloc :: "u64 \<Rightarrow> elf_offsets \<Rightarrow> machine_code \<Rightarrow> reloc \<Rightarrow> bytes \<times> bytes \<Rightarrow> (bytes \<times> bytes) res" where
  "apply_reloc blob l mc r = (\<lambda>(code, data). bindr (reloc_target blob l mc (r_sym r)) (\<lambda>target.
     case r_section r of
       Code \<Rightarrow> bindr (put_slice code (unat (r_site r))
            (case r_kind r of Abs64 \<Rightarrow> le64 target | Rel32Call \<Rightarrow> le32 (rel32_of target blob (r_site r))))
          (\<lambda>code'. Inr (code', data))
     | Data \<Rightarrow> (case r_kind r of
           Abs64 \<Rightarrow> bindr (put_slice data (unat (r_site r)) (le64 target)) (\<lambda>data'. Inr (code, data'))
         | Rel32Call \<Rightarrow> Inr (code, data))))"

fun apply_relocs :: "u64 \<Rightarrow> elf_offsets \<Rightarrow> machine_code \<Rightarrow> reloc list \<Rightarrow> bytes \<times> bytes \<Rightarrow> (bytes \<times> bytes) res" where
  "apply_relocs blob l mc [] s = Inr s"
| "apply_relocs blob l mc (r # rs) s = bindr (apply_reloc blob l mc r s) (apply_relocs blob l mc rs)"

section \<open>The image\<close>

definition elf_header :: "elf_offsets \<Rightarrow> (nat \<times> bytes) list" where
  "elf_header l =
     [(0, [0x7f] @ ascii ''ELF''), (4, [2]), (5, [1]), (6, [1]), (7, [0]), (16, le16 2), (18, le16 62), (20, le32 1),
      (24, le64 (of_nat (BASE_VADDR + entry_offset))), (32, le64 64), (40, le64 (of_nat (el_shoff l))),
      (48, le32 0), (52, le16 64), (54, le16 56), (56, le16 3)]"

definition program_headers :: "machine_code \<Rightarrow> elf_offsets \<Rightarrow> (nat \<times> bytes) list" where
  "program_headers mc l =
     write_ph 64 1 5 0 BASE_VADDR (el_code_off l + el_rx_len l) (el_code_off l + el_rx_len l) @
     write_ph (64 + 56) 1 6 (el_data_off l) (el_data_vaddr l) (length (mc_data mc)) (length (mc_data mc)) @
     write_ph (64 + 56 + 56) 1 6 (el_data_off l) (el_heap_vaddr l) 0 (heap_size_pages (mc_heap_size mc))"

definition content :: "container \<Rightarrow> bool \<Rightarrow> elf_offsets \<Rightarrow> bytes \<Rightarrow> bytes \<Rightarrow> (nat \<times> bytes) list" where
  "content ct ep l code_bytes data_bytes =
     (if ep then [(el_code_off l, ct_jump ct), (el_code_off l + 2, ct_magic ct)] else []) @
     [(el_code_off l + preamble_len_for ct ep, code_bytes), (el_data_off l, data_bytes)]"

definition symbol_tables :: "machine_code \<Rightarrow> elf_offsets \<Rightarrow> (nat \<times> bytes) list" where
  "symbol_tables mc l = (let (strtab, symbols) = build_symbols mc in
     (if mc_strip_symbols mc then []
      else consec (el_symtab_off l) (map sym_entry symbols) @ [(el_strtab_off l, strtab)]) @
     [(el_shstrtab_off l, shstrtab)])"

text \<open>The arguments of each call in the order the source passes them.\<close>

definition section_headers :: "machine_code \<Rightarrow> elf_offsets \<Rightarrow> (nat \<times> bytes) list" where
  "section_headers mc l = (let sh_base = el_shoff l in
     write_sh (sh_base + 64) 1 1 (of_nat (el_code_vaddr l)) (of_nat (el_code_off l)) (of_nat (el_rx_len l)) 6 0 0 0 8 0 @
     write_sh (sh_base + 2 * 64) 6 1 (of_nat (el_data_vaddr l)) (of_nat (el_data_off l)) (of_nat (length (mc_data mc))) 6 0 0 0 8 0 @
     write_sh (sh_base + 3 * 64) 11 8 (of_nat (el_heap_vaddr l)) 0 (of_nat (heap_size_pages (mc_heap_size mc))) 6 0 0 0 8 0 @
     (if mc_strip_symbols mc then []
      else write_sh (sh_base + 4 * 64) 15 2 0 (of_nat (el_symtab_off l)) (of_nat (el_symtab_len l)) 5 1 0 24 0 0 @
           write_sh (sh_base + 5 * 64) 22 3 0 (of_nat (el_strtab_off l)) (of_nat (el_strtab_len l)) 0 0 0 0 0 0))"

definition image_writes :: "container \<Rightarrow> bool \<Rightarrow> machine_code \<Rightarrow> elf_offsets \<Rightarrow> bytes \<Rightarrow> bytes \<Rightarrow> (nat \<times> bytes) list" where
  "image_writes ct ep mc l code_bytes data_bytes =
     elf_header l @ program_headers mc l @ content ct ep l code_bytes data_bytes @
     [(58, le16 (of_nat (el_shnum l)))] @ symbol_tables mc l @ section_headers mc l"

definition write_image :: "container \<Rightarrow> machine_code \<Rightarrow> bool \<Rightarrow> bytes res" where
  "write_image ct mc ep = (let l = elf_layout ct ep mc in
     bindr (apply_relocs (code_blob_vaddr ct ep l) l mc (mc_relocs mc) (mc_code mc, mc_data mc)) (\<lambda>(code_bytes, data_bytes).
       put_all (replicate (el_total l) 0) (image_writes ct ep mc l code_bytes data_bytes)))"

end
