(* ===== verification/Reloc_Sites.thy ===== *)
theory Reloc_Sites
  imports Target_Types
begin

text \<open>The window of a relocation: what its patch overwrites, and when two windows do not meet.\<close>

definition reloc_span :: "reloc \<Rightarrow> nat" where
  "reloc_span r = (case r_kind r of Abs64 \<Rightarrow> 8 | Rel32Call \<Rightarrow> 4)"

definition reloc_apart :: "reloc \<Rightarrow> reloc \<Rightarrow> bool" where
  "reloc_apart r r' \<longleftrightarrow> r_section r \<noteq> r_section r' \<or> unat (r_site r) + reloc_span r \<le> unat (r_site r')
     \<or> unat (r_site r') + reloc_span r' \<le> unat (r_site r)"

lemma reloc_apart_sym: "reloc_apart r q \<Longrightarrow> reloc_apart q r"
  by (auto simp: reloc_apart_def)

end
