(* ===== verification/Elf_Correct.thy ===== *)
theory Elf_Correct
  imports Elf_Writer Reloc_Sites
begin

text \<open>
  Correctness of the executable writer: when it panics, what a program loader maps from the written image,
  the separation of the segments, and what the relocated sites hold.
\<close>

section \<open>Layout facts\<close>

lemma length_sym_entry [simp]: "length (sym_entry e) = 24"
  by (cases e) (simp add: sym_entry_def)

lemma length_shstrtab: "length shstrtab = 33"
  by (simp add: shstrtab_def ascii_def)

lemma length_concat_sym_entries [simp]: "length (concat (map sym_entry es)) = length es * 24"
  by (induction es) simp_all

lemma layout_simps:
  "el_code_off (elf_layout ct ep mc) = 232"
  "el_rx_len (elf_layout ct ep mc) = preamble_len_for ct ep + length (mc_code mc)"
  "el_code_vaddr (elf_layout ct ep mc) = BASE_VADDR + 232"
  "el_data_off (elf_layout ct ep mc) = align_up (232 + el_rx_len (elf_layout ct ep mc)) PAGE"
  "el_data_vaddr (elf_layout ct ep mc) = align_up (BASE_VADDR + 232 + el_rx_len (elf_layout ct ep mc)) PAGE"
  "el_heap_vaddr (elf_layout ct ep mc) = align_up (el_data_vaddr (elf_layout ct ep mc) + length (mc_data mc)) PAGE"
  "el_shnum (elf_layout ct ep mc) = (if mc_strip_symbols mc then 4 else 6)"
  "el_total (elf_layout ct ep mc) = el_shoff (elf_layout ct ep mc) + el_shnum (elf_layout ct ep mc) * 64"
  by (simp_all add: elf_layout_def Let_def preamble_len_for_def split: prod.splits)

text \<open>The blocks of the file follow one another.\<close>

lemma layout_order:
  fixes ct :: container and ep :: bool and mc :: machine_code
  defines "l \<equiv> elf_layout ct ep mc"
  shows "232 + el_rx_len l \<le> el_data_off l"
    and "el_data_off l + length (mc_data mc) \<le> el_symtab_off l"
    and "el_symtab_off l + (if mc_strip_symbols mc then 0 else length (snd (build_symbols mc)) * 24) \<le> el_strtab_off l"
    and "el_strtab_off l + (if mc_strip_symbols mc then 0 else length (fst (build_symbols mc))) \<le> el_shstrtab_off l"
    and "el_shstrtab_off l + 33 \<le> el_shoff l"
proof -
  have a: "align_up v 8 \<ge> v" "align_up v PAGE \<ge> v" for v by (simp_all add: align_up_ge)
  show "232 + el_rx_len l \<le> el_data_off l"
    and "el_data_off l + length (mc_data mc) \<le> el_symtab_off l"
    and "el_symtab_off l + (if mc_strip_symbols mc then 0 else length (snd (build_symbols mc)) * 24) \<le> el_strtab_off l"
    and "el_strtab_off l + (if mc_strip_symbols mc then 0 else length (fst (build_symbols mc))) \<le> el_shstrtab_off l"
    and "el_shstrtab_off l + 33 \<le> el_shoff l"
    by (simp_all add: l_def elf_layout_def Let_def a length_shstrtab split: prod.splits)
qed

lemma BASE_aligned: "PAGE dvd BASE_VADDR"
  by (simp add: PAGE_def BASE_VADDR_def)

text \<open>The virtual address of the data is its file offset moved by the base: both are page-aligned.\<close>

lemma data_vaddr_eq: "el_data_vaddr (elf_layout ct ep mc) = BASE_VADDR + el_data_off (elf_layout ct ep mc)"
  by (simp add: layout_simps add.assoc align_up_add BASE_aligned)

section \<open>The writes fit\<close>

lemma writes_in_ph: "a \<le> at \<Longrightarrow> at + 56 \<le> b \<Longrightarrow> writes_in a b (write_ph at t f off v fs ms)"
  by (simp add: write_ph_def)

lemma writes_in_sh: "a \<le> at \<Longrightarrow> at + 64 \<le> b \<Longrightarrow> writes_in a b (write_sh at n t f ad off s li i al es u)"
  by (simp add: write_sh_def)

lemma elf_header_in: "writes_in 0 58 (elf_header l)"
  by (simp add: elf_header_def ascii_def)

lemma program_headers_in: "writes_in 64 232 (program_headers mc l)"
  unfolding program_headers_def by (simp add: writes_in_ph)

lemma content_in:
  assumes "container_ok ct" and "length code = length (mc_code mc)" and "length data = length (mc_data mc)" and "l = elf_layout ct ep mc"
  shows "writes_in 232 (el_data_off l + length (mc_data mc)) (content ct ep l code data)"
  using assms layout_order(1) [of ct ep mc]
  by (auto simp: content_def layout_simps(1,2) container_ok_def preamble_len_for_def)

lemma symbol_tables_in:
  assumes "l = elf_layout ct ep mc"
  shows "writes_in (el_symtab_off l) (el_shoff l) (symbol_tables mc l)"
  using layout_order(3-5) [of ct ep mc]
  by (auto simp: symbol_tables_def assms length_shstrtab split: prod.splits if_splits intro!: writes_in_consec)

lemma section_headers_in:
  assumes "l = elf_layout ct ep mc"
  shows "writes_in (el_shoff l) (el_total l) (section_headers mc l)"
  unfolding section_headers_def Let_def by (auto simp: assms layout_simps(7,8) intro!: writes_in_sh)

lemma image_writes_fit:
  assumes "container_ok ct" and "length code = length (mc_code mc)" and "length data = length (mc_data mc)" and "l = elf_layout ct ep mc"
  shows "writes_in 0 (el_total l) (image_writes ct ep mc l code data)"
proof -
  note o = layout_order [of ct ep mc, folded assms(4)]
  have t: "el_shoff l + 256 \<le> el_total l" by (simp add: assms(4) layout_simps(7,8))
  show ?thesis
    unfolding image_writes_def
    using o t writes_in_mono [OF elf_header_in, of 0 "el_total l"] writes_in_mono [OF program_headers_in, of 0 "el_total l"]
      writes_in_mono [OF content_in [OF assms], of 0 "el_total l"] writes_in_mono [OF symbol_tables_in [OF assms(4)], of 0 "el_total l"]
      writes_in_mono [OF section_headers_in [OF assms(4)], of 0 "el_total l"]
    by simp
qed

section \<open>Relocations\<close>

text \<open>What the writer needs of one relocation.\<close>

definition sym_resolved :: "machine_code \<Rightarrow> sym \<Rightarrow> bool" where
  "sym_resolved mc s = (case s of Sym_Fn i \<Rightarrow> unat i < length (mc_fn_bases mc)
     | Sym_Import i \<Rightarrow> unat i < length (mc_import_bases mc) | _ \<Rightarrow> True)"

definition site_fits :: "machine_code \<Rightarrow> reloc \<Rightarrow> bool" where
  "site_fits mc r = (case (r_section r, r_kind r) of
     (Code, Abs64) \<Rightarrow> unat (r_site r) + 8 \<le> length (mc_code mc)
   | (Code, Rel32Call) \<Rightarrow> unat (r_site r) + 4 \<le> length (mc_code mc)
   | (Data, Abs64) \<Rightarrow> unat (r_site r) + 8 \<le> length (mc_data mc)
   | (Data, Rel32Call) \<Rightarrow> True)"

definition reloc_ok :: "machine_code \<Rightarrow> reloc \<Rightarrow> bool" where
  "reloc_ok mc r \<longleftrightarrow> sym_resolved mc (r_sym r) \<and> site_fits mc r"

lemma reloc_target_cases:
  "(case reloc_target blob l mc s of Inl f \<Rightarrow> f = Panic \<and> \<not> sym_resolved mc s | Inr t \<Rightarrow> sym_resolved mc s)"
  by (cases s) (auto simp: sym_resolved_def idx_def get_opt_def)

lemma apply_reloc_cases:
  assumes "length code = length (mc_code mc)" and "length data = length (mc_data mc)"
  shows "case apply_reloc blob l mc r (code, data) of
      Inl f \<Rightarrow> f = Panic \<and> \<not> reloc_ok mc r
    | Inr (c, d) \<Rightarrow> reloc_ok mc r \<and> length c = length (mc_code mc) \<and> length d = length (mc_data mc)"
  using assms reloc_target_cases [where blob = blob and l = l and mc = mc and s = "r_sym r"]
  by (cases "reloc_target blob l mc (r_sym r)")
    (auto simp: apply_reloc_def reloc_ok_def site_fits_def put_slice_def split: sect.splits reloc_kind.splits)

lemma apply_relocs_cases:
  assumes "length code = length (mc_code mc)" and "length data = length (mc_data mc)"
  shows "case apply_relocs blob l mc rs (code, data) of
      Inl f \<Rightarrow> f = Panic \<and> (\<exists>r \<in> set rs. \<not> reloc_ok mc r)
    | Inr (c, d) \<Rightarrow> (\<forall>r \<in> set rs. reloc_ok mc r) \<and> length c = length (mc_code mc) \<and> length d = length (mc_data mc)"
  using assms
proof (induction rs arbitrary: code data)
  case (Cons r rs)
  note c = apply_reloc_cases [OF Cons.prems, where blob = blob and l = l and r = r]
  show ?case
  proof (cases "apply_reloc blob l mc r (code, data)")
    case (Inl f)
    then show ?thesis using c by auto
  next
    case (Inr p)
    then obtain c' d' where p: "p = (c', d')" "length c' = length (mc_code mc)" "length d' = length (mc_data mc)" "reloc_ok mc r"
      using c by (cases p) auto
    show ?thesis using Cons.IH [OF p(2,3)] Inr p by (auto split: sum.splits)
  qed
qed simp

text \<open>The two outcomes of the writer.\<close>

lemma write_image_cases:
  assumes "container_ok ct"
  shows "case write_image ct mc ep of
      Inl f \<Rightarrow> f = Panic \<and> (\<exists>r \<in> set (mc_relocs mc). \<not> reloc_ok mc r)
    | Inr img \<Rightarrow> (\<forall>r \<in> set (mc_relocs mc). reloc_ok mc r) \<and> length img = el_total (elf_layout ct ep mc)"
proof -
  define l where "l = elf_layout ct ep mc"
  note c = apply_relocs_cases [where code = "mc_code mc" and data = "mc_data mc" and blob = "code_blob_vaddr ct ep l" and l = l and mc = mc and rs = "mc_relocs mc"]
  show ?thesis
  proof (cases "apply_relocs (code_blob_vaddr ct ep l) l mc (mc_relocs mc) (mc_code mc, mc_data mc)")
    case (Inl f)
    then show ?thesis using c by (simp add: write_image_def Let_def flip: l_def)
  next
    case (Inr p)
    then obtain cb db where p: "p = (cb, db)" "length cb = length (mc_code mc)" "length db = length (mc_data mc)"
      "\<forall>r \<in> set (mc_relocs mc). reloc_ok mc r"
      using c by (cases p) auto
    obtain img where "put_all (replicate (el_total l) 0) (image_writes ct ep mc l cb db) = Inr img" "length img = el_total l"
      using put_all_ok [of 0 "replicate (el_total l) (0 :: u8)"] image_writes_fit [OF assms p(2,3) l_def] by fastforce
    then show ?thesis using Inr p by (simp add: write_image_def Let_def flip: l_def)
  qed
qed

section \<open>What the image holds\<close>

lemma write_imageE:
  assumes "container_ok ct" and "write_image ct mc ep = Inr img" and "l = elf_layout ct ep mc"
  obtains cb db where "apply_relocs (code_blob_vaddr ct ep l) l mc (mc_relocs mc) (mc_code mc, mc_data mc) = Inr (cb, db)"
    and "length cb = length (mc_code mc)" and "length db = length (mc_data mc)"
    and "put_all (replicate (el_total l) 0) (image_writes ct ep mc l cb db) = Inr img" and "length img = el_total l"
proof -
  note c = apply_relocs_cases [where code = "mc_code mc" and data = "mc_data mc" and blob = "code_blob_vaddr ct ep l"
      and l = l and mc = mc and rs = "mc_relocs mc"]
  obtain cb db where r: "apply_relocs (code_blob_vaddr ct ep l) l mc (mc_relocs mc) (mc_code mc, mc_data mc) = Inr (cb, db)"
    and p: "put_all (replicate (el_total l) 0) (image_writes ct ep mc l cb db) = Inr img"
    using assms(2) by (auto simp: write_image_def Let_def bindr_Inr_conv simp flip: assms(3))
  have "length cb = length (mc_code mc)" "length db = length (mc_data mc)" using c r by simp_all
  moreover have "length img = el_total l" using put_all_length [OF p] by simp
  ultimately show ?thesis using that r p by blast
qed

text \<open>Everything behind the header stays off its first 58 bytes and off the gap before the program headers.\<close>

lemma tail_off:
  assumes "container_ok ct" and "length cb = length (mc_code mc)" and "length db = length (mc_data mc)" and "l = elf_layout ct ep mc"
    and "b \<le> 64"
  shows "writes_off a b (program_headers mc l @ content ct ep l cb db)" and "writes_off a b (symbol_tables mc l @ section_headers mc l)"
proof -
  note o = layout_order [of ct ep mc, folded assms(4)]
  show "writes_off a b (program_headers mc l @ content ct ep l cb db)"
    using writes_in_off [OF program_headers_in, of a b] writes_in_off [OF content_in [OF assms(1-4)], of a b] assms(5) by simp
  show "writes_off a b (symbol_tables mc l @ section_headers mc l)"
    using writes_in_off [OF symbol_tables_in [OF assms(4)], of a b] writes_in_off [OF section_headers_in [OF assms(4)], of a b] assms(5) o
    by simp
qed

lemma elf_header_disjoint: "disjoint_writes (elf_header l)"
  by (simp add: elf_header_def ascii_def)

lemma read_header:
  assumes "container_ok ct" and "write_image ct mc ep = Inr img" and "l = elf_layout ct ep mc" and "(at, bs) \<in> set (elf_header l)"
  shows "slice img at (length bs) = bs"
proof -
  obtain cb db where w: "length cb = length (mc_code mc)" "length db = length (mc_data mc)"
    "put_all (replicate (el_total l) 0) (image_writes ct ep mc l cb db) = Inr img"
    by (rule write_imageE [OF assms(1-3)])
  have "at + length bs \<le> 58" using elf_header_in [of l] assms(4) by (auto simp: writes_in_def list_all_iff)
  then show ?thesis
    using put_all_read_disjoint [of _ "[]" "elf_header l" _ img, OF _ elf_header_disjoint assms(4)] w(3)
      tail_off [OF assms(1) w(1,2) assms(3), of "at + length bs" at]
    by (simp add: image_writes_def)
qed

lemma read_shnum:
  assumes "container_ok ct" and "write_image ct mc ep = Inr img" and "l = elf_layout ct ep mc"
  shows "slice img 58 2 = le16 (of_nat (el_shnum l))" and "slice img 60 4 = [0, 0, 0, 0]"
proof -
  obtain cb db where w: "length cb = length (mc_code mc)" "length db = length (mc_data mc)"
    "put_all (replicate (el_total l) 0) (image_writes ct ep mc l cb db) = Inr img" "length img = el_total l"
    by (rule write_imageE [OF assms])
  have p: "put_all (replicate (el_total l) 0) ((elf_header l @ program_headers mc l @ content ct ep l cb db) @
      (58, le16 (of_nat (el_shnum l))) # (symbol_tables mc l @ section_headers mc l)) = Inr img"
    using w(3) by (simp add: image_writes_def)
  show "slice img 58 2 = le16 (of_nat (el_shnum l))"
    using put_all_read [OF p] tail_off [OF assms(1) w(1,2) assms(3), of "60" 58] by simp
  have "writes_off 60 (60 + 4) (image_writes ct ep mc l cb db)"
    using tail_off [OF assms(1) w(1,2) assms(3), of 64 60] by (simp add: image_writes_def elf_header_def ascii_def)
  moreover have "64 \<le> el_total l" by (simp add: assms(3) layout_simps(7,8))
  ultimately show "slice img 60 4 = [0, 0, 0, 0]"
    using put_all_off [OF w(3), of 60 4] by (simp add: slice_replicate numeral_eq_Suc)
qed

text \<open>The program headers are one run of fields.\<close>

lemma write_ph_consec: "write_ph at t f off v fs ms = consec at (ph_fields t f off v fs ms)"
  by (simp add: write_ph_def ph_fields_def)

lemma program_headers_consec:
  "program_headers mc l = consec 64 (ph_fields 1 5 0 BASE_VADDR (el_code_off l + el_rx_len l) (el_code_off l + el_rx_len l) @
     ph_fields 1 6 (el_data_off l) (el_data_vaddr l) (length (mc_data mc)) (length (mc_data mc)) @
     ph_fields 1 6 (el_data_off l) (el_heap_vaddr l) 0 (heap_size_pages (mc_heap_size mc)))"
  by (simp add: program_headers_def write_ph_consec consec_append)

lemma read_program_headers:
  assumes "container_ok ct" and "write_image ct mc ep = Inr img" and "l = elf_layout ct ep mc"
  shows "slice img 64 56 = concat (ph_fields 1 5 0 BASE_VADDR (el_code_off l + el_rx_len l) (el_code_off l + el_rx_len l))"
    and "slice img 120 56 = concat (ph_fields 1 6 (el_data_off l) (el_data_vaddr l) (length (mc_data mc)) (length (mc_data mc)))"
    and "slice img 176 56 = concat (ph_fields 1 6 (el_data_off l) (el_heap_vaddr l) 0 (heap_size_pages (mc_heap_size mc)))"
proof -
  let ?a = "ph_fields 1 5 0 BASE_VADDR (el_code_off l + el_rx_len l) (el_code_off l + el_rx_len l)"
  let ?b = "ph_fields 1 6 (el_data_off l) (el_data_vaddr l) (length (mc_data mc)) (length (mc_data mc))"
  let ?c = "ph_fields 1 6 (el_data_off l) (el_heap_vaddr l) 0 (heap_size_pages (mc_heap_size mc))"
  obtain cb db where w: "length cb = length (mc_code mc)" "length db = length (mc_data mc)"
    "put_all (replicate (el_total l) 0) (image_writes ct ep mc l cb db) = Inr img"
    by (rule write_imageE [OF assms])
  let ?rest = "content ct ep l cb db @ [(58, le16 (of_nat (el_shnum l)))] @ symbol_tables mc l @ section_headers mc l"
  note o = layout_order [of ct ep mc, folded assms(3)]
  have off: "writes_off 64 232 ?rest"
    using writes_in_off [OF content_in [OF assms(1) w(1,2) assms(3)], of 64 232] writes_in_off [OF symbol_tables_in [OF assms(3)], of 64 232]
      writes_in_off [OF section_headers_in [OF assms(3)], of 64 232] o by simp
  have p: "put_all (replicate (el_total l) 0) (elf_header l @ consec 64 (?a @ ?b @ ?c) @ ?rest) = Inr img"
    using w(3) by (simp add: image_writes_def program_headers_consec)
  have all: "slice img 64 168 = concat ?a @ concat ?b @ concat ?c"
    using put_all_read_consec [OF p] off by (simp add: ph_fields_def)
  have "slice img 64 56 = slice (slice img 64 168) 0 56" "slice img 120 56 = slice (slice img 64 168) 56 56"
    "slice img 176 56 = slice (slice img 64 168) 112 56"
    by (simp_all add: slice_slice)
  then show "slice img 64 56 = concat ?a" "slice img 120 56 = concat ?b" "slice img 176 56 = concat ?c"
    by (simp_all only: all) (simp_all add: slice_def)
qed

text \<open>The relocated blobs and the preamble.\<close>

lemma read_content:
  assumes "container_ok ct" and "write_image ct mc ep = Inr img" and "l = elf_layout ct ep mc"
    and "apply_relocs (code_blob_vaddr ct ep l) l mc (mc_relocs mc) (mc_code mc, mc_data mc) = Inr (cb, db)"
  shows "slice img (232 + preamble_len_for ct ep) (length cb) = cb" and "slice img (el_data_off l) (length db) = db"
    and "ep \<Longrightarrow> slice img 232 10 = ct_jump ct @ ct_magic ct"
proof -
  obtain cb' db' where r: "apply_relocs (code_blob_vaddr ct ep l) l mc (mc_relocs mc) (mc_code mc, mc_data mc) = Inr (cb', db')"
    and w': "length cb' = length (mc_code mc)" "length db' = length (mc_data mc)"
    "put_all (replicate (el_total l) 0) (image_writes ct ep mc l cb' db') = Inr img"
    by (rule write_imageE [OF assms(1-3)])
  have w: "length cb = length (mc_code mc)" "length db = length (mc_data mc)"
    "put_all (replicate (el_total l) 0) (image_writes ct ep mc l cb db) = Inr img"
    using r w' assms(4) by simp_all
  note o = layout_order [of ct ep mc, folded assms(3)]
  let ?rest = "[(58, le16 (of_nat (el_shnum l)))] @ symbol_tables mc l @ section_headers mc l"
  have off: "writes_off a b ?rest" if "60 \<le> a" "b \<le> el_symtab_off l" for a b
    using writes_in_off [OF symbol_tables_in [OF assms(3)], of a b] writes_in_off [OF section_headers_in [OF assms(3)], of a b] o that by auto
  have p: "put_all (replicate (el_total l) 0) ((elf_header l @ program_headers mc l) @ content ct ep l cb db @ ?rest) = Inr img"
    using w(3) by (simp add: image_writes_def)
  have l: "el_code_off l = 232" "el_rx_len l = preamble_len_for ct ep + length cb" by (simp_all add: assms(3) w(1) layout_simps(1,2))
  have d: "disjoint_writes (content ct ep l cb db)"
    using assms(1) o(1) l by (auto simp: content_def container_ok_def preamble_len_for_def)
  note rd = put_all_read_disjoint [OF p d]
  show "slice img (232 + preamble_len_for ct ep) (length cb) = cb"
  proof (rule rd)
    show "writes_off (232 + preamble_len_for ct ep) (232 + preamble_len_for ct ep + length cb) ?rest"
      by (rule off) (use o l w in auto)
  qed (simp add: content_def l)
  show "slice img (el_data_off l) (length db) = db"
  proof (rule rd)
    show "writes_off (el_data_off l) (el_data_off l + length db) ?rest" by (rule off) (use o w in auto)
  qed (simp add: content_def)
  assume ep
  have "slice img 232 (length (ct_jump ct)) = ct_jump ct"
  proof (rule rd)
    show "writes_off 232 (232 + length (ct_jump ct)) ?rest"
      by (rule off) (use o l \<open>ep\<close> assms(1) in \<open>auto simp: container_ok_def preamble_len_for_def\<close>)
  qed (simp add: content_def l \<open>ep\<close>)
  moreover have "slice img 234 (length (ct_magic ct)) = ct_magic ct"
  proof (rule rd)
    show "writes_off 234 (234 + length (ct_magic ct)) ?rest"
      by (rule off) (use o l \<open>ep\<close> assms(1) in \<open>auto simp: container_ok_def preamble_len_for_def\<close>)
  qed (simp add: content_def l \<open>ep\<close>)
  ultimately show "slice img 232 10 = ct_jump ct @ ct_magic ct"
    using slice_join [of img 232 2 "ct_jump ct" 8 "ct_magic ct"] assms(1) by (simp add: container_ok_def)
qed

section \<open>The image as a program loader sees it\<close>

text \<open>The image and its heap fit the address space.\<close>

definition fits64 :: "container \<Rightarrow> machine_code \<Rightarrow> bool \<Rightarrow> bool" where
  "fits64 ct mc ep \<longleftrightarrow> el_heap_vaddr (elf_layout ct ep mc) + heap_size_pages (mc_heap_size mc) < 2 ^ 64"

lemma vaddr_bounds:
  assumes "fits64 ct mc ep" and "l = elf_layout ct ep mc"
  shows "el_data_vaddr l + length (mc_data mc) \<le> el_heap_vaddr l" and "BASE_VADDR + (232 + el_rx_len l) \<le> el_data_vaddr l"
    and "el_heap_vaddr l + heap_size_pages (mc_heap_size mc) < 2 ^ 64" and "el_data_vaddr l = BASE_VADDR + el_data_off l"
proof -
  have a: "v \<le> align_up v PAGE" for v by (simp add: align_up_ge)
  show "el_data_vaddr l + length (mc_data mc) \<le> el_heap_vaddr l" "BASE_VADDR + (232 + el_rx_len l) \<le> el_data_vaddr l"
    by (simp_all add: assms(2) layout_simps(5,6) a add.assoc [symmetric])
  show "el_heap_vaddr l + heap_size_pages (mc_heap_size mc) < 2 ^ 64" using assms by (simp add: fits64_def)
  show "el_data_vaddr l = BASE_VADDR + el_data_off l" by (simp add: assms(2) data_vaddr_eq)
qed

lemma segments_written:
  assumes "container_ok ct" and "write_image ct mc ep = Inr img" and "fits64 ct mc ep" and l: "l = elf_layout ct ep mc"
  shows "segments img =
     [\<lparr>sg_flags = 5, sg_off = 0, sg_vaddr = BASE_VADDR, sg_filesz = 232 + el_rx_len l, sg_memsz = 232 + el_rx_len l\<rparr>,
      \<lparr>sg_flags = 6, sg_off = el_data_off l, sg_vaddr = el_data_vaddr l, sg_filesz = length (mc_data mc), sg_memsz = length (mc_data mc)\<rparr>,
      \<lparr>sg_flags = 6, sg_off = el_data_off l, sg_vaddr = el_heap_vaddr l, sg_filesz = 0, sg_memsz = heap_size_pages (mc_heap_size mc)\<rparr>]"
proof -
  note h = read_header [OF assms(1,2) l]
  have "slice img 32 (length (le64 64)) = le64 64" by (rule h) (simp add: elf_header_def)
  moreover have "slice img 54 (length (le16 56)) = le16 56" by (rule h) (simp add: elf_header_def)
  moreover have "slice img 56 (length (le16 3)) = le16 3" by (rule h) (simp add: elf_header_def)
  ultimately have hd: "img64 img 32 = 64" "img16 img 54 = 56" "img16 img 56 = 3" by (simp_all add: img64_def img16_def)
  note b = vaddr_bounds [OF assms(3) l]
  note ph = read_program_headers [OF assms(1,2) l, unfolded layout_simps(1)]
  have co: "el_code_off l = 232" by (simp add: l layout_simps(1))
  note s1 = read_segment_fields [OF ph(1) [unfolded co]] and s2 = read_segment_fields [OF ph(2)] and s3 = read_segment_fields [OF ph(3)]
  have n: "[0..<3::nat] = [0, 1, 2]" by (simp add: upt_rec)
  have B: "0 < BASE_VADDR" by (simp add: BASE_VADDR_def)
  show ?thesis
    using s1 s2 s3 b B by (simp add: segments_def hd n)
qed

section \<open>Relocated sites\<close>

definition patch_bytes :: "u64 \<Rightarrow> u64 \<Rightarrow> reloc \<Rightarrow> bytes" where
  "patch_bytes target blob r = (case r_kind r of Abs64 \<Rightarrow> le64 target | Rel32Call \<Rightarrow> le32 (rel32_of target blob (r_site r)))"

lemma length_patch_bytes [simp]: "length (patch_bytes t blob r) = reloc_span r"
  by (simp add: patch_bytes_def reloc_span_def split: reloc_kind.splits)

definition blob_of :: "reloc \<Rightarrow> bytes \<times> bytes \<Rightarrow> bytes" where
  "blob_of r s = (case r_section r of Code \<Rightarrow> fst s | Data \<Rightarrow> snd s)"

text \<open>A relocation patches its own window (unless it is a displacement in the data, which is skipped) and nothing else.\<close>

lemma apply_reloc_effect:
  assumes "apply_reloc blob l mc r s = Inr s'" and "reloc_target blob l mc (r_sym r) = Inr t"
  shows "r_section r = Code \<or> r_kind r = Abs64 \<Longrightarrow> slice (blob_of r s') (unat (r_site r)) (reloc_span r) = patch_bytes t blob r"
    and "reloc_apart r q \<Longrightarrow> unat (r_site q) + reloc_span q \<le> length (blob_of q s) \<Longrightarrow>
      slice (blob_of q s') (unat (r_site q)) (reloc_span q) = slice (blob_of q s) (unat (r_site q)) (reloc_span q)"
    and "length (blob_of q s') = length (blob_of q s)"
  using assms slice_splice_same [of "unat (r_site r)" "patch_bytes t blob r" "blob_of r s"]
    slice_splice_other [of "unat (r_site r)" "patch_bytes t blob r" "blob_of q s" "unat (r_site q)" "reloc_span q"]
  by (auto simp: apply_reloc_def blob_of_def reloc_apart_def bindr_Inr_conv put_slice_Inr_conv patch_bytes_def reloc_span_def
      split: prod.splits sect.splits reloc_kind.splits)

lemma apply_relocs_site:
  assumes "apply_relocs blob l mc rs s = Inr s'" and "\<forall>q \<in> set rs. reloc_apart q r"
    and "unat (r_site r) + reloc_span r \<le> length (blob_of r s)"
  shows "slice (blob_of r s') (unat (r_site r)) (reloc_span r) = slice (blob_of r s) (unat (r_site r)) (reloc_span r)"
  using assms
proof (induction rs arbitrary: s)
  case (Cons q rs)
  then obtain s1 where s1: "apply_reloc blob l mc q s = Inr s1" "apply_relocs blob l mc rs s1 = Inr s'"
    by (auto simp: bindr_Inr_conv)
  then obtain t where t: "reloc_target blob l mc (r_sym q) = Inr t"
    by (auto simp: apply_reloc_def bindr_Inr_conv split: prod.splits)
  note e = apply_reloc_effect(2,3) [OF s1(1) t, of r]
  show ?case using Cons.IH [OF s1(2)] Cons.prems(2,3) e by simp
qed simp

lemma apply_relocs_patched:
  assumes "apply_relocs blob l mc rs s = Inr s'" and "sorted_wrt reloc_apart rs" and "r \<in> set rs"
    and "r_section r = Code \<or> r_kind r = Abs64" and "reloc_target blob l mc (r_sym r) = Inr t"
  shows "slice (blob_of r s') (unat (r_site r)) (reloc_span r) = patch_bytes t blob r"
  using assms(1-3)
proof (induction rs arbitrary: s)
  case (Cons q rs)
  then obtain s1 where s1: "apply_reloc blob l mc q s = Inr s1" "apply_relocs blob l mc rs s1 = Inr s'"
    by (auto simp: bindr_Inr_conv)
  show ?case
  proof (cases "q = r \<and> r \<notin> set rs")
    case True
    have "slice (blob_of r s1) (unat (r_site r)) (reloc_span r) = patch_bytes t blob r"
      using apply_reloc_effect(1) [OF s1(1)] True assms(4,5) by simp
    moreover have "unat (r_site r) + reloc_span r \<le> length (blob_of r s1)"
      using s1(1) True assms(4,5)
      by (auto simp: apply_reloc_def blob_of_def bindr_Inr_conv put_slice_Inr_conv reloc_span_def split: prod.splits sect.splits reloc_kind.splits)
    moreover have "\<forall>p \<in> set rs. reloc_apart p r" using Cons.prems(2) True by (auto intro: reloc_apart_sym)
    ultimately show ?thesis using apply_relocs_site [OF s1(2)] by simp
  next
    case False
    then show ?thesis using Cons.IH [OF s1(2)] Cons.prems by auto
  qed
qed simp

section \<open>The section table\<close>

lemma section_count_misplaced:
  assumes "container_ok ct" and "write_image ct mc ep = Inr img"
  shows "img16 img 58 = (if mc_strip_symbols mc then 4 else 6) \<and> img16 img 60 = 0 \<and> img16 img 62 = 0"
proof -
  note r = read_shnum [OF assms refl]
  have "img16 img 60 = from_le (slice [0, 0, 0, 0] 0 2)" "img16 img 62 = from_le (slice [0, 0, 0, 0] 2 2)"
    using rd_window(1) [OF r(2), of 0] rd_window(1) [OF r(2), of 2] by simp_all
  then show ?thesis using r(1) by (auto simp: img16_def layout_simps(7) slice_def)
qed

lemma section_headers_shifted:
  assumes "container_ok ct" and "write_image ct mc ep = Inr img" and l: "l = elf_layout ct ep mc"
  shows "img64 img (el_shoff l + 72) = of_nat (el_code_vaddr l) \<and> img64 img (el_shoff l + 80) = of_nat (el_code_off l)
    \<and> img64 img (el_shoff l + 88) = of_nat (el_rx_len l) \<and> img64 img (el_shoff l + 96) = 6
    \<and> img32 img (el_shoff l + 128) = 6 \<and> shstrtab ! 6 = 0"
proof -
  obtain cb db where w: "put_all (replicate (el_total l) 0) (image_writes ct ep mc l cb db) = Inr img"
    by (rule write_imageE [OF assms(1,2) l])
  have d: "disjoint_writes (section_headers mc l)" by (simp add: section_headers_def Let_def write_sh_def)
  have rd: "slice img at (length bs) = bs" if "(at, bs) \<in> set (section_headers mc l)" for at bs
  proof -
    have "put_all (replicate (el_total l) 0) ((elf_header l @ program_headers mc l @ content ct ep l cb db @
        [(58, le16 (of_nat (el_shnum l)))] @ symbol_tables mc l) @ section_headers mc l @ []) = Inr img"
      using w by (simp add: image_writes_def)
    then show ?thesis by (rule put_all_read_disjoint [OF _ d that]) simp
  qed
  have "slice img (el_shoff l + 72) (length (le64 (of_nat (el_code_vaddr l)))) = le64 (of_nat (el_code_vaddr l))"
    by (rule rd) (simp add: section_headers_def Let_def write_sh_def)
  moreover have "slice img (el_shoff l + 80) (length (le64 (of_nat (el_code_off l)))) = le64 (of_nat (el_code_off l))"
    by (rule rd) (simp add: section_headers_def Let_def write_sh_def)
  moreover have "slice img (el_shoff l + 88) (length (le64 (of_nat (el_rx_len l)))) = le64 (of_nat (el_rx_len l))"
    by (rule rd) (simp add: section_headers_def Let_def write_sh_def)
  moreover have "slice img (el_shoff l + 96) (length (le64 6)) = le64 6"
    by (rule rd) (simp add: section_headers_def Let_def write_sh_def)
  moreover have "slice img (el_shoff l + 128) (length (le32 6)) = le32 6"
    by (rule rd) (simp add: section_headers_def Let_def write_sh_def)
  moreover have "shstrtab ! 6 = 0" by (simp add: shstrtab_def ascii_def)
  ultimately show ?thesis by (simp add: img64_def img32_def)
qed

section \<open>Properties\<close>

text \<open>
  C29. The writer never reports an error, and it panics exactly when a relocation cannot be applied: its window
  leaves its blob, it names a function index that has no entry, or an import that was not linked. Otherwise
  the file has exactly the computed length.
\<close>

theorem write_image_panics:
  assumes "container_ok ct"
  shows "(write_image ct mc ep = Inl f \<longleftrightarrow> f = Panic \<and> (\<exists>r \<in> set (mc_relocs mc). \<not> reloc_ok mc r))
    \<and> (\<forall>img. write_image ct mc ep = Inr img \<longrightarrow> length img = el_total (elf_layout ct ep mc))"
  using write_image_cases [OF assms, of mc ep] by (auto split: sum.splits)

text \<open>
  C30. Loading the written file gives back what was compiled: read through the program headers, the memory
  at the code blob's address holds the relocated code, readable and executable; the memory at the data address
  holds the relocated data, readable and writable; the heap is zero, readable and writable, and has the rounded
  size; and the entry address is the first byte after the headers, where the preamble (or the code) starts.
\<close>

theorem image_loads:
  assumes "container_ok ct" and "write_image ct mc ep = Inr img" and "fits64 ct mc ep" and l: "l = elf_layout ct ep mc"
    and r: "apply_relocs (code_blob_vaddr ct ep l) l mc (mc_relocs mc) (mc_code mc, mc_data mc) = Inr (cb, db)"
  shows "(\<forall>i < length cb. mapped img (BASE_VADDR + 232 + preamble_len_for ct ep + i) = Some (5, cb ! i))
    \<and> (\<forall>i < length db. mapped img (el_data_vaddr l + i) = Some (6, db ! i))
    \<and> (\<forall>i < heap_size_pages (mc_heap_size mc). mapped img (el_heap_vaddr l + i) = Some (6, 0))
    \<and> unat (img64 img 24) = BASE_VADDR + 232"
proof (intro conjI allI impI)
  note s = segments_written [OF assms(1-3) l] and b = vaddr_bounds [OF assms(3) l] and c = read_content [OF assms(1,2) l r]
  obtain cb' db' where rb: "apply_relocs (code_blob_vaddr ct ep l) l mc (mc_relocs mc) (mc_code mc, mc_data mc) = Inr (cb', db')"
      "length cb' = length (mc_code mc)" "length db' = length (mc_data mc)" and img: "length img = el_total l"
    by (rule write_imageE [OF assms(1,2) l])
  note o = layout_order [of ct ep mc, folded l]
  have len: "length cb = length (mc_code mc)" "length db = length (mc_data mc)" using rb r by simp_all
  have x: "el_rx_len l = preamble_len_for ct ep + length cb" by (simp add: l len layout_simps(2))
  have t: "el_shoff l \<le> el_total l" by (simp add: l layout_simps(8))
  show "mapped img (BASE_VADDR + 232 + preamble_len_for ct ep + i) = Some (5, cb ! i)" if "i < length cb" for i
  proof -
    have "cb ! i = img ! (232 + preamble_len_for ct ep + i)"
      using nth_slice [OF that, of "232 + preamble_len_for ct ep" img] c(1) img o t x by simp
    then show ?thesis using that x by (simp add: mapped_def s add.assoc)
  qed
  show "mapped img (el_data_vaddr l + i) = Some (6, db ! i)" if "i < length db" for i
  proof -
    have "db ! i = img ! (el_data_off l + i)" using nth_slice [OF that, of "el_data_off l" img] c(2) img o t len by simp
    then show ?thesis using that b len by (simp add: mapped_def s)
  qed
  show "mapped img (el_heap_vaddr l + i) = Some (6, 0)" if "i < heap_size_pages (mc_heap_size mc)" for i
    using that b by (simp add: mapped_def s)
  have "slice img 24 (length (le64 (of_nat (BASE_VADDR + entry_offset)))) = le64 (of_nat (BASE_VADDR + entry_offset))"
    by (rule read_header [OF assms(1,2) l]) (simp add: elf_header_def)
  then have "img64 img 24 = of_nat (BASE_VADDR + entry_offset)" by (simp add: img64_def)
  then show "unat (img64 img 24) = BASE_VADDR + 232" by (simp add: BASE_VADDR_def entry_offset_def)
qed

text \<open>
  C31. The segments are safe to map: they ascend without overlap, no segment is both writable and executable,
  every address is congruent to its file offset modulo the page size, and the file parts lie inside the file.
\<close>

theorem segments_safe:
  assumes "container_ok ct" and "write_image ct mc ep = Inr img" and "fits64 ct mc ep"
  shows "sorted_wrt (\<lambda>s s'. sg_vaddr s + sg_memsz s \<le> sg_vaddr s') (segments img)
    \<and> list_all (\<lambda>s. sg_flags s AND 3 \<noteq> 3 \<and> sg_vaddr s mod PAGE = sg_off s mod PAGE \<and> sg_filesz s \<le> sg_memsz s
        \<and> sg_off s + sg_filesz s \<le> length img) (segments img)"
proof -
  define l where "l = elf_layout ct ep mc"
  note s = segments_written [OF assms l_def] and b = vaddr_bounds [OF assms(3) l_def]
  obtain cb db :: bytes where "length cb = length (mc_code mc)" "length db = length (mc_data mc)" and img: "length img = el_total l"
    by (rule write_imageE [OF assms(1,2) l_def])
  note o = layout_order [of ct ep mc, folded l_def]
  have t: "el_shoff l \<le> el_total l" by (simp add: l_def layout_simps(8))
  have d: "PAGE dvd el_heap_vaddr l" "PAGE dvd el_data_vaddr l" "PAGE dvd el_data_off l" by (simp_all add: l_def layout_simps(4-6))
  then have m: "el_heap_vaddr l mod PAGE = 0" "el_data_vaddr l mod PAGE = 0" "el_data_off l mod PAGE = 0" "BASE_VADDR mod PAGE = 0"
    using BASE_aligned by auto
  have "(BASE_VADDR + el_data_off l) mod PAGE = 0" using m(2) b(4) by simp
  then show ?thesis using b o t img by (simp add: s m)
qed

text \<open>
  C32. Every relocation reaches its target: when the windows of the relocations do not meet, each absolute site
  of the relocated code or data holds the address of its symbol, and each call displacement of the code, added to
  the address behind it, gives that address, provided it is within 2 GiB.
\<close>

theorem relocations_resolved:
  assumes "apply_relocs blob l mc rs (code, data) = Inr s" and "sorted_wrt reloc_apart rs" and "r \<in> set rs"
    and "reloc_target blob l mc (r_sym r) = Inr t"
  shows "(r_kind r = Abs64 \<longrightarrow> img64 (blob_of r s) (unat (r_site r)) = t)
    \<and> (r_kind r = Rel32Call \<and> r_section r = Code \<and> - (2 ^ 31) \<le> sint (t - (blob + r_site r + 4)) \<and> sint (t - (blob + r_site r + 4)) < 2 ^ 31
        \<longrightarrow> blob + r_site r + 4 + scast (img32 (fst s) (unat (r_site r))) = t)"
proof (intro conjI impI; (elim conjE)?)
  note p = apply_relocs_patched [OF assms(1-3) _ assms(4)]
  show "img64 (blob_of r s) (unat (r_site r)) = t" if "r_kind r = Abs64"
    using p that by (simp add: img64_def reloc_span_def patch_bytes_def)
  show "blob + r_site r + 4 + scast (img32 (fst s) (unat (r_site r))) = t"
    if "r_kind r = Rel32Call" "r_section r = Code" "- (2 ^ 31) \<le> sint (t - (blob + r_site r + 4))" "sint (t - (blob + r_site r + 4)) < 2 ^ 31"
    using p that displacement_reaches [OF that(3,4)]
    by (simp add: img32_def reloc_span_def patch_bytes_def blob_of_def rel32_of_def add.assoc)
qed

text \<open>
  C33. The section table of an executable cannot be read: the count of sections is stored in the field for the
  size of a section header (offset 58), while the field for the count (offset 60) and the index of the name
  table (offset 62) stay zero; the fields of the section headers are shifted by one, because the calls pass no flags, so
  that \<open>.text\<close> has the code address as its flags, the file offset as its address, the length as its file offset, and
  6 (the flags) as its size; and the name offset 6 given for \<open>.data\<close> points at an empty name.
\<close>

theorem section_table_unreadable:
  assumes "container_ok ct" and "write_image ct mc ep = Inr img" and "l = elf_layout ct ep mc"
  shows "img16 img 58 = (if mc_strip_symbols mc then 4 else 6) \<and> img16 img 60 = 0 \<and> img16 img 62 = 0
    \<and> img64 img (el_shoff l + 72) = of_nat (el_code_vaddr l) \<and> img64 img (el_shoff l + 80) = of_nat (el_code_off l)
    \<and> img64 img (el_shoff l + 88) = of_nat (el_rx_len l) \<and> img64 img (el_shoff l + 96) = 6
    \<and> img32 img (el_shoff l + 128) = 6 \<and> shstrtab ! 6 = 0"
  using section_count_misplaced [OF assms(1,2)] section_headers_shifted [OF assms] by blast

section \<open>A concrete executable\<close>

definition sample_call :: reloc where
  "sample_call = \<lparr>r_kind = Rel32Call, r_section = Code, r_site = 1, r_sym = Sym_Fn 1\<rparr>"

definition sample_string :: reloc where
  "sample_string = \<lparr>r_kind = Abs64, r_section = Code, r_site = 7, r_sym = Sym_String 0\<rparr>"

definition sample_program :: machine_code where
  "sample_program = empty_mc\<lparr>mc_code := [0xE8, 0, 0, 0, 0, 0x48, 0xBE, 0, 0, 0, 0, 0, 0, 0, 0, 0xC3, 0xC3],
     mc_data := [0x68, 0x69], mc_fn_bases := [0, 16], mc_heap_size := 0x2000, mc_relocs := [sample_call, sample_string]\<rparr>"

lemma sample_facts:
  "container_ok sample_container" "\<forall>r \<in> set (mc_relocs sample_program). reloc_ok sample_program r"
  "sorted_wrt reloc_apart (mc_relocs sample_program)"
  by (simp_all add: container_ok_def sample_container_def sample_program_def sample_call_def sample_string_def reloc_ok_def
      sym_resolved_def site_fits_def empty_mc_def reloc_apart_def reloc_span_def)

lemma sample_written: "\<exists>img. write_image sample_container sample_program ep = Inr img"
  using write_image_cases [OF sample_facts(1), of sample_program ep] sample_facts(2) by (auto split: sum.splits)

lemma sample_layout:
  "preamble_len_for sample_container True = 13" "el_data_vaddr (elf_layout sample_container True sample_program) = 0x401000"
  "el_heap_vaddr (elf_layout sample_container True sample_program) = 0x402000" "heap_size_pages (mc_heap_size sample_program) = 0x2000"
  by (simp_all add: layout_simps preamble_len_for_def sample_container_def sample_program_def empty_mc_def align_up_def div_ceil_def
      BASE_VADDR_def PAGE_def heap_size_pages_def)

lemma sample_fits: "fits64 sample_container sample_program True"
  by (simp add: fits64_def sample_layout)

lemma to_le_numeral: "to_le (numeral k) w = ucast w # to_le (pred_numeral k) (drop_bit 8 w)"
  by (simp add: numeral_eq_Suc)

lemma sample_relocated:
  "apply_relocs (code_blob_vaddr sample_container True (elf_layout sample_container True sample_program))
     (elf_layout sample_container True sample_program) sample_program (mc_relocs sample_program) (mc_code sample_program, mc_data sample_program) =
   Inr ([0xE8, 11, 0, 0, 0, 0x48, 0xBE, 0, 0x10, 0x40, 0, 0, 0, 0, 0, 0xC3, 0xC3], [0x68, 0x69])"
proof -
  let ?l = "elf_layout sample_container True sample_program"
  have b: "code_blob_vaddr sample_container True ?l = 0x4000F5"
    by (simp add: code_blob_vaddr_def layout_simps sample_container_def BASE_VADDR_def)
  have t: "reloc_target 0x4000F5 ?l sample_program (r_sym sample_call) = Inr 0x400105"
    "reloc_target 0x4000F5 ?l sample_program (r_sym sample_string) = Inr 0x401000"
    by (simp_all add: sample_call_def sample_string_def sample_layout idx_def) (simp_all add: sample_program_def empty_mc_def)
  have m: "mc_relocs sample_program = [sample_call, sample_string]"
    "mc_code sample_program = [0xE8, 0, 0, 0, 0, 0x48, 0xBE, 0, 0, 0, 0, 0, 0, 0, 0, 0xC3, 0xC3]" "mc_data sample_program = [0x68, 0x69]"
    by (simp_all add: sample_program_def empty_mc_def)
  have k: "r_kind sample_call = Rel32Call" "r_section sample_call = Code" "r_site sample_call = 1"
    "r_kind sample_string = Abs64" "r_section sample_string = Code" "r_site sample_string = 7"
    by (simp_all add: sample_call_def sample_string_def)
  show ?thesis
    unfolding m b by (simp add: apply_reloc_def t k rel32_of_def to_le_numeral put_slice_def splice_def)
qed

theorem write_image_panics_witness:
  "write_image sample_container (sample_program\<lparr>mc_relocs := [sample_call\<lparr>r_sym := Sym_Import 0\<rparr>]\<rparr>) True = Inl Panic"
  using write_image_panics [OF sample_facts(1), of "sample_program\<lparr>mc_relocs := [sample_call\<lparr>r_sym := Sym_Import 0\<rparr>]\<rparr>" True Panic]
  by (simp add: reloc_ok_def sym_resolved_def sample_program_def empty_mc_def)

theorem image_loads_witness:
  "\<exists>img. write_image sample_container sample_program True = Inr img \<and> mapped img 0x4000F5 = Some (5, 0xE8)
     \<and> mapped img 0x401001 = Some (6, 0x69) \<and> mapped img 0x402000 = Some (6, 0) \<and> unat (img64 img 24) = 0x4000E8"
proof -
  obtain img where w: "write_image sample_container sample_program True = Inr img" using sample_written by blast
  note p = image_loads [OF sample_facts(1) w sample_fits refl sample_relocated, unfolded sample_layout]
  have "mapped img 0x4000F5 = Some (5, 0xE8)" using conjunct1 [OF p, rule_format, of 0] by (simp add: BASE_VADDR_def)
  moreover have "mapped img 0x401001 = Some (6, 0x69)" using conjunct1 [OF conjunct2 [OF p], rule_format, of 1] by simp
  moreover have "mapped img 0x402000 = Some (6, 0)" using conjunct1 [OF conjunct2 [OF conjunct2 [OF p]], rule_format, of 0] by simp
  moreover have "unat (img64 img 24) = 0x4000E8" using conjunct2 [OF conjunct2 [OF conjunct2 [OF p]]] by (simp add: BASE_VADDR_def)
  ultimately show ?thesis using w by blast
qed

theorem segments_safe_witness:
  "\<exists>img. write_image sample_container sample_program True = Inr img
     \<and> sorted_wrt (\<lambda>s s'. sg_vaddr s + sg_memsz s \<le> sg_vaddr s') (segments img)"
  using sample_written [of True] segments_safe [OF sample_facts(1) _ sample_fits] by blast

theorem relocations_resolved_witness:
  "img64 [0xE8, 11, 0, 0, 0, 0x48, 0xBE, 0, 0x10, 0x40, 0, 0, 0, 0, 0, 0xC3, 0xC3] 7 = 0x401000"
proof -
  have t: "reloc_target b (elf_layout sample_container True sample_program) sample_program (r_sym sample_string) = Inr 0x401000" for b
    by (simp add: sample_string_def sample_layout)
  have m: "sample_string \<in> set (mc_relocs sample_program)" by (simp add: sample_program_def)
  show ?thesis
    using relocations_resolved [OF sample_relocated sample_facts(3) m t]
    by (simp add: blob_of_def) (simp add: sample_string_def)
qed

theorem section_table_unreadable_witness:
  "\<exists>img. write_image sample_container sample_program True = Inr img \<and> img16 img 58 = 6 \<and> img16 img 60 = 0
     \<and> img64 img (el_shoff (elf_layout sample_container True sample_program) + 72) = 0x4000E8"
  using sample_written [of True] section_table_unreadable [OF sample_facts(1) _ refl, of sample_program True]
  by (auto simp: sample_program_def empty_mc_def layout_simps(3) BASE_VADDR_def)

end
