(* ===== verification/Shlib.thy ===== *)
theory Shlib
  imports Image
begin

text \<open>
  \<open>src/x86/shlib.rs\<close>: the dlopen-able shared object. Sizes and file offsets are natural numbers, converted to
  the width of the field when they are written; arithmetic on addresses of the machine code record is 64-bit
  and wraps, and the debug assertions are left out, as in a release build. The name of a vtable symbol
  (\<open>vtable_symbol\<close>) belongs to the compiler crate and is a parameter.
\<close>

section \<open>Constants\<close>

definition PT_LOAD :: u32 where "PT_LOAD = 1"
definition PT_DYNAMIC :: u32 where "PT_DYNAMIC = 2"
definition PT_GNU_STACK :: u32 where "PT_GNU_STACK = 0x6474e551"
definition PF_X :: u32 where "PF_X = 1"
definition PF_W :: u32 where "PF_W = 2"
definition PF_R :: u32 where "PF_R = 4"
definition R_RELATIVE :: u64 where "R_RELATIVE = 8"
definition R_GLOB_DAT :: u64 where "R_GLOB_DAT = 6"

definition DT_NULL :: u64 where "DT_NULL = 0"
definition DT_HASH :: u64 where "DT_HASH = 4"
definition DT_STRTAB :: u64 where "DT_STRTAB = 5"
definition DT_SYMTAB :: u64 where "DT_SYMTAB = 6"
definition DT_RELA :: u64 where "DT_RELA = 7"
definition DT_RELASZ :: u64 where "DT_RELASZ = 8"
definition DT_RELAENT :: u64 where "DT_RELAENT = 9"
definition DT_STRSZ :: u64 where "DT_STRSZ = 10"
definition DT_SYMENT :: u64 where "DT_SYMENT = 11"
definition DT_INIT :: u64 where "DT_INIT = 12"
definition DT_NEEDED :: u64 where "DT_NEEDED = 1"

definition SHT_NULL :: u32 where "SHT_NULL = 0"
definition SHT_PROGBITS :: u32 where "SHT_PROGBITS = 1"
definition SHT_STRTAB :: u32 where "SHT_STRTAB = 3"
definition SHT_RELA :: u32 where "SHT_RELA = 4"
definition SHT_HASH :: u32 where "SHT_HASH = 5"
definition SHT_DYNAMIC :: u32 where "SHT_DYNAMIC = 6"
definition SHT_DYNSYM :: u32 where "SHT_DYNSYM = 11"

section \<open>Encodings\<close>

definition sh_rex :: "bool \<Rightarrow> bool \<Rightarrow> bool \<Rightarrow> u8" where
  "sh_rex w r b = (let byte = 0x40; byte = (if w then byte OR 0x08 else byte);
     byte = (if r then byte OR 0x04 else byte) in if b then byte OR 0x01 else byte)"

definition sh_modrm :: "u8 \<Rightarrow> u8 \<Rightarrow> u8 \<Rightarrow> u8" where
  "sh_modrm md reg rm = push_bit 6 md OR push_bit 3 (reg AND 7) OR (rm AND 7)"

definition rex_byte :: "bool \<Rightarrow> u8 \<Rightarrow> u8 \<Rightarrow> u8" where
  "rex_byte w src dst = sh_rex w (8 \<le> src) (8 \<le> dst)"

text \<open>The hash of a name in the \<open>.hash\<close> section.\<close>

definition hash_step :: "u32 \<Rightarrow> u8 \<Rightarrow> u32" where
  "hash_step h0 b = (let h1 = push_bit 4 h0 + ucast b; g = h1 AND 0xF0000000;
     h2 = (if g \<noteq> 0 then h1 XOR drop_bit 24 g else h1) in h2 AND NOT g)"

definition elf_hash :: "bytes \<Rightarrow> u32" where
  "elf_hash name = foldl hash_step 0 name"

definition count_code_abs64 :: "machine_code \<Rightarrow> nat" where
  "count_code_abs64 mc = length (filter (\<lambda>r. r_kind r = Abs64 \<and> r_section r = Code) (mc_relocs mc))"

section \<open>Trampolines\<close>

text \<open>rdi rsi rdx rcx r8 r9\<close>

definition SYSV_REGS :: "u8 list" where "SYSV_REGS = [7, 6, 2, 1, 8, 9]"

text \<open>The moves for \<open>i = n-1, ..., 0\<close>: \<open>ARG[i+1] = ARG[i]\<close>.\<close>

fun shift_params :: "nat \<Rightarrow> bytes" where
  "shift_params 0 = []"
| "shift_params (Suc i) = (let dst = SYSV_REGS ! (i + 1); src = SYSV_REGS ! i
     in [rex_byte True src dst, 0x89, sh_modrm 3 src dst]) @ shift_params i"

definition build_trampoline :: "nat \<Rightarrow> u64 \<Rightarrow> u64 \<Rightarrow> bool \<Rightarrow> bytes" where
  "build_trampoline nargs at body_vaddr takes_receiver =
     (if \<not> takes_receiver then [0xE8] @ le32 (ucast (body_vaddr - (at + 5))) @ [0xC3]
      else let out = shift_params (min nargs 5) @ [0x31, 0xFF] @ [0xE8];
               next_ip = at + of_nat (length out + 4)
           in out @ le32 (ucast (body_vaddr - next_ip)) @ [0xC3])"

definition trampoline_size :: "nat \<Rightarrow> bool \<Rightarrow> nat" where
  "trampoline_size nargs takes_receiver =
     (if \<not> takes_receiver then 5 + 1 else let n = min nargs 6 in 10 + 8 + n * 6 + 5 + 10 + 1)"

text \<open>\<open>encode_got_load\<close>: the five writes over a \<open>movabs\<close> window, as offsets into the image.\<close>

definition got_load_bytes :: "nat \<Rightarrow> nat \<Rightarrow> nat \<Rightarrow> u64 \<Rightarrow> bytes list" where
  "got_load_bytes code_base site reg_dst got_vaddr =
     (let rex_w = (if 8 \<le> reg_dst then 0x4C else 0x48);
          modrm = 0x05 OR push_bit 3 (of_nat (reg_dst mod 8));
          rip_after = of_nat (code_base + site + 5);
          d32 = got_vaddr - rip_after
      in [[rex_w], [0x8B], [modrm], le32 (ucast d32), [0x90, 0x90, 0x90]])"

definition encode_got_load :: "bytes \<Rightarrow> nat \<Rightarrow> nat \<Rightarrow> nat \<Rightarrow> u64 \<Rightarrow> bytes res" where
  "encode_got_load img code_base site reg_dst got_vaddr =
     put_all img (consec (code_base + site - 2) (got_load_bytes code_base site reg_dst got_vaddr))"

section \<open>Symbols the image defines and needs\<close>

fun contains :: "bytes \<Rightarrow> bytes \<Rightarrow> bool" where
  "contains p [] \<longleftrightarrow> p = []"
| "contains p (b # bs) \<longleftrightarrow> prefix p (b # bs) \<or> contains p bs"

definition unwrap_or :: "'a option \<Rightarrow> 'a \<Rightarrow> 'a" where
  "unwrap_or x d = (case x of None \<Rightarrow> d | Some v \<Rightarrow> v)"

definition takes_recv :: "machine_code \<Rightarrow> nat \<Rightarrow> bool" where
  "takes_recv mc i = unwrap_or (get_opt (mc_export_takes_receiver mc) i) True"

definition trampoline_sizes :: "machine_code \<Rightarrow> nat list" where
  "trampoline_sizes mc = map (\<lambda>(i, name, fi, arity).
     if contains (ascii ''::'') name then 0 else trampoline_size (unat arity) (takes_recv mc i))
     (zip [0..<length (mc_exports mc)] (mc_exports mc))"

definition object_syms :: "(bytes \<Rightarrow> bytes) \<Rightarrow> machine_code \<Rightarrow> (bytes \<times> usize) list" where
  "object_syms vtable_symbol mc =
     map (\<lambda>(i, class_path). (vtable_symbol class_path, unwrap_or (get_opt (mc_vtable_offsets mc) i) 0))
       (zip [0..<length (mc_vtable_names mc)] (mc_vtable_names mc)) @
     map (\<lambda>(i, s). (s, unwrap_or (get_opt (mc_static_offsets mc) i) 0))
       (zip [0..<length (mc_static_names mc)] (mc_static_names mc))"

text \<open>An import left to the dynamic loader: its hint ends in \<open>.so\<close> and it was not linked.\<close>

definition is_dep :: "machine_code \<Rightarrow> nat \<Rightarrow> bytes \<Rightarrow> bool" where
  "is_dep mc i hint \<longleftrightarrow> suffix (ascii ''.so'') hint \<and>
     \<not> (case get_opt (mc_import_bases mc) i of Some b \<Rightarrow> b \<noteq> - 1 | None \<Rightarrow> False)"

fun dep_syms_from :: "machine_code \<Rightarrow> nat \<Rightarrow> (bytes \<times> bytes) list \<Rightarrow> (bytes \<times> bytes) list \<Rightarrow> (bytes \<times> bytes) list" where
  "dep_syms_from mc i [] acc = acc"
| "dep_syms_from mc i ((hint, entry) # rest) acc =
     (if is_dep mc i hint \<and> \<not> list_ex (\<lambda>(e, h). e = entry) acc
      then dep_syms_from mc (i + 1) rest (acc @ [(entry, hint)]) else dep_syms_from mc (i + 1) rest acc)"

definition dep_syms :: "machine_code \<Rightarrow> (bytes \<times> bytes) list" where
  "dep_syms mc = dep_syms_from mc 0 (mc_import_names mc) []"

fun dep_hints_from :: "(bytes \<times> bytes) list \<Rightarrow> bytes list \<Rightarrow> bytes list" where
  "dep_hints_from [] acc = acc"
| "dep_hints_from ((e, hint) # rest) acc =
     (if hint \<in> set acc then dep_hints_from rest acc else dep_hints_from rest (acc @ [hint]))"

definition dep_hints :: "machine_code \<Rightarrow> bytes list" where
  "dep_hints mc = dep_hints_from (dep_syms mc) []"

fun find_pos :: "('a \<Rightarrow> bool) \<Rightarrow> 'a list \<Rightarrow> nat option" where
  "find_pos P [] = None"
| "find_pos P (x # xs) = (if P x then Some 0 else map_option Suc (find_pos P xs))"

definition dep_sym_index :: "machine_code \<Rightarrow> nat \<Rightarrow> nat option" where
  "dep_sym_index mc i = (case get_opt (mc_import_names mc) i of None \<Rightarrow> None
     | Some (hint, entry) \<Rightarrow> if is_dep mc i hint then find_pos (\<lambda>(e, h). e = entry) (dep_syms mc) else None)"

section \<open>Layout\<close>

record so_offsets =
  so_phdr_at :: nat
  so_code_base :: nat
  so_tramp_base :: nat
  so_rx_end :: nat
  so_data_at :: nat
  so_got_start :: nat
  so_rela_start :: nat
  so_nrela :: nat
  so_dep_sym_base :: nat
  so_nsyms :: nat
  so_dynsym_size :: nat
  so_dynstr_size :: nat
  so_nbucket :: nat
  so_hash_size :: nat
  so_dynamic_size :: nat
  so_dynsym_start :: nat
  so_dynstr_start :: nat
  so_hash_start :: nat
  so_dynamic_start :: nat
  so_rw_end :: nat
  so_heap_vaddr :: nat
  so_heap_memsz :: nat
  so_shoff :: nat
  so_shstrtab_at :: nat
  so_image_len :: nat

definition section_names :: "bytes list" where
  "section_names = map (\<lambda>s. ascii s @ [0]) [''.text'', ''.data'', ''.rela.dyn'', ''.dynsym'', ''.dynstr'', ''.hash'', ''.dynamic'']"

text \<open>The name table and the offset of each name, the last one its own.\<close>

fun add_names :: "bytes list \<Rightarrow> bytes \<times> nat list \<Rightarrow> bytes \<times> nat list" where
  "add_names [] st = st"
| "add_names (n # ns) (tab, offs) = add_names ns (tab @ n, offs @ [length tab])"

definition so_shstrtab :: bytes where
  "so_shstrtab = fst (add_names section_names ([0], [])) @ ascii ''.shstrtab'' @ [0]"

definition shstrtab_name_off :: nat where
  "shstrtab_name_off = length (fst (add_names section_names ([0], [])))"

definition name_offsets :: "nat list" where
  "name_offsets = snd (add_names section_names ([0], []))"

definition SHDR_COUNT :: nat where "SHDR_COUNT = 9"

definition so_layout :: "(bytes \<Rightarrow> bytes) \<Rightarrow> machine_code \<Rightarrow> bytes option \<Rightarrow> so_offsets" where
  "so_layout vtable_symbol mc types =
     (let table_len = (case types of None \<Rightarrow> 0 | Some t \<Rightarrow> length t);
          phdr_at = (if types \<noteq> None then align_up (64 + 13 + 8 + table_len) 16 else 80);
          code_base = phdr_at + 5 * 56;
          tramp_base = code_base + length (mc_code mc);
          rx_end = tramp_base + sum_list (trampoline_sizes mc);
          data_at = align_up rx_end PAGE;
          n_got = count_code_abs64 mc;
          got_start = align_up (data_at + length (mc_data mc)) 8;
          rela_start = align_up (got_start + n_got * 8) 8;
          nrela = n_got + length (filter (\<lambda>r. r_kind r = Abs64 \<and> r_section r = Data) (mc_relocs mc));
          objs = object_syms vtable_symbol mc;
          dep_sym_base = length (mc_exports mc) + length objs + 1;
          nsyms = dep_sym_base + length (dep_syms mc);
          dynsym_size = nsyms * 24;
          dynstr_size = 1 + sum_list (map (\<lambda>(n, _, _). length n + 1) (mc_exports mc)) + sum_list (map (\<lambda>(n, _). length n + 1) objs)
            + sum_list (map (\<lambda>(n, _). length n + 1) (dep_syms mc)) + sum_list (map (\<lambda>n. length n + 1) (dep_hints mc));
          nbucket = max nsyms 1;
          hash_size = (nbucket + nsyms + 2) * 4;
          dynamic_entries = 8 + (if mc_init_fn mc = None then 0 else 1) + length (dep_hints mc) + 1;
          dynamic_size = dynamic_entries * 16;
          dynsym_start = align_up (rela_start + nrela * 24) 8;
          dynstr_start = align_up (dynsym_start + dynsym_size) 8;
          hash_start = align_up (dynstr_start + dynstr_size) 8;
          dynamic_start = align_up (hash_start + hash_size) 16;
          rw_end = dynamic_start + dynamic_size;
          shoff = align_up rw_end 8;
          shstrtab_at = shoff + SHDR_COUNT * 64
      in \<lparr>so_phdr_at = phdr_at, so_code_base = code_base, so_tramp_base = tramp_base, so_rx_end = rx_end, so_data_at = data_at,
          so_got_start = got_start, so_rela_start = rela_start, so_nrela = nrela, so_dep_sym_base = dep_sym_base, so_nsyms = nsyms,
          so_dynsym_size = dynsym_size, so_dynstr_size = dynstr_size, so_nbucket = nbucket, so_hash_size = hash_size,
          so_dynamic_size = dynamic_size, so_dynsym_start = dynsym_start, so_dynstr_start = dynstr_start, so_hash_start = hash_start,
          so_dynamic_start = dynamic_start, so_rw_end = rw_end, so_heap_vaddr = align_up rw_end PAGE,
          so_heap_memsz = align_up (unat (mc_heap_size mc)) PAGE, so_shoff = shoff, so_shstrtab_at = shstrtab_at,
          so_image_len = shstrtab_at + max (length so_shstrtab) (PAGE - rw_end mod PAGE)\<rparr>)"

text \<open>The fields in terms of one another.\<close>

lemma so_layout_eqs:
  fixes vs :: "bytes \<Rightarrow> bytes" and mc :: machine_code and types :: "bytes option"
  defines "l \<equiv> so_layout vs mc types"
  shows "so_code_base l = so_phdr_at l + 5 * 56"
    and "so_tramp_base l = so_code_base l + length (mc_code mc)"
    and "so_rx_end l = so_tramp_base l + sum_list (trampoline_sizes mc)"
    and "so_data_at l = align_up (so_rx_end l) PAGE"
    and "so_got_start l = align_up (so_data_at l + length (mc_data mc)) 8"
    and "so_rela_start l = align_up (so_got_start l + count_code_abs64 mc * 8) 8"
    and "so_nrela l = count_code_abs64 mc + length (filter (\<lambda>r. r_kind r = Abs64 \<and> r_section r = Data) (mc_relocs mc))"
    and "so_dep_sym_base l = length (mc_exports mc) + length (object_syms vs mc) + 1"
    and "so_nsyms l = so_dep_sym_base l + length (dep_syms mc)"
    and "so_dynsym_size l = so_nsyms l * 24"
    and "so_nbucket l = max (so_nsyms l) 1"
    and "so_hash_size l = (so_nbucket l + so_nsyms l + 2) * 4"
    and "so_dynsym_start l = align_up (so_rela_start l + so_nrela l * 24) 8"
    and "so_dynstr_start l = align_up (so_dynsym_start l + so_dynsym_size l) 8"
    and "so_hash_start l = align_up (so_dynstr_start l + so_dynstr_size l) 8"
    and "so_dynamic_start l = align_up (so_hash_start l + so_hash_size l) 16"
    and "so_rw_end l = so_dynamic_start l + so_dynamic_size l"
    and "so_heap_vaddr l = align_up (so_rw_end l) PAGE"
    and "so_heap_memsz l = align_up (unat (mc_heap_size mc)) PAGE"
    and "so_shoff l = align_up (so_rw_end l) 8"
    and "so_shstrtab_at l = so_shoff l + SHDR_COUNT * 64"
    and "so_image_len l = so_shstrtab_at l + max (length so_shstrtab) (PAGE - so_rw_end l mod PAGE)"
    and "so_dynstr_size l = 1 + sum_list (map (\<lambda>(n, _, _). length n + 1) (mc_exports mc)) + sum_list (map (\<lambda>(n, _). length n + 1) (object_syms vs mc))
            + sum_list (map (\<lambda>(n, _). length n + 1) (dep_syms mc)) + sum_list (map (\<lambda>n. length n + 1) (dep_hints mc))"
    and "so_dynamic_size l = (8 + (if mc_init_fn mc = None then 0 else 1) + length (dep_hints mc) + 1) * 16"
    and "so_phdr_at l = (case types of None \<Rightarrow> 80 | Some t \<Rightarrow> align_up (64 + 13 + 8 + length t) 16)"
  unfolding l_def so_layout_def Let_def so_offsets.select_convs
  by (rule refl | (cases types; simp))+

end
