(* ===== verification/Shlib_Write.thy ===== *)
theory Shlib_Write
  imports Shlib
begin

text \<open>
  \<open>write_shared_library_inner\<close> of \<open>src/x86/shlib.rs\<close>: the passes that fill the image, in the order of the source.
\<close>

section \<open>Headers\<close>

definition so_elf_header :: "so_offsets \<Rightarrow> (nat \<times> bytes) list" where
  "so_elf_header l =
     [(0, [0x7f] @ ascii ''ELF''), (4, [2]), (5, [1]), (6, [1]), (7, [0]), (16, le16 3), (18, le16 62), (20, le32 1),
      (24, le64 0), (32, le64 (of_nat (so_phdr_at l))), (52, le16 64), (54, le16 56), (56, le16 5), (58, le16 64),
      (60, le16 (of_nat SHDR_COUNT))]"

definition so_preamble :: "container \<Rightarrow> bytes option \<Rightarrow> (nat \<times> bytes) list" where
  "so_preamble ct types =
     [(64, ct_jump ct), (66, ct_magic ct), (74, [if types \<noteq> None then ct_kind_shared_types ct else ct_kind_shared ct]),
      (75, le16 (ct_version ct))] @
     (case types of None \<Rightarrow> [] | Some t \<Rightarrow> [(77, le64 (of_nat (length t))), (85, t)])"

record phdr =
  p_type :: u32
  p_flags :: u32
  p_offset :: nat
  p_vaddr :: nat
  p_filesz :: nat
  p_memsz :: nat

definition so_phdrs :: "so_offsets \<Rightarrow> phdr list" where
  "so_phdrs l =
     [\<lparr>p_type = PT_LOAD, p_flags = PF_R OR PF_X, p_offset = 0, p_vaddr = 0, p_filesz = so_rx_end l, p_memsz = so_rx_end l\<rparr>,
      \<lparr>p_type = PT_LOAD, p_flags = PF_R OR PF_W, p_offset = so_data_at l, p_vaddr = so_data_at l,
        p_filesz = so_rw_end l - so_data_at l, p_memsz = so_rw_end l - so_data_at l\<rparr>,
      \<lparr>p_type = PT_LOAD, p_flags = PF_R OR PF_W, p_offset = 0, p_vaddr = so_heap_vaddr l, p_filesz = 0, p_memsz = so_heap_memsz l\<rparr>,
      \<lparr>p_type = PT_DYNAMIC, p_flags = PF_R OR PF_W, p_offset = so_dynamic_start l, p_vaddr = so_dynamic_start l,
        p_filesz = so_dynamic_size l, p_memsz = so_dynamic_size l\<rparr>,
      \<lparr>p_type = PT_GNU_STACK, p_flags = PF_R OR PF_W, p_offset = 0, p_vaddr = 0, p_filesz = 0, p_memsz = 0\<rparr>]"

definition phdr_writes :: "nat \<Rightarrow> phdr \<Rightarrow> (nat \<times> bytes) list" where
  "phdr_writes at p =
     [(at, le32 (p_type p)), (at + 4, le32 (p_flags p)), (at + 8, le64 (of_nat (p_offset p))), (at + 16, le64 (of_nat (p_vaddr p))),
      (at + 24, le64 (of_nat (p_vaddr p))), (at + 32, le64 (of_nat (p_filesz p))), (at + 40, le64 (of_nat (p_memsz p))),
      (at + 48, le64 (of_nat PAGE))]"

fun phdrs_writes :: "nat \<Rightarrow> phdr list \<Rightarrow> (nat \<times> bytes) list" where
  "phdrs_writes at [] = []"
| "phdrs_writes at (p # ps) = phdr_writes at p @ phdrs_writes (at + 56) ps"

section \<open>Exports\<close>

text \<open>The state of the export loop: image, next trampoline, addresses and sizes of the exported symbols.\<close>

type_synonym export_state = "bytes \<times> nat \<times> u64 list \<times> u64 list"

definition body_size :: "machine_code \<Rightarrow> usize \<Rightarrow> u64 res" where
  "body_size mc fi = bindr (idx (mc_fn_bases mc) (unat fi)) (\<lambda>start.
     let end_at = unwrap_or (get_opt (mc_fn_bases mc) (unat fi + 1)) (of_nat (length (mc_code mc)))
     in Inr (of_nat (unat end_at - unat start)))"

definition emit_export :: "machine_code \<Rightarrow> so_offsets \<Rightarrow> nat \<Rightarrow> bytes \<times> usize \<times> usize \<Rightarrow> export_state \<Rightarrow> export_state res" where
  "emit_export mc l i = (\<lambda>(name, fi, arity) (img, tramp_at, vals, sizes).
     bindr (idx (trampoline_sizes mc) i) (\<lambda>sz.
     bindr (idx (mc_fn_bases mc) (unat fi)) (\<lambda>base.
     let body_vaddr = of_nat (so_code_base l) + base in
     bindr (body_size mc fi) (\<lambda>bsize.
     if sz = 0 then Inr (img, tramp_at, vals @ [body_vaddr], sizes @ [bsize])
     else let takes = takes_recv mc i;
              code = build_trampoline (unat arity) (of_nat tramp_at) body_vaddr takes
          in bindr (put_slice img tramp_at code) (\<lambda>img'.
             Inr (img', tramp_at + sz, vals @ [if takes then of_nat tramp_at else body_vaddr],
                  sizes @ [if takes then of_nat sz else bsize]))))))"

fun emit_exports :: "machine_code \<Rightarrow> so_offsets \<Rightarrow> nat \<Rightarrow> (bytes \<times> usize \<times> usize) list \<Rightarrow> export_state \<Rightarrow> export_state res" where
  "emit_exports mc l i [] s = Inr s"
| "emit_exports mc l i (e # es) s = bindr (emit_export mc l i e s) (emit_exports mc l (i + 1) es)"

section \<open>Global offset table and relocation records\<close>

definition final_value :: "machine_code \<Rightarrow> so_offsets \<Rightarrow> reloc \<Rightarrow> u64 option res" where
  "final_value mc l r = (case (r_sym r, r_section r) of
     (Sym_String off, Code) \<Rightarrow> Inr (Some (of_nat (so_data_at l) + off))
   | (Sym_VtableOff off, Code) \<Rightarrow> Inr (Some (of_nat (so_data_at l) + off))
   | (Sym_Static i, Code) \<Rightarrow> Inr (map_option (\<lambda>off. of_nat (so_data_at l) + off) (get_opt (mc_static_offsets mc) (unat i)))
   | (Sym_HeapBase, _) \<Rightarrow> Inr (Some (of_nat (so_heap_vaddr l)))
   | (Sym_ExcState off, Code) \<Rightarrow> Inr (Some (of_nat (so_data_at l) + off))
   | (Sym_Import i, Code) \<Rightarrow> Inr (case get_opt (mc_import_bases mc) (unat i) of
        Some b \<Rightarrow> if b \<noteq> - 1 then Some (of_nat (so_code_base l) + b) else None | None \<Rightarrow> None)
   | (Sym_Fn i, Data) \<Rightarrow> bindr (idx (mc_fn_bases mc) (unat i)) (\<lambda>b. Inr (Some (of_nat (so_code_base l) + b)))
   | _ \<Rightarrow> Inr None)"

text \<open>The register an absolute reference is taken to be loaded into.\<close>

definition got_register :: "sym \<Rightarrow> nat" where
  "got_register s = (case s of Sym_String _ \<Rightarrow> 6 | Sym_VtableOff _ \<Rightarrow> 1 | Sym_Static _ \<Rightarrow> 1 | Sym_HeapBase \<Rightarrow> 1
     | Sym_ExcState _ \<Rightarrow> 8 | _ \<Rightarrow> 0)"

definition rela_record :: "u64 \<Rightarrow> u64 \<Rightarrow> u64 \<Rightarrow> bytes" where
  "rela_record offset info addend = le64 offset @ le64 info @ le64 addend"

text \<open>Image, relocation records, next slot.\<close>

type_synonym got_state = "bytes \<times> bytes \<times> nat"

definition got_dep :: "machine_code \<Rightarrow> sym \<Rightarrow> nat option" where
  "got_dep mc s = (case s of Sym_Import i \<Rightarrow> dep_sym_index mc (unat i) | _ \<Rightarrow> None)"

definition got_step :: "machine_code \<Rightarrow> so_offsets \<Rightarrow> reloc \<Rightarrow> got_state \<Rightarrow> got_state res" where
  "got_step mc l r = (\<lambda>(img, rela, got_slot).
     if \<not> (r_kind r = Abs64 \<and> r_section r = Code) then Inr (img, rela, got_slot)
     else (case got_dep mc (r_sym r) of
       Some pos \<Rightarrow>
         bindr (encode_got_load img (so_code_base l) (unat (r_site r)) 0 (of_nat got_slot)) (\<lambda>img'.
           Inr (img', rela @ rela_record (of_nat got_slot) (push_bit 32 (of_nat (so_dep_sym_base l + pos)) OR R_GLOB_DAT) 0, got_slot + 8))
     | None \<Rightarrow>
         bindr (final_value mc l r) (\<lambda>v. let value = unwrap_or v 0 in
         bindr (put_slice img got_slot (le64 value)) (\<lambda>img1.
         bindr (encode_got_load img1 (so_code_base l) (unat (r_site r)) (got_register (r_sym r)) (of_nat got_slot)) (\<lambda>img2.
           Inr (img2, rela @ rela_record (of_nat got_slot) R_RELATIVE value, got_slot + 8))))))"

fun got_loop :: "machine_code \<Rightarrow> so_offsets \<Rightarrow> reloc list \<Rightarrow> got_state \<Rightarrow> got_state res" where
  "got_loop mc l [] s = Inr s"
| "got_loop mc l (r # rs) s = bindr (got_step mc l r s) (got_loop mc l rs)"

definition data_rela :: "machine_code \<Rightarrow> so_offsets \<Rightarrow> reloc \<Rightarrow> bytes res" where
  "data_rela mc l r = (if \<not> (r_kind r = Abs64 \<and> r_section r = Data) then Inr []
     else bindr (final_value mc l r) (\<lambda>v. case v of None \<Rightarrow> Inr []
       | Some value \<Rightarrow> Inr (rela_record (of_nat (so_data_at l) + r_site r) R_RELATIVE value)))"

fun data_loop :: "machine_code \<Rightarrow> so_offsets \<Rightarrow> reloc list \<Rightarrow> bytes \<Rightarrow> bytes res" where
  "data_loop mc l [] rela = Inr rela"
| "data_loop mc l (r # rs) rela = bindr (data_rela mc l r) (\<lambda>b. data_loop mc l rs (rela @ b))"

text \<open>\<open>img[at..at + n].copy_from_slice(&bs)\<close> where \<open>n\<close> is computed separately: a length mismatch panics.\<close>

definition put_exact :: "bytes \<Rightarrow> nat \<Rightarrow> nat \<Rightarrow> bytes \<Rightarrow> bytes res" where
  "put_exact img at n bs = (if at + n \<le> length img \<and> length bs = n then put_slice img at bs else Inl Panic)"

section \<open>Dynamic symbols\<close>

text \<open>One entry: the name goes to the string table, the fields behind \<open>st_name\<close> into the symbol table.\<close>

definition push_sym :: "nat \<Rightarrow> bytes \<Rightarrow> bytes list \<Rightarrow> bytes \<times> bytes \<Rightarrow> (bytes \<times> bytes) res" where
  "push_sym i name fs = (\<lambda>(symtab, strtab).
     bindr (put_all symtab (consec (i * 24) (le32 (of_nat (length strtab)) # fs))) (\<lambda>symtab'.
       Inr (symtab', strtab @ name @ [0])))"

definition export_fields :: "u64 \<Rightarrow> u64 \<Rightarrow> bytes list" where
  "export_fields value sz = [[0x12], [0], le16 1, le64 value, le64 sz]"

definition object_fields :: "u64 \<Rightarrow> bytes list" where
  "object_fields value = [[0x11], [0], le16 2, le64 value, le64 8]"

definition dep_fields :: "bytes list" where
  "dep_fields = [[0x10], [0]]"

fun export_dynsyms :: "machine_code \<Rightarrow> so_offsets \<Rightarrow> u64 list \<Rightarrow> u64 list \<Rightarrow> nat \<Rightarrow> (bytes \<times> usize \<times> usize) list \<Rightarrow> bytes \<times> bytes \<Rightarrow> (bytes \<times> bytes) res" where
  "export_dynsyms mc l vals sizes i [] s = Inr s"
| "export_dynsyms mc l vals sizes i ((name, fi, arity) # es) s =
     bindr (case get_opt vals i of Some v \<Rightarrow> Inr v
            | None \<Rightarrow> bindr (idx (mc_fn_bases mc) (unat fi)) (\<lambda>b. Inr (of_nat (so_code_base l) + b))) (\<lambda>entry_vaddr.
     bindr (push_sym (i + 1) name (export_fields entry_vaddr (unwrap_or (get_opt sizes i) 0)) s)
       (export_dynsyms mc l vals sizes (i + 1) es))"

fun object_dynsyms :: "so_offsets \<Rightarrow> nat \<Rightarrow> (bytes \<times> usize) list \<Rightarrow> bytes \<times> bytes \<Rightarrow> (bytes \<times> bytes) res" where
  "object_dynsyms l i [] s = Inr s"
| "object_dynsyms l i ((name, off) # os) s =
     bindr (push_sym i name (object_fields (of_nat (so_data_at l) + off)) s) (object_dynsyms l (i + 1) os)"

fun dep_dynsyms :: "nat \<Rightarrow> (bytes \<times> bytes) list \<Rightarrow> bytes \<times> bytes \<Rightarrow> (bytes \<times> bytes) res" where
  "dep_dynsyms i [] s = Inr s"
| "dep_dynsyms i ((entry, hint) # ds) s = bindr (push_sym i entry dep_fields s) (dep_dynsyms (i + 1) ds)"

fun needed_strings :: "bytes list \<Rightarrow> bytes \<times> nat list \<Rightarrow> bytes \<times> nat list" where
  "needed_strings [] s = s"
| "needed_strings (hint # hs) (strtab, offs) = needed_strings hs (strtab @ hint @ [0], offs @ [length strtab])"

section \<open>Hash table\<close>

text \<open>Buckets and chains; a symbol is put in front of its bucket's chain.\<close>

type_synonym hash_tab = "u32 list \<times> u32 list"

definition hash_insert :: "nat \<Rightarrow> nat \<Rightarrow> bytes \<Rightarrow> hash_tab \<Rightarrow> hash_tab res" where
  "hash_insert nbucket i name = (\<lambda>(buckets, chains).
     let sym_index = (of_nat i :: u32); b = unat (elf_hash name mod of_nat nbucket) in
     bindr (idx buckets b) (\<lambda>old.
     bindr (put_slice chains (unat sym_index) [old]) (\<lambda>chains'.
     bindr (put_slice buckets b [sym_index]) (\<lambda>buckets'. Inr (buckets', chains')))))"

fun hash_inserts :: "nat \<Rightarrow> nat \<Rightarrow> bytes list \<Rightarrow> hash_tab \<Rightarrow> hash_tab res" where
  "hash_inserts nbucket i [] s = Inr s"
| "hash_inserts nbucket i (n # ns) s = bindr (hash_insert nbucket i n s) (hash_inserts nbucket (i + 1) ns)"

definition hash_table :: "(bytes \<Rightarrow> bytes) \<Rightarrow> machine_code \<Rightarrow> so_offsets \<Rightarrow> hash_tab res" where
  "hash_table vtable_symbol mc l =
     bindr (hash_inserts (so_nbucket l) 1 (map fst (mc_exports mc)) (replicate (so_nbucket l) 0, replicate (so_nsyms l) 0))
       (hash_inserts (so_nbucket l) (length (mc_exports mc) + 1) (map fst (object_syms vtable_symbol mc)))"

definition hash_bytes :: "so_offsets \<Rightarrow> hash_tab \<Rightarrow> bytes" where
  "hash_bytes l = (\<lambda>(buckets, chains). le32 (of_nat (so_nbucket l)) @ le32 (of_nat (so_nsyms l)) @ concat (map le32 buckets) @ concat (map le32 chains))"

section \<open>Dynamic section\<close>

definition init_vaddr :: "machine_code \<Rightarrow> so_offsets \<Rightarrow> u64" where
  "init_vaddr mc l = (case mc_init_fn mc of None \<Rightarrow> 0 | Some i \<Rightarrow>
     (case get_opt (mc_fn_bases mc) (unat i) of None \<Rightarrow> 0 | Some b \<Rightarrow> of_nat (so_code_base l) + b))"

definition dynamic_entries :: "machine_code \<Rightarrow> so_offsets \<Rightarrow> nat list \<Rightarrow> (u64 \<times> u64) list" where
  "dynamic_entries mc l needed_offsets =
     [(DT_HASH, of_nat (so_hash_start l)), (DT_STRTAB, of_nat (so_dynstr_start l)), (DT_SYMTAB, of_nat (so_dynsym_start l)),
      (DT_STRSZ, of_nat (so_dynstr_size l)), (DT_SYMENT, 24), (DT_RELA, of_nat (so_rela_start l)),
      (DT_RELASZ, of_nat (so_nrela l * 24)), (DT_RELAENT, 24)] @
     (if init_vaddr mc l \<noteq> 0 then [(DT_INIT, init_vaddr mc l)] else []) @
     map (\<lambda>off. (DT_NEEDED, of_nat off)) needed_offsets @ [(DT_NULL, 0)]"

definition dynamic_bytes :: "(u64 \<times> u64) list \<Rightarrow> bytes" where
  "dynamic_bytes es = concat (map (\<lambda>(tag, val). le64 tag @ le64 val) es)"

section \<open>Section headers\<close>

record shdr =
  sh_type :: u32
  sh_flags :: u64
  sh_addr :: nat
  sh_offset :: nat
  sh_size :: nat
  sh_link :: u32
  sh_entsize :: u64

definition so_sections :: "machine_code \<Rightarrow> so_offsets \<Rightarrow> shdr list" where
  "so_sections mc l =
     [\<lparr>sh_type = SHT_NULL, sh_flags = 0, sh_addr = 0, sh_offset = 0, sh_size = 0, sh_link = 0, sh_entsize = 0\<rparr>,
      \<lparr>sh_type = SHT_PROGBITS, sh_flags = 6, sh_addr = so_code_base l, sh_offset = so_code_base l,
        sh_size = length (mc_code mc), sh_link = 0, sh_entsize = 0\<rparr>,
      \<lparr>sh_type = SHT_PROGBITS, sh_flags = 3, sh_addr = so_data_at l, sh_offset = so_data_at l,
        sh_size = so_rela_start l - so_data_at l, sh_link = 0, sh_entsize = 0\<rparr>,
      \<lparr>sh_type = SHT_RELA, sh_flags = 0x40, sh_addr = so_rela_start l, sh_offset = so_rela_start l,
        sh_size = so_nrela l * 24, sh_link = 4, sh_entsize = 24\<rparr>,
      \<lparr>sh_type = SHT_DYNSYM, sh_flags = 2, sh_addr = so_dynsym_start l, sh_offset = so_dynsym_start l,
        sh_size = so_dynsym_size l, sh_link = 5, sh_entsize = 24\<rparr>,
      \<lparr>sh_type = SHT_STRTAB, sh_flags = 2, sh_addr = so_dynstr_start l, sh_offset = so_dynstr_start l,
        sh_size = so_dynstr_size l, sh_link = 0, sh_entsize = 0\<rparr>,
      \<lparr>sh_type = SHT_HASH, sh_flags = 2, sh_addr = so_hash_start l, sh_offset = so_hash_start l,
        sh_size = so_hash_size l, sh_link = 4, sh_entsize = 4\<rparr>,
      \<lparr>sh_type = SHT_DYNAMIC, sh_flags = 3, sh_addr = so_dynamic_start l, sh_offset = so_dynamic_start l,
        sh_size = so_dynamic_size l, sh_link = 5, sh_entsize = 16\<rparr>,
      \<lparr>sh_type = SHT_STRTAB, sh_flags = 0, sh_addr = 0, sh_offset = so_shstrtab_at l,
        sh_size = length so_shstrtab, sh_link = 0, sh_entsize = 0\<rparr>]"

definition section_name_off :: "nat \<Rightarrow> nat" where
  "section_name_off i = (if i = 0 then 0 else if i = 8 then shstrtab_name_off else name_offsets ! (i - 1))"

definition shdr_writes :: "nat \<Rightarrow> nat \<Rightarrow> shdr \<Rightarrow> (nat \<times> bytes) list" where
  "shdr_writes at name_off s =
     [(at, le32 (of_nat name_off)), (at + 4, le32 (sh_type s)), (at + 8, le64 (sh_flags s)), (at + 16, le64 (of_nat (sh_addr s))),
      (at + 24, le64 (of_nat (sh_offset s))), (at + 32, le64 (of_nat (sh_size s))), (at + 40, le32 (sh_link s)), (at + 44, le32 0),
      (at + 48, le64 8), (at + 56, le64 (sh_entsize s))]"

fun so_section_headers :: "nat \<Rightarrow> nat \<Rightarrow> shdr list \<Rightarrow> (nat \<times> bytes) list" where
  "so_section_headers shoff i [] = []"
| "so_section_headers shoff i (s # ss) = shdr_writes (shoff + i * 64) (section_name_off i) s @ so_section_headers shoff (i + 1) ss"

definition so_header_patch :: "so_offsets \<Rightarrow> (nat \<times> bytes) list" where
  "so_header_patch l = [(40, le64 (of_nat (so_shoff l))), (48, le32 0), (60, le16 (of_nat SHDR_COUNT)), (62, le16 8)]"

section \<open>The writer\<close>

text \<open>The headers, the code and the trampolines.\<close>

definition so_text :: "container \<Rightarrow> machine_code \<Rightarrow> so_offsets \<Rightarrow> bytes option \<Rightarrow> export_state res" where
  "so_text ct mc l types =
     bindr (put_all (replicate (so_image_len l) 0)
       (so_elf_header l @ so_preamble ct types @ phdrs_writes (so_phdr_at l) (so_phdrs l) @ [(so_code_base l, mc_code mc)])) (\<lambda>img.
     emit_exports mc l 0 (mc_exports mc) (img, so_tramp_base l, [], []))"

text \<open>Data, table of addresses and relocation records.\<close>

definition so_relocated :: "machine_code \<Rightarrow> so_offsets \<Rightarrow> bytes \<Rightarrow> bytes res" where
  "so_relocated mc l img =
     bindr (put_slice img (so_data_at l) (mc_data mc)) (\<lambda>img.
     bindr (got_loop mc l (mc_relocs mc) (img, [], so_got_start l)) (\<lambda>(img, rela, _).
     bindr (data_loop mc l (mc_relocs mc) rela) (\<lambda>rela.
     put_exact img (so_rela_start l) (so_nrela l * 24) rela)))"

text \<open>Symbol table, string table and the offsets of the needed images' names.\<close>

definition so_symbols :: "(bytes \<Rightarrow> bytes) \<Rightarrow> machine_code \<Rightarrow> so_offsets \<Rightarrow> u64 list \<Rightarrow> u64 list \<Rightarrow> (bytes \<times> bytes \<times> nat list) res" where
  "so_symbols vtable_symbol mc l vals sizes =
     bindr (export_dynsyms mc l vals sizes 0 (mc_exports mc) (replicate (so_dynsym_size l) 0, [0])) (\<lambda>s.
     bindr (object_dynsyms l (length (mc_exports mc) + 1) (object_syms vtable_symbol mc) s) (\<lambda>s.
     bindr (dep_dynsyms (so_dep_sym_base l) (dep_syms mc) s) (\<lambda>(symtab, strtab).
     let (strtab', offs) = needed_strings (dep_hints mc) (strtab, []) in Inr (symtab, strtab', offs))))"

definition so_dynamic :: "(bytes \<Rightarrow> bytes) \<Rightarrow> machine_code \<Rightarrow> so_offsets \<Rightarrow> u64 list \<Rightarrow> u64 list \<Rightarrow> bytes \<Rightarrow> bytes res" where
  "so_dynamic vtable_symbol mc l vals sizes img =
     bindr (so_symbols vtable_symbol mc l vals sizes) (\<lambda>(symtab, strtab, needed).
     bindr (put_exact img (so_dynsym_start l) (so_dynsym_size l) symtab) (\<lambda>img.
     bindr (put_slice img (so_dynstr_start l) strtab) (\<lambda>img.
     bindr (hash_table vtable_symbol mc l) (\<lambda>h.
     bindr (put_slice img (so_hash_start l) (hash_bytes l h)) (\<lambda>img.
     put_slice img (so_dynamic_start l) (dynamic_bytes (dynamic_entries mc l needed)))))))"

definition so_tables :: "machine_code \<Rightarrow> so_offsets \<Rightarrow> (nat \<times> bytes) list" where
  "so_tables mc l = so_section_headers (so_shoff l) 0 (so_sections mc l) @ [(so_shstrtab_at l, so_shstrtab)] @ so_header_patch l"

definition write_shared_library_inner :: "container \<Rightarrow> (bytes \<Rightarrow> bytes) \<Rightarrow> machine_code \<Rightarrow> bytes option \<Rightarrow> bytes res" where
  "write_shared_library_inner ct vtable_symbol mc types = (let l = so_layout vtable_symbol mc types in
     bindr (so_text ct mc l types) (\<lambda>(img, _, vals, sizes).
     bindr (so_relocated mc l img) (\<lambda>img.
     bindr (so_dynamic vtable_symbol mc l vals sizes img) (\<lambda>img.
     put_all img (so_tables mc l)))))"

definition write_shared_library :: "container \<Rightarrow> (bytes \<Rightarrow> bytes) \<Rightarrow> machine_code \<Rightarrow> bytes res" where
  "write_shared_library ct vtable_symbol mc = write_shared_library_inner ct vtable_symbol mc None"

definition write_shared_library_embedded :: "container \<Rightarrow> (bytes \<Rightarrow> bytes) \<Rightarrow> machine_code \<Rightarrow> bytes \<Rightarrow> bytes res" where
  "write_shared_library_embedded ct vtable_symbol mc types = write_shared_library_inner ct vtable_symbol mc (Some types)"

end
