(* ===== verification/Shlib_Hash.thy ===== *)
theory Shlib_Hash
  imports Shlib_Write
begin

text \<open>
  The \<open>.hash\<close> section of a shared object: the dynamic loader's search through bucket and chain is the search
  in the list of the defined symbols.
\<close>

section \<open>Chains\<close>

text \<open>\<open>is_chain c i js\<close>: the chain that starts at \<open>i\<close> visits exactly the indices \<open>js\<close> and ends at 0.\<close>

fun is_chain :: "u32 list \<Rightarrow> u32 \<Rightarrow> nat list \<Rightarrow> bool" where
  "is_chain c i [] \<longleftrightarrow> i = 0"
| "is_chain c i (j # js) \<longleftrightarrow> i = of_nat j \<and> 0 < j \<and> j < length c \<and> j < 2 ^ 32 \<and> is_chain c (c ! j) js"

lemma is_chain_update: "j \<notin> set js \<Longrightarrow> is_chain (c[j := v]) i js \<longleftrightarrow> is_chain c i js"
  by (induction js arbitrary: i) auto

text \<open>What the dynamic loader does; \<open>None\<close> when the fuel ends first.\<close>

fun chain_find :: "nat \<Rightarrow> u32 list \<Rightarrow> (nat \<Rightarrow> bytes) \<Rightarrow> bytes \<Rightarrow> u32 \<Rightarrow> nat option option" where
  "chain_find 0 c nm name i = None"
| "chain_find (Suc fuel) c nm name i =
     (if i = 0 then Some None else if nm (unat i) = name then Some (Some (unat i)) else chain_find fuel c nm name (c ! unat i))"

definition dl_lookup :: "nat \<Rightarrow> hash_tab \<Rightarrow> (nat \<Rightarrow> bytes) \<Rightarrow> bytes \<Rightarrow> nat option option" where
  "dl_lookup fuel h nm name = chain_find fuel (snd h) nm name (fst h ! unat (elf_hash name mod of_nat (length (fst h))))"

lemma chain_find_is_chain:
  "is_chain c i js \<Longrightarrow> length js < fuel \<Longrightarrow> chain_find fuel c nm name i = Some (find (\<lambda>j. nm j = name) js)"
proof (induction js arbitrary: i fuel)
  case Nil
  then show ?case by (cases fuel) auto
next
  case (Cons j js)
  then obtain f where f: "fuel = Suc f" by (cases fuel) auto
  have "unat i = j" "0 < j" using Cons.prems(1) by auto
  then have "unat i = j" "i \<noteq> 0" by auto
  then show ?case using Cons by (simp add: f)
qed

section \<open>The invariant of the table\<close>

definition bucket_of :: "nat \<Rightarrow> bytes \<Rightarrow> nat" where
  "bucket_of nb name = unat (elf_hash name mod of_nat nb)"

text \<open>With the symbols \<open>1..k\<close> inserted, bucket \<open>b\<close> chains exactly those that hash to it, the last one first.\<close>

definition hash_inv :: "nat \<Rightarrow> nat \<Rightarrow> (nat \<Rightarrow> bytes) \<Rightarrow> nat \<Rightarrow> hash_tab \<Rightarrow> bool" where
  "hash_inv nb n nm k h \<longleftrightarrow> length (fst h) = nb \<and> length (snd h) = n \<and>
     (\<forall>b < nb. is_chain (snd h) (fst h ! b) (filter (\<lambda>j. bucket_of nb (nm j) = b) (rev [1..<k + 1])))"

lemma bucket_of_less: "0 < nb \<Longrightarrow> nb < 2 ^ 32 \<Longrightarrow> bucket_of nb name < nb"
  by (simp add: bucket_of_def unat_mod_distrib)

lemma splice_singleton: "i < length xs \<Longrightarrow> splice xs i [x] = xs[i := x]"
  by (simp add: splice_def upd_conv_take_nth_drop)

lemma hash_insert_inv:
  assumes "hash_inv nb n nm k h" and "0 < nb" "nb < 2 ^ 32" "k + 1 < n" "n < 2 ^ 32"
  shows "\<exists>h'. hash_insert nb (k + 1) (nm (k + 1)) h = Inr h' \<and> hash_inv nb n nm (k + 1) h'"
proof -
  define j where "j = k + 1"
  obtain bs cs where h: "h = (bs, cs)" by (cases h)
  define b where "b = bucket_of nb (nm j)"
  have b: "b < nb" unfolding b_def by (rule bucket_of_less) (use assms in auto)
  have j: "0 < j" "j < n" "j < 2 ^ 32" "rev [1..<j + 1] = j # rev [1..<j]" using assms(4,5) by (simp_all add: j_def)
  have len: "length bs = nb" "length cs = n"
    and ch: "\<And>a. a < nb \<Longrightarrow> is_chain cs (bs ! a) (filter (\<lambda>i. bucket_of nb (nm i) = a) (rev [1..<j]))"
    using assms(1) by (auto simp: hash_inv_def h j_def)
  have u: "unat (of_nat j :: u32) = j" using j by (intro unat_of_nat_u32)
  let ?h' = "(bs[b := of_nat j], cs[j := bs ! b])"
  have "hash_insert nb j (nm j) h = Inr ?h'"
    using b len j u
    by (simp add: hash_insert_def h Let_def put_slice_def splice_singleton Suc_le_eq flip: bucket_of_def) (simp add: b_def)
  moreover have "hash_inv nb n nm j ?h'"
    unfolding hash_inv_def j(4)
  proof (intro conjI allI impI)
    fix a assume a: "a < nb"
    have "is_chain (cs[j := bs ! b]) (bs ! a) (filter (\<lambda>i. bucket_of nb (nm i) = a) (rev [1..<j]))"
      using ch [OF a] by (subst is_chain_update) auto
    then show "is_chain (snd ?h') (fst ?h' ! a) (filter (\<lambda>i. bucket_of nb (nm i) = a) (j # rev [1..<j]))"
      using a b len j by (auto simp: b_def nth_list_update)
  qed (simp_all add: len)
  ultimately show ?thesis unfolding j_def by blast
qed

lemma hash_inserts_inv:
  assumes "hash_inv nb n nm k h" and "0 < nb" "nb < 2 ^ 32" "k + length ns < n" "n < 2 ^ 32"
    and "\<And>i. i < length ns \<Longrightarrow> nm (k + 1 + i) = ns ! i"
  shows "\<exists>h'. hash_inserts nb (k + 1) ns h = Inr h' \<and> hash_inv nb n nm (k + length ns) h'"
  using assms(1,4,6)
proof (induction ns arbitrary: k h)
  case (Cons x ns)
  have x: "nm (k + 1) = x" using Cons.prems(3) [of 0] by simp
  obtain h1 where h1: "hash_insert nb (k + 1) x h = Inr h1" "hash_inv nb n nm (k + 1) h1"
    using hash_insert_inv [OF Cons.prems(1) assms(2,3) _ assms(5)] Cons.prems(2) x by auto
  have "\<And>i. i < length ns \<Longrightarrow> nm (k + 1 + 1 + i) = ns ! i" using Cons.prems(3) [of "Suc _"] by simp
  then show ?case using Cons.IH [OF h1(2)] h1(1) Cons.prems(2) by simp
qed simp

lemma hash_inv_empty: "0 < nb \<Longrightarrow> hash_inv nb n nm 0 (replicate nb 0, replicate n 0)"
  by (simp add: hash_inv_def)

section \<open>Properties\<close>

definition so_names :: "(bytes \<Rightarrow> bytes) \<Rightarrow> machine_code \<Rightarrow> bytes list" where
  "so_names vtable_symbol mc = map fst (mc_exports mc) @ map fst (object_syms vtable_symbol mc)"

lemma so_layout_sizes:
  "so_nsyms (so_layout vs mc types) = length (so_names vs mc) + 1 + length (dep_syms mc)"
  "so_nbucket (so_layout vs mc types) = so_nsyms (so_layout vs mc types)"
  by (simp_all add: so_layout_eqs so_names_def)

lemma hash_table_inv:
  assumes "so_nsyms (so_layout vs mc types) < 2 ^ 32"
  defines "l \<equiv> so_layout vs mc types" and "nm \<equiv> (\<lambda>j. so_names vs mc ! (j - 1))"
  shows "\<exists>h. hash_table vs mc l = Inr h \<and> hash_inv (so_nsyms l) (so_nsyms l) nm (length (so_names vs mc)) h"
proof -
  let ?n = "so_nsyms l" and ?e = "map fst (mc_exports mc)" and ?o = "map fst (object_syms vs mc)"
  have s: "so_nbucket l = ?n" "0 < ?n" "?n < 2 ^ 32" "length ?e + length ?o < ?n"
    using assms(1) by (simp_all add: l_def so_layout_sizes so_names_def)
  have "\<exists>h1. hash_inserts ?n (0 + 1) ?e (replicate ?n 0, replicate ?n 0) = Inr h1 \<and> hash_inv ?n ?n nm (0 + length ?e) h1"
    by (rule hash_inserts_inv [OF hash_inv_empty [OF s(2)] s(2,3) _ s(3)]) (use s(4) in \<open>auto simp: nm_def so_names_def nth_append\<close>)
  then obtain h1 where h1: "hash_inserts ?n 1 ?e (replicate ?n 0, replicate ?n 0) = Inr h1" "hash_inv ?n ?n nm (length ?e) h1" by auto
  have "\<exists>h2. hash_inserts ?n (length ?e + 1) ?o h1 = Inr h2 \<and> hash_inv ?n ?n nm (length ?e + length ?o) h2"
    by (rule hash_inserts_inv [OF h1(2) s(2,3) _ s(3)]) (use s(4) in \<open>auto simp: nm_def so_names_def nth_append\<close>)
  then show ?thesis using h1(1) s(1) by (auto simp: hash_table_def so_names_def)
qed

lemma find_filter_same: "(\<And>x. P x \<Longrightarrow> Q x) \<Longrightarrow> find P (filter Q xs) = find P xs"
  by (induction xs) auto

text \<open>
  C34. Looking a symbol up in the written hash table is looking it up in the list of the exported functions and
  data symbols: building the table never panics, and for every name the dynamic loader's search ends within as
  many steps as there are symbols, with the index of the last defined symbol of that name, or with none exactly
  when no such symbol is defined (the undefined imports are not found).
\<close>

theorem hash_lookup_refines:
  assumes "so_nsyms (so_layout vs mc types) < 2 ^ 32"
  shows "\<exists>h. hash_table vs mc (so_layout vs mc types) = Inr h \<and>
     (\<forall>name. dl_lookup (so_nsyms (so_layout vs mc types)) h (\<lambda>j. so_names vs mc ! (j - 1)) name =
       Some (find (\<lambda>j. so_names vs mc ! (j - 1) = name) (rev [1..<length (so_names vs mc) + 1])))"
proof -
  let ?n = "so_nsyms (so_layout vs mc types)" and ?nm = "\<lambda>j. so_names vs mc ! (j - 1)" and ?k = "length (so_names vs mc)"
  obtain h where h: "hash_table vs mc (so_layout vs mc types) = Inr h" "hash_inv ?n ?n ?nm ?k h"
    using hash_table_inv [OF assms] by blast
  have n: "?k < ?n" "0 < ?n" by (simp_all add: so_layout_sizes)
  have "dl_lookup ?n h ?nm name = Some (find (\<lambda>j. ?nm j = name) (rev [1..<?k + 1]))" for name
  proof -
    let ?b = "bucket_of ?n name"
    let ?js = "filter (\<lambda>j. bucket_of ?n (?nm j) = ?b) (rev [1..<?k + 1])"
    have "?b < ?n" using n assms by (intro bucket_of_less)
    then have "is_chain (snd h) (fst h ! ?b) ?js" "length (fst h) = ?n" using h(2) by (auto simp: hash_inv_def)
    moreover have "length ?js < ?n"
    proof -
      have "length (rev [1..<?k + 1]) = ?k" by (simp del: upt_Suc)
      then show ?thesis using n(1) length_filter_le [of "\<lambda>j. bucket_of ?n (?nm j) = ?b" "rev [1..<?k + 1]"] by linarith
    qed
    ultimately have "dl_lookup ?n h ?nm name = Some (find (\<lambda>j. ?nm j = name) ?js)"
      by (simp add: dl_lookup_def chain_find_is_chain flip: bucket_of_def)
    moreover have "find (\<lambda>j. ?nm j = name) ?js = find (\<lambda>j. ?nm j = name) (rev [1..<?k + 1])"
      by (rule find_filter_same) simp
    ultimately show ?thesis by simp
  qed
  then show ?thesis using h(1) by blast
qed

definition sample_library :: machine_code where
  "sample_library = empty_mc\<lparr>mc_code := [0xC3, 0xC3], mc_fn_bases := [0, 1], mc_exports := [(ascii ''f'', 0, 1), (ascii ''g'', 1, 0)],
     mc_static_names := [ascii ''s''], mc_static_offsets := [0], mc_data := [0, 0, 0, 0, 0, 0, 0, 0]\<rparr>"

lemma sample_library_names: "so_names vs sample_library = [ascii ''f'', ascii ''g'', ascii ''s'']" "dep_syms sample_library = []"
  by (simp_all add: so_names_def sample_library_def empty_mc_def object_syms_def dep_syms_def)

theorem hash_lookup_refines_witness:
  "\<exists>h. hash_table id sample_library (so_layout id sample_library None) = Inr h
     \<and> dl_lookup 4 h (\<lambda>j. so_names id sample_library ! (j - 1)) (ascii ''g'') = Some (Some 2)
     \<and> dl_lookup 4 h (\<lambda>j. so_names id sample_library ! (j - 1)) (ascii ''h'') = Some None"
proof -
  have n: "so_nsyms (so_layout id sample_library None) = 4" by (simp add: so_layout_sizes sample_library_names)
  have u: "rev [1..<length (so_names id sample_library) + 1] = [3, 2, 1]" by (simp add: sample_library_names upt_rec)
  obtain h where h: "hash_table id sample_library (so_layout id sample_library None) = Inr h"
    "\<And>name. dl_lookup 4 h (\<lambda>j. so_names id sample_library ! (j - 1)) name =
       Some (find (\<lambda>j. so_names id sample_library ! (j - 1) = name) [3, 2, 1])"
    using hash_lookup_refines [of id sample_library None] n u by auto
  have "dl_lookup 4 h (\<lambda>j. so_names id sample_library ! (j - 1)) (ascii ''g'') = Some (Some 2)"
    unfolding h(2) by (simp add: sample_library_names ascii_def)
  moreover have "dl_lookup 4 h (\<lambda>j. so_names id sample_library ! (j - 1)) (ascii ''h'') = Some None"
    unfolding h(2) by (simp add: sample_library_names ascii_def)
  ultimately show ?thesis using h(1) by blast
qed

end
