(* ===== verification/Shlib_Layout.thy ===== *)
theory Shlib_Layout
  imports Shlib_Hash
begin

text \<open>
  The passes of the shared library writer one by one: each succeeds on well-formed machine code and changes
  only its own part of the image.
\<close>

section \<open>Images that agree outside a set of offsets\<close>

definition same_except :: "nat set \<Rightarrow> 'a list \<Rightarrow> 'a list \<Rightarrow> bool" where
  "same_except S xs ys \<longleftrightarrow> length ys = length xs \<and> (\<forall>i < length xs. i \<notin> S \<longrightarrow> ys ! i = xs ! i)"

abbreviation same_outside :: "nat \<Rightarrow> nat \<Rightarrow> 'a list \<Rightarrow> 'a list \<Rightarrow> bool" where
  "same_outside a b \<equiv> same_except {a..<b}"

lemma same_except_refl [simp]: "same_except S xs xs"
  by (simp add: same_except_def)

lemma same_except_trans: "same_except S xs ys \<Longrightarrow> same_except S ys zs \<Longrightarrow> same_except S xs zs"
  by (simp add: same_except_def)

lemma same_except_mono: "same_except S xs ys \<Longrightarrow> S \<subseteq> T \<Longrightarrow> same_except T xs ys"
  by (auto simp: same_except_def)

lemma same_except_length: "same_except S xs ys \<Longrightarrow> length ys = length xs"
  by (simp add: same_except_def)

lemma same_except_slice:
  assumes "same_except S xs ys" and "{at..<at + n} \<inter> S = {}" and "at + n \<le> length xs"
  shows "slice ys at n = slice xs at n"
proof -
  have "at + i \<notin> S" if "i < n" for i
  proof -
    have "at + i \<in> {at..<at + n}" using that by simp
    then show ?thesis using assms(2) by blast
  qed
  then show ?thesis using assms by (intro nth_equalityI) (auto simp: same_except_def slice_length nth_slice)
qed

lemma same_except_splice: "at + length bs \<le> length xs \<Longrightarrow> {at..<at + length bs} \<subseteq> S \<Longrightarrow> same_except S xs (splice xs at bs)"
  by (auto simp: same_except_def nth_splice)

text \<open>A run of writes inside a window that is inside the image succeeds and changes nothing else.\<close>

lemma put_all_same:
  "writes_in a b ws \<Longrightarrow> b \<le> length img \<Longrightarrow> \<exists>img'. put_all img ws = Inr img' \<and> same_outside a b img img'"
proof (induction img ws rule: put_all.induct)
  case (2 img at bs ws)
  then have f: "at + length bs \<le> length img" "a \<le> at" "at + length bs \<le> b" by auto
  obtain img' where "put_all (splice img at bs) ws = Inr img'" "same_outside a b (splice img at bs) img'"
    using "2.IH" [of "splice img at bs"] "2.prems" f by (auto simp: put_slice_def)
  then show ?case using same_except_trans [OF same_except_splice [of at bs img "{a..<b}"]] f by (auto simp: put_slice_def)
qed simp

lemma put_slice_same:
  "a \<le> at \<Longrightarrow> at + length bs \<le> b \<Longrightarrow> b \<le> length img \<Longrightarrow> \<exists>img'. put_slice img at bs = Inr img' \<and> same_outside a b img img'"
  using put_all_same [of a b "[(at, bs)]" img] by (auto simp: bindr_Inr_conv)

section \<open>Layout\<close>

text \<open>The blocks follow one another; segment starts are page-aligned.\<close>

lemma so_order:
  fixes vs :: "bytes \<Rightarrow> bytes" and mc :: machine_code and types :: "bytes option"
  defines "l \<equiv> so_layout vs mc types"
  shows "80 \<le> so_phdr_at l" and "so_phdr_at l + 280 = so_code_base l" and "so_code_base l + length (mc_code mc) = so_tramp_base l"
    and "so_tramp_base l \<le> so_rx_end l" and "so_rx_end l \<le> so_data_at l" and "so_data_at l + length (mc_data mc) \<le> so_got_start l"
    and "so_got_start l + count_code_abs64 mc * 8 \<le> so_rela_start l" and "so_rela_start l + so_nrela l * 24 \<le> so_dynsym_start l"
    and "so_dynsym_start l + so_dynsym_size l \<le> so_dynstr_start l" and "so_dynstr_start l + so_dynstr_size l \<le> so_hash_start l"
    and "so_hash_start l + so_hash_size l \<le> so_dynamic_start l" and "so_dynamic_start l + so_dynamic_size l = so_rw_end l"
    and "so_rw_end l \<le> so_shoff l" and "so_shoff l + 576 = so_shstrtab_at l" and "so_shstrtab_at l + length so_shstrtab \<le> so_image_len l"
    and "so_rw_end l \<le> so_heap_vaddr l"
proof -
  have a: "v \<le> align_up v 8" "v \<le> align_up v PAGE" "v \<le> align_up v 16" for v by (simp_all add: align_up_ge)
  note e = so_layout_eqs [of vs mc types, folded l_def]
  show "80 \<le> so_phdr_at l" using a(3) [of "64 + 13 + 8 + length (the types)"] by (cases types) (simp_all add: e(25))
  show "so_phdr_at l + 280 = so_code_base l" "so_code_base l + length (mc_code mc) = so_tramp_base l"
    "so_tramp_base l \<le> so_rx_end l" by (simp_all add: e(1-3))
  show "so_rx_end l \<le> so_data_at l" by (simp add: e(4) a)
  show "so_data_at l + length (mc_data mc) \<le> so_got_start l" by (simp add: e(5) a)
  show "so_got_start l + count_code_abs64 mc * 8 \<le> so_rela_start l" by (simp add: e(6) a)
  show "so_rela_start l + so_nrela l * 24 \<le> so_dynsym_start l" by (simp add: e(13) a)
  show "so_dynsym_start l + so_dynsym_size l \<le> so_dynstr_start l" by (simp add: e(14) a)
  show "so_dynstr_start l + so_dynstr_size l \<le> so_hash_start l" by (simp add: e(15) a)
  show "so_hash_start l + so_hash_size l \<le> so_dynamic_start l" by (simp add: e(16) a)
  show "so_dynamic_start l + so_dynamic_size l = so_rw_end l" by (simp add: e(17))
  show "so_rw_end l \<le> so_shoff l" by (simp add: e(20) a)
  show "so_shoff l + 576 = so_shstrtab_at l" by (simp add: e(21) SHDR_COUNT_def)
  show "so_shstrtab_at l + length so_shstrtab \<le> so_image_len l" by (simp add: e(22))
  show "so_rw_end l \<le> so_heap_vaddr l" by (simp add: e(18) a)
qed

section \<open>Well-formed machine codes\<close>

definition so_reloc_ok :: "machine_code \<Rightarrow> reloc \<Rightarrow> bool" where
  "so_reloc_ok mc r \<longleftrightarrow> r_kind r \<noteq> Abs64 \<or> (case r_section r of
     Code \<Rightarrow> 2 \<le> unat (r_site r) \<and> unat (r_site r) + 8 \<le> length (mc_code mc)
   | Data \<Rightarrow> (case r_sym r of Sym_Fn i \<Rightarrow> unat i < length (mc_fn_bases mc) | Sym_HeapBase \<Rightarrow> True | _ \<Rightarrow> False))"

definition so_ok :: "container \<Rightarrow> machine_code \<Rightarrow> bool" where
  "so_ok ct mc \<longleftrightarrow> container_ok ct \<and> (\<forall>(name, fi, arity) \<in> set (mc_exports mc). unat fi < length (mc_fn_bases mc))
     \<and> (\<forall>r \<in> set (mc_relocs mc). so_reloc_ok mc r)"

section \<open>Headers, code and trampolines\<close>

lemma length_phdr [simp]: "writes_in at (at + 56) (phdr_writes at p)"
  by (simp add: phdr_writes_def)

lemma phdrs_in: "a \<le> at \<Longrightarrow> at + 56 * length ps \<le> b \<Longrightarrow> writes_in a b (phdrs_writes at ps)"
proof (induction ps arbitrary: at)
  case (Cons p ps)
  then show ?case using writes_in_mono [OF length_phdr [of at p], of a b] by simp
qed simp

lemma length_so_phdrs [simp]: "length (so_phdrs l) = 5"
  by (simp add: so_phdrs_def)

lemma so_elf_header_in: "writes_in 0 62 (so_elf_header l)"
  by (simp add: so_elf_header_def ascii_def)

lemma so_preamble_in:
  assumes "container_ok ct" and "l = so_layout vs mc types"
  shows "writes_in 64 (so_phdr_at l) (so_preamble ct types)"
proof -
  have p: "so_phdr_at l = (case types of None \<Rightarrow> 80 | Some t \<Rightarrow> align_up (64 + 13 + 8 + length t) 16)"
    unfolding assms(2) by (rule so_layout_eqs(25))
  show ?thesis using assms(1) align_up_ge [of 16 "64 + 13 + 8 + length (the types)"]
    by (cases types) (auto simp: p so_preamble_def container_ok_def)
qed

text \<open>Trampolines fit their slots.\<close>

lemma length_shift_params [simp]: "length (shift_params n) = 3 * n"
  by (induction n) (simp_all add: Let_def)

lemma trampoline_fits: "length (build_trampoline n at body takes) \<le> trampoline_size n takes"
  by (simp add: build_trampoline_def trampoline_size_def Let_def min_def)

lemma length_trampoline_sizes [simp]: "length (trampoline_sizes mc) = length (mc_exports mc)"
  by (simp add: trampoline_sizes_def)

lemma trampoline_sizes_nth:
  assumes "i < length (mc_exports mc)" and "mc_exports mc ! i = (name, fi, arity)"
  shows "trampoline_sizes mc ! i = (if contains (ascii ''::'') name then 0 else trampoline_size (unat arity) (takes_recv mc i))"
  using assms by (simp add: trampoline_sizes_def)

lemma sum_list_take_Suc: "i < length xs \<Longrightarrow> sum_list (take (Suc i) xs) = sum_list (take i xs) + xs ! i" for xs :: "nat list"
  by (simp add: take_Suc_conv_app_nth)

lemma sum_list_take_le: "sum_list (take i xs) \<le> sum_list xs" for xs :: "nat list"
  by (metis append_take_drop_id le_add1 sum_list_append)

lemma emit_exports_ok:
  assumes "\<forall>(name, fi, arity) \<in> set (mc_exports mc). unat fi < length (mc_fn_bases mc)"
    and "es = drop i (mc_exports mc)" and "i \<le> length (mc_exports mc)" and "so_rx_end l \<le> length img"
    and "tr = so_tramp_base l + sum_list (take i (trampoline_sizes mc))" and "so_rx_end l = so_tramp_base l + sum_list (trampoline_sizes mc)"
    and "length vals = i" and "length sizes = i"
  shows "\<exists>img' tr' vals' sizes'. emit_exports mc l i es (img, tr, vals, sizes) = Inr (img', tr', vals', sizes') \<and>
    same_outside (so_tramp_base l) (so_rx_end l) img img' \<and> length vals' = length (mc_exports mc) \<and> length sizes' = length (mc_exports mc)"
  using assms(2-5,7,8)
proof (induction es arbitrary: i img tr vals sizes)
  case Nil
  then show ?case by simp
next
  case (Cons e es)
  have i: "i < length (mc_exports mc)" using Cons.prems(1) by (metis drop_eq_Nil leI list.distinct(1))
  then have e: "mc_exports mc ! i = e" "es = drop (Suc i) (mc_exports mc)" using Cons.prems(1) by (simp_all add: Cons_nth_drop_Suc [symmetric])
  obtain name fi arity where p: "e = (name, fi, arity)" by (cases e)
  then have fi: "unat fi < length (mc_fn_bases mc)" using assms(1) i e(1) nth_mem [OF i] by fastforce
  define sz where "sz = trampoline_sizes mc ! i"
  have tr: "tr + sz = so_tramp_base l + sum_list (take (Suc i) (trampoline_sizes mc))" using i Cons.prems(4) by (simp add: sz_def sum_list_take_Suc)
  then have bound: "tr + sz \<le> so_rx_end l" using assms(6) sum_list_take_le [of "Suc i" "trampoline_sizes mc"] by simp
  obtain bsize where bs: "body_size mc fi = Inr bsize" using fi by (simp add: body_size_def Let_def)
  have "\<exists>img1 v s. emit_export mc l i e (img, tr, vals, sizes) = Inr (img1, tr + sz, vals @ [v], sizes @ [s])
      \<and> same_outside (so_tramp_base l) (so_rx_end l) img img1"
  proof (cases "sz = 0")
    case True
    then show ?thesis using i fi bs by (simp add: emit_export_def p Let_def flip: sz_def)
  next
    case False
    then have sz: "sz = trampoline_size (unat arity) (takes_recv mc i)"
      using trampoline_sizes_nth [OF i e(1) [unfolded p]] by (auto simp: sz_def split: if_splits)
    let ?code = "build_trampoline (unat arity) (of_nat tr) (of_nat (so_code_base l) + mc_fn_bases mc ! unat fi) (takes_recv mc i)"
    have f: "so_tramp_base l \<le> tr" "tr + length ?code \<le> so_rx_end l"
      using bound trampoline_fits [of "unat arity" "of_nat tr" "of_nat (so_code_base l) + mc_fn_bases mc ! unat fi" "takes_recv mc i"] sz Cons.prems(4)
      by simp_all
    obtain img1 where "put_slice img tr ?code = Inr img1" "same_outside (so_tramp_base l) (so_rx_end l) img img1"
      using put_slice_same [OF f Cons.prems(3)] by blast
    then show ?thesis using i fi bs False by (auto simp: emit_export_def p Let_def simp flip: sz_def)
  qed
  then obtain img1 v s where s1: "emit_export mc l i e (img, tr, vals, sizes) = Inr (img1, tr + sz, vals @ [v], sizes @ [s])"
    "same_outside (so_tramp_base l) (so_rx_end l) img img1" by blast
  have "\<exists>img' tr' vals' sizes'. emit_exports mc l (i + 1) es (img1, tr + sz, vals @ [v], sizes @ [s]) = Inr (img', tr', vals', sizes') \<and>
    same_outside (so_tramp_base l) (so_rx_end l) img1 img' \<and> length vals' = length (mc_exports mc) \<and> length sizes' = length (mc_exports mc)"
    by (rule Cons.IH) (use e(2) i tr Cons.prems(3,5,6) same_except_length [OF s1(2)] in simp_all)
  then show ?case using s1 same_except_trans [OF s1(2)] by fastforce
qed

lemma so_text_ok:
  assumes "so_ok ct mc" and l: "l = so_layout vs mc types"
  shows "\<exists>img0 img tr vals sizes. so_text ct mc l types = Inr (img, tr, vals, sizes)
    \<and> put_all (replicate (so_image_len l) 0)
       (so_elf_header l @ so_preamble ct types @ phdrs_writes (so_phdr_at l) (so_phdrs l) @ [(so_code_base l, mc_code mc)]) = Inr img0
    \<and> same_outside (so_tramp_base l) (so_rx_end l) img0 img \<and> length img = so_image_len l
    \<and> length vals = length (mc_exports mc) \<and> length sizes = length (mc_exports mc)"
proof -
  note o = so_order [of vs mc types, folded l]
  have ct: "container_ok ct" and ex: "\<forall>(name, fi, arity) \<in> set (mc_exports mc). unat fi < length (mc_fn_bases mc)"
    using assms(1) by (simp_all add: so_ok_def)
  have len: "so_rx_end l \<le> so_image_len l" using o by linarith
  have w: "writes_in 0 (so_tramp_base l)
      (so_elf_header l @ so_preamble ct types @ phdrs_writes (so_phdr_at l) (so_phdrs l) @ [(so_code_base l, mc_code mc)])"
    using writes_in_mono [OF so_elf_header_in, of 0 "so_tramp_base l" l] writes_in_mono [OF so_preamble_in [OF ct l], of 0 "so_tramp_base l"]
      phdrs_in [of 0 "so_phdr_at l" "so_phdrs l" "so_tramp_base l"] o by simp
  have "so_tramp_base l \<le> length (replicate (so_image_len l) (0 :: u8))" using len o(4) by simp
  from put_all_same [OF w this] obtain img0 where img0: "put_all (replicate (so_image_len l) 0)
       (so_elf_header l @ so_preamble ct types @ phdrs_writes (so_phdr_at l) (so_phdrs l) @ [(so_code_base l, mc_code mc)]) = Inr img0"
    "length img0 = so_image_len l"
    by (auto dest: same_except_length)
  have x: "so_rx_end l = so_tramp_base l + sum_list (trampoline_sizes mc)" unfolding l by (rule so_layout_eqs(3))
  have "so_rx_end l \<le> length img0" using len img0(2) by simp
  then obtain img tr vals sizes where
    s: "emit_exports mc l 0 (mc_exports mc) (img0, so_tramp_base l, [], []) = Inr (img, tr, vals, sizes)"
      "same_outside (so_tramp_base l) (so_rx_end l) img0 img" "length vals = length (mc_exports mc)" "length sizes = length (mc_exports mc)"
    using emit_exports_ok [OF ex, of "mc_exports mc" 0 l img0 "so_tramp_base l" "[]" "[]"] x by auto
  have "so_text ct mc l types = Inr (img, tr, vals, sizes)" by (simp add: so_text_def img0(1) s(1))
  then show ?thesis using img0 s(2-4) same_except_length [OF s(2)] by auto
qed

section \<open>Redirected code references\<close>

definition is_code_abs :: "reloc \<Rightarrow> bool" where
  "is_code_abs r \<longleftrightarrow> r_kind r = Abs64 \<and> r_section r = Code"

text \<open>The ten bytes of the instruction that loads the address, its immediate at the site.\<close>

definition load_at :: "so_offsets \<Rightarrow> reloc \<Rightarrow> nat" where
  "load_at l r = so_code_base l + unat (r_site r) - 2"

definition load_window :: "so_offsets \<Rightarrow> reloc \<Rightarrow> nat set" where
  "load_window l r = {load_at l r..<load_at l r + 10}"

definition load_register :: "machine_code \<Rightarrow> reloc \<Rightarrow> nat" where
  "load_register mc r = (if got_dep mc (r_sym r) = None then got_register (r_sym r) else 0)"

text \<open>The window and the slot of a reference after the redirection: the load, and the initial value of the slot
  (the slot of an undefined symbol is left to the dynamic loader).\<close>

definition redirected :: "machine_code \<Rightarrow> so_offsets \<Rightarrow> bytes \<Rightarrow> reloc \<Rightarrow> nat \<Rightarrow> bool" where
  "redirected mc l img r slot \<longleftrightarrow>
     slice img (load_at l r) 10 = concat (got_load_bytes (so_code_base l) (unat (r_site r)) (load_register mc r) (of_nat slot)) \<and>
     (got_dep mc (r_sym r) = None \<longrightarrow> (\<exists>v. final_value mc l r = Inr v \<and> slice img slot 8 = le64 (unwrap_or v 0)))"

lemma length_got_load_bytes [simp]: "length (concat (got_load_bytes cb site reg v)) = 10"
  by (simp add: got_load_bytes_def Let_def)

lemma final_value_code: "r_section r = Code \<Longrightarrow> \<exists>v. final_value mc l r = Inr v"
  by (cases "r_sym r") (auto simp: final_value_def split: option.splits)

lemma encode_got_load_ok:
  assumes "load_at l r + 10 \<le> length img" and "2 \<le> unat (r_site r)"
  shows "\<exists>img'. encode_got_load img (so_code_base l) (unat (r_site r)) reg v = Inr img' \<and> same_except (load_window l r) img img' \<and>
    slice img' (load_at l r) 10 = concat (got_load_bytes (so_code_base l) (unat (r_site r)) reg v)"
proof -
  let ?bs = "got_load_bytes (so_code_base l) (unat (r_site r)) reg v"
  have n: "?bs \<noteq> []" by (simp add: got_load_bytes_def Let_def)
  have "encode_got_load img (so_code_base l) (unat (r_site r)) reg v = Inr (splice img (load_at l r) (concat ?bs))"
    using n assms by (simp add: encode_got_load_def put_all_consec put_slice_def load_at_def)
  then show ?thesis
    using same_except_splice [of "load_at l r" "concat ?bs" img "load_window l r"]
      slice_splice_same [of "load_at l r" "concat ?bs" img] assms(1) by (auto simp: load_window_def)
qed

lemma got_step_ok:
  assumes r: "is_code_abs r" and ok: "so_reloc_ok mc r" and l: "so_code_base l + length (mc_code mc) = so_tramp_base l"
    and slot: "so_tramp_base l \<le> slot" "slot + 8 \<le> length img"
  shows "\<exists>img' rcd. got_step mc l r (img, rela, slot) = Inr (img', rela @ rcd, slot + 8) \<and> length rcd = 24 \<and>
    same_except (load_window l r \<union> {slot..<slot + 8}) img img' \<and> redirected mc l img' r slot"
proof -
  have s: "2 \<le> unat (r_site r)" "load_at l r + 10 \<le> so_tramp_base l" "r_kind r = Abs64" "r_section r = Code"
    using ok r l by (auto simp: so_reloc_ok_def load_at_def is_code_abs_def)
  show ?thesis
  proof (cases "got_dep mc (r_sym r)")
    case (Some pos)
    obtain img' where e: "encode_got_load img (so_code_base l) (unat (r_site r)) 0 (of_nat slot) = Inr img'" "same_except (load_window l r) img img'"
      "slice img' (load_at l r) 10 = concat (got_load_bytes (so_code_base l) (unat (r_site r)) 0 (of_nat slot))"
      using encode_got_load_ok [of l r img 0 "of_nat slot"] s slot by auto
    then show ?thesis
      using Some s same_except_mono [OF e(2), of "load_window l r \<union> {slot..<slot + 8}"]
      by (auto simp: got_step_def rela_record_def redirected_def load_register_def)
  next
    case None
    obtain v where v: "final_value mc l r = Inr v" using final_value_code [OF s(4)] by blast
    let ?w = "le64 (unwrap_or v 0)" and ?i1 = "splice img slot (le64 (unwrap_or v 0))"
    have len: "length ?i1 = length img" using slot by simp
    obtain img' where e: "encode_got_load ?i1 (so_code_base l) (unat (r_site r)) (got_register (r_sym r)) (of_nat slot) = Inr img'"
      "same_except (load_window l r) ?i1 img'"
      "slice img' (load_at l r) 10 = concat (got_load_bytes (so_code_base l) (unat (r_site r)) (got_register (r_sym r)) (of_nat slot))"
      using encode_got_load_ok [of l r ?i1 "got_register (r_sym r)" "of_nat slot"] s slot len by auto
    have "same_except (load_window l r \<union> {slot..<slot + 8}) img ?i1" using slot(2) by (intro same_except_splice) auto
    then have same: "same_except (load_window l r \<union> {slot..<slot + 8}) img img'"
      using same_except_trans same_except_mono [OF e(2), of "load_window l r \<union> {slot..<slot + 8}"] by blast
    have "{slot..<slot + 8} \<inter> load_window l r = {}" using s(2) slot(1) by (auto simp: load_window_def)
    then have "slice img' slot 8 = slice ?i1 slot 8" using same_except_slice [OF e(2), of slot 8] slot len by simp
    also have "\<dots> = ?w" using slice_splice_same [of slot ?w img] slot by simp
    finally show ?thesis
      using None s v e same slot by (auto simp: got_step_def put_slice_def rela_record_def redirected_def load_register_def Let_def)
  qed
qed

lemma got_step_skip: "\<not> is_code_abs r \<Longrightarrow> got_step mc l r s = Inr s"
  by (auto simp: got_step_def is_code_abs_def split: prod.splits)

text \<open>References whose load instructions do not overlap.\<close>

definition loads_apart :: "reloc \<Rightarrow> reloc \<Rightarrow> bool" where
  "loads_apart r q \<longleftrightarrow> unat (r_site r) + 10 \<le> unat (r_site q) \<or> unat (r_site q) + 10 \<le> unat (r_site r)"

lemma redirected_kept:
  assumes "redirected mc l img r slot" and "same_except S img img'" and "load_window l r \<inter> S = {}" and "{slot..<slot + 8} \<inter> S = {}"
    and "load_at l r + 10 \<le> length img" and "slot + 8 \<le> length img"
  shows "redirected mc l img' r slot"
  using assms(1) same_except_slice [OF assms(2), of "load_at l r" 10] same_except_slice [OF assms(2), of slot 8] assms(3-6)
  by (auto simp: redirected_def load_window_def)

lemma got_loop_ok:
  assumes "\<forall>r \<in> set rs. so_reloc_ok mc r" and "so_code_base l + length (mc_code mc) = so_tramp_base l" and "so_tramp_base l \<le> slot"
    and "slot + 8 * length (filter is_code_abs rs) \<le> length img"
  shows "\<exists>img' rela'. got_loop mc l rs (img, rela, slot) = Inr (img', rela', slot + 8 * length (filter is_code_abs rs)) \<and>
    length rela' = length rela + 24 * length (filter is_code_abs rs) \<and>
    same_except ((\<Union>r \<in> set (filter is_code_abs rs). load_window l r) \<union> {slot..<slot + 8 * length (filter is_code_abs rs)}) img img' \<and>
    (sorted_wrt loads_apart (filter is_code_abs rs) \<longrightarrow>
      (\<forall>k < length (filter is_code_abs rs). redirected mc l img' (filter is_code_abs rs ! k) (slot + 8 * k)))"
  using assms(1,3,4)
proof (induction rs arbitrary: img rela slot)
  case (Cons r rs)
  let ?cs = "filter is_code_abs rs"
  show ?case
  proof (cases "is_code_abs r")
    case False
    then show ?thesis using Cons.IH [of slot img rela] Cons.prems by (simp add: got_step_skip)
  next
    case True
    have ok: "so_reloc_ok mc r" "slot + 8 \<le> length img" using Cons.prems True by simp_all
    obtain img1 rcd where s1: "got_step mc l r (img, rela, slot) = Inr (img1, rela @ rcd, slot + 8)" "length rcd = 24"
      "same_except (load_window l r \<union> {slot..<slot + 8}) img img1" "redirected mc l img1 r slot"
      using got_step_ok [OF True ok(1) assms(2) Cons.prems(2) ok(2)] by blast
    have len1: "length img1 = length img" by (rule same_except_length [OF s1(3)])
    let ?S = "(\<Union>r \<in> set ?cs. load_window l r) \<union> {slot + 8..<slot + 8 + 8 * length ?cs}"
    obtain img2 rela2 where s2: "got_loop mc l rs (img1, rela @ rcd, slot + 8) = Inr (img2, rela2, slot + 8 + 8 * length ?cs)"
      "length rela2 = length (rela @ rcd) + 24 * length ?cs" "same_except ?S img1 img2"
      "sorted_wrt loads_apart ?cs \<Longrightarrow> \<forall>k < length ?cs. redirected mc l img2 (?cs ! k) (slot + 8 + 8 * k)"
      using Cons.IH [of "slot + 8" img1 "rela @ rcd"] Cons.prems True len1 by auto
    let ?T = "(\<Union>r \<in> set (filter is_code_abs (r # rs)). load_window l r) \<union> {slot..<slot + 8 * length (filter is_code_abs (r # rs))}"
    have "same_except ?T img img1" by (rule same_except_mono [OF s1(3)]) (use True in auto)
    moreover have "same_except ?T img1 img2" by (rule same_except_mono [OF s2(3)]) (use True in auto)
    ultimately have same: "same_except ?T img img2" by (rule same_except_trans)
    have "redirected mc l img2 (filter is_code_abs (r # rs) ! k) (slot + 8 * k)"
      if srt: "sorted_wrt loads_apart (filter is_code_abs (r # rs))" and k: "k < length (filter is_code_abs (r # rs))" for k
    proof (cases k)
      case (Suc j)
      then show ?thesis using s2(4) srt k True by (simp add: add.assoc)
    next
      case 0
      have win: "load_at l q + 10 \<le> so_tramp_base l" "load_at l q = so_code_base l + unat (r_site q) - 2" "2 \<le> unat (r_site q)"
        if "q \<in> set (r # rs)" "is_code_abs q" for q
        using Cons.prems(1) that assms(2) by (auto simp: so_reloc_ok_def load_at_def is_code_abs_def)
      have "load_window l r \<inter> load_window l q = {}" if "q \<in> set ?cs" for q
        using srt True that win [of r] win [of q] by (auto simp: loads_apart_def load_window_def)
      moreover have "load_window l q \<inter> {slot..} = {}" if "q \<in> set (r # rs)" "is_code_abs q" for q
        using win [OF that] Cons.prems(2) by (auto simp: load_window_def)
      ultimately have "load_window l r \<inter> ?S = {}" "{slot..<slot + 8} \<inter> ?S = {}"
        using True by fastforce+
      then show ?thesis
        using redirected_kept [OF s1(4) s2(3)] win [of r] True 0 len1 ok(2) Cons.prems(2) by simp
    qed
    then show ?thesis using s1(1,2) s2(1,2) same True by auto
  qed
qed simp

lemma data_loop_ok:
  assumes "\<forall>r \<in> set rs. so_reloc_ok mc r"
  shows "\<exists>rela'. data_loop mc l rs rela = Inr rela' \<and>
    length rela' = length rela + 24 * length (filter (\<lambda>r. r_kind r = Abs64 \<and> r_section r = Data) rs)"
  using assms
proof (induction rs arbitrary: rela)
  case (Cons r rs)
  have "\<exists>b. data_rela mc l r = Inr b \<and> length b = (if r_kind r = Abs64 \<and> r_section r = Data then 24 else 0)"
    using Cons.prems by (auto simp: data_rela_def so_reloc_ok_def final_value_def rela_record_def split: sym.splits)
  then obtain b where b: "data_rela mc l r = Inr b" "length b = (if r_kind r = Abs64 \<and> r_section r = Data then 24 else 0)" by blast
  then show ?case using Cons.IH [of "rela @ b"] Cons.prems by auto
qed simp

lemma so_relocated_ok:
  assumes "so_ok ct mc" and l: "l = so_layout vs mc types" and img: "length img = so_image_len l"
  shows "\<exists>img'. so_relocated mc l img = Inr img' \<and>
    same_except ((\<Union>r \<in> set (filter is_code_abs (mc_relocs mc)). load_window l r) \<union> {so_data_at l..<so_dynsym_start l}) img img' \<and>
    slice img' (so_data_at l) (length (mc_data mc)) = mc_data mc \<and>
    (sorted_wrt loads_apart (filter is_code_abs (mc_relocs mc)) \<longrightarrow>
      (\<forall>k < count_code_abs64 mc. redirected mc l img' (filter is_code_abs (mc_relocs mc) ! k) (so_got_start l + 8 * k)))"
proof -
  note o = so_order [of vs mc types, folded l]
  let ?cs = "filter is_code_abs (mc_relocs mc)" and ?n = "count_code_abs64 mc"
  have n: "?n = length ?cs" by (simp add: count_code_abs64_def is_code_abs_def [abs_def])
  have ok: "\<forall>r \<in> set (mc_relocs mc). so_reloc_ok mc r" using assms(1) by (simp add: so_ok_def)
  have nrela: "so_nrela l = ?n + length (filter (\<lambda>r. r_kind r = Abs64 \<and> r_section r = Data) (mc_relocs mc))"
    unfolding l by (rule so_layout_eqs(7))
  let ?U = "\<Union>r \<in> set ?cs. load_window l r"
  let ?S = "?U \<union> {so_data_at l..<so_dynsym_start l}"
  have U: "x < so_tramp_base l" if "x \<in> ?U" for x
    using that ok o(3) by (auto simp: load_window_def load_at_def so_reloc_ok_def is_code_abs_def)
  let ?i1 = "splice img (so_data_at l) (mc_data mc)"
  have s1: "put_slice img (so_data_at l) (mc_data mc) = Inr ?i1" "length ?i1 = length img" "same_except ?S img ?i1"
    "slice ?i1 (so_data_at l) (length (mc_data mc)) = mc_data mc"
    using o img by (auto simp: put_slice_def slice_splice_same intro!: same_except_splice)
  have "so_tramp_base l \<le> so_got_start l" "so_got_start l + 8 * length ?cs \<le> length ?i1" using o img n s1(2) by linarith+
  from got_loop_ok [OF ok o(3) this, of "[]"] obtain i2 rela where s2: "got_loop mc l (mc_relocs mc) (?i1, [], so_got_start l) = Inr (i2, rela, so_got_start l + 8 * ?n)"
    "length rela = 24 * ?n" "same_except (?U \<union> {so_got_start l..<so_got_start l + 8 * ?n}) ?i1 i2"
    "sorted_wrt loads_apart ?cs \<longrightarrow> (\<forall>k < ?n. redirected mc l i2 (?cs ! k) (so_got_start l + 8 * k))"
    by (auto simp: n)
  obtain rela2 where s3: "data_loop mc l (mc_relocs mc) rela = Inr rela2" "length rela2 = so_nrela l * 24"
    using data_loop_ok [OF ok, of l rela] s2(2) nrela by auto
  have len2: "length i2 = length img" using same_except_length [OF s2(3)] s1(2) by simp
  let ?i3 = "splice i2 (so_rela_start l) rela2"
  have s4: "put_exact i2 (so_rela_start l) (so_nrela l * 24) rela2 = Inr ?i3"
    using s3(2) len2 img o by (simp add: put_exact_def put_slice_def)
  have rs: "same_except {so_rela_start l..<so_dynsym_start l} i2 ?i3"
    using s3(2) len2 img o by (intro same_except_splice) auto
  have "so_relocated mc l img = Inr ?i3" by (simp add: so_relocated_def s1(1) s2(1) s3(1) s4)
  moreover have "same_except ?S img ?i3"
  proof -
    have "same_except ?S ?i1 i2" by (rule same_except_mono [OF s2(3)]) (use o in auto)
    moreover have "same_except ?S i2 ?i3" by (rule same_except_mono [OF rs]) (use o in auto)
    ultimately show ?thesis using s1(3) same_except_trans by blast
  qed
  moreover have "slice ?i3 (so_data_at l) (length (mc_data mc)) = mc_data mc"
  proof -
    have "{so_data_at l..<so_data_at l + length (mc_data mc)} \<inter> (?U \<union> {so_got_start l..<so_got_start l + 8 * ?n}) = {}"
      using U o by fastforce
    then have "slice i2 (so_data_at l) (length (mc_data mc)) = mc_data mc"
      using same_except_slice [OF s2(3)] s1(2,4) o img by simp
    then show ?thesis using same_except_slice [OF rs, of "so_data_at l" "length (mc_data mc)"] o len2 img by auto
  qed
  moreover have "redirected mc l ?i3 (?cs ! k) (so_got_start l + 8 * k)" if "sorted_wrt loads_apart ?cs" "k < ?n" for k
  proof (rule redirected_kept [OF _ rs])
    show "redirected mc l i2 (?cs ! k) (so_got_start l + 8 * k)" using s2(4) that by blast
    have k: "?cs ! k \<in> set (mc_relocs mc)" "is_code_abs (?cs ! k)" using nth_mem [of k ?cs] that(2) n by auto
    then have w: "load_at l (?cs ! k) + 10 \<le> so_tramp_base l" using ok o(3) by (auto simp: so_reloc_ok_def load_at_def is_code_abs_def)
    show "load_window l (?cs ! k) \<inter> {so_rela_start l..<so_dynsym_start l} = {}" using w o by (auto simp: load_window_def)
    show "{so_got_start l + 8 * k..<so_got_start l + 8 * k + 8} \<inter> {so_rela_start l..<so_dynsym_start l} = {}" using that(2) o by auto
    show "load_at l (?cs ! k) + 10 \<le> length i2" using w o len2 img by linarith
    show "so_got_start l + 8 * k + 8 \<le> length i2" using that(2) o len2 img by linarith
  qed
  ultimately show ?thesis by blast
qed

section \<open>Dynamic tables\<close>

lemma push_sym_ok:
  assumes "i * 24 + 4 + length (concat fs) \<le> length symtab"
  shows "\<exists>symtab'. push_sym i name fs (symtab, strtab) = Inr (symtab', strtab @ name @ [0]) \<and> length symtab' = length symtab"
proof -
  have "writes_in 0 (length symtab) (consec (i * 24) (le32 (of_nat (length strtab)) # fs))"
    using assms by (intro writes_in_consec) auto
  from put_all_ok [OF this] show ?thesis by (auto simp: push_sym_def)
qed

lemma export_dynsyms_ok:
  assumes "length vals = i + length es" and "(i + length es + 1) * 24 \<le> length symtab"
  shows "\<exists>symtab' strtab'. export_dynsyms mc l vals sizes i es (symtab, strtab) = Inr (symtab', strtab') \<and> length symtab' = length symtab \<and>
    length strtab' = length strtab + sum_list (map (\<lambda>(n, _, _). length n + 1) es)"
  using assms
proof (induction es arbitrary: i symtab strtab)
  case (Cons e es)
  obtain name fi arity where e: "e = (name, fi, arity)" by (cases e)
  obtain v where v: "get_opt vals i = Some v" using Cons.prems(1) by (simp add: get_opt_def)
  have "(i + 1) * 24 + 4 + length (concat (export_fields v (unwrap_or (get_opt sizes i) 0))) \<le> length symtab"
    using Cons.prems(2) by (simp add: export_fields_def)
  from push_sym_ok [OF this, of name strtab] obtain st where
    st: "push_sym (i + 1) name (export_fields v (unwrap_or (get_opt sizes i) 0)) (symtab, strtab) = Inr (st, strtab @ name @ [0])"
    "length st = length symtab" by blast
  have "(i + 1 + length es + 1) * 24 \<le> length st" "length vals = i + 1 + length es" using Cons.prems st(2) by simp_all
  from Cons.IH [OF this(2,1), of "strtab @ name @ [0]"] show ?case using st by (auto simp: e v)
qed simp

lemma object_dynsyms_ok:
  assumes "(i + length os) * 24 \<le> length symtab"
  shows "\<exists>symtab' strtab'. object_dynsyms l i os (symtab, strtab) = Inr (symtab', strtab') \<and> length symtab' = length symtab \<and>
    length strtab' = length strtab + sum_list (map (\<lambda>(n, _). length n + 1) os)"
  using assms
proof (induction os arbitrary: i symtab strtab)
  case (Cons e os)
  obtain name off where e: "e = (name, off)" by (cases e)
  have "i * 24 + 4 + length (concat (object_fields (of_nat (so_data_at l) + off))) \<le> length symtab"
    using Cons.prems by (simp add: object_fields_def)
  from push_sym_ok [OF this, of name strtab] obtain st where
    st: "push_sym i name (object_fields (of_nat (so_data_at l) + off)) (symtab, strtab) = Inr (st, strtab @ name @ [0])"
    "length st = length symtab" by blast
  have "(i + 1 + length os) * 24 \<le> length st" using Cons.prems st(2) by simp
  from Cons.IH [OF this, of "strtab @ name @ [0]"] show ?case using st by (auto simp: e)
qed simp

lemma dep_dynsyms_ok:
  assumes "(i + length ds) * 24 \<le> length symtab"
  shows "\<exists>symtab' strtab'. dep_dynsyms i ds (symtab, strtab) = Inr (symtab', strtab') \<and> length symtab' = length symtab \<and>
    length strtab' = length strtab + sum_list (map (\<lambda>(n, _). length n + 1) ds)"
  using assms
proof (induction ds arbitrary: i symtab strtab)
  case (Cons e ds)
  obtain name hint where e: "e = (name, hint)" by (cases e)
  have "i * 24 + 4 + length (concat dep_fields) \<le> length symtab" using Cons.prems by (simp add: dep_fields_def)
  from push_sym_ok [OF this, of name strtab] obtain st where
    st: "push_sym i name dep_fields (symtab, strtab) = Inr (st, strtab @ name @ [0])" "length st = length symtab" by blast
  have "(i + 1 + length ds) * 24 \<le> length st" using Cons.prems st(2) by simp
  from Cons.IH [OF this, of "strtab @ name @ [0]"] show ?case using st by (auto simp: e)
qed simp

lemma needed_strings_length:
  "length (fst (needed_strings hs (strtab, offs))) = length strtab + sum_list (map (\<lambda>n. length n + 1) hs)
   \<and> length (snd (needed_strings hs (strtab, offs))) = length offs + length hs"
  by (induction hs arbitrary: strtab offs) auto

lemma so_symbols_ok:
  assumes l: "l = so_layout vs mc types" and "length vals = length (mc_exports mc)"
  shows "\<exists>symtab strtab needed. so_symbols vs mc l vals sizes = Inr (symtab, strtab, needed) \<and>
    length symtab = so_dynsym_size l \<and> length strtab = so_dynstr_size l \<and> length needed = length (dep_hints mc)"
proof -
  note e = so_layout_eqs [of vs mc types, folded l]
  let ?s0 = "replicate (so_dynsym_size l) (0 :: u8)"
  obtain s1 t1 where 1: "export_dynsyms mc l vals sizes 0 (mc_exports mc) (?s0, [0]) = Inr (s1, t1)" "length s1 = length ?s0"
    "length t1 = 1 + sum_list (map (\<lambda>(n, _, _). length n + 1) (mc_exports mc))"
    using export_dynsyms_ok [of vals 0 "mc_exports mc" ?s0 mc l sizes "[0]"] assms(2) e(8,9,10) by auto
  obtain s2 t2 where 2: "object_dynsyms l (length (mc_exports mc) + 1) (object_syms vs mc) (s1, t1) = Inr (s2, t2)" "length s2 = length s1"
    "length t2 = length t1 + sum_list (map (\<lambda>(n, _). length n + 1) (object_syms vs mc))"
    using object_dynsyms_ok [of "length (mc_exports mc) + 1" "object_syms vs mc" s1 l t1] 1(2) e(8,9,10) by auto
  obtain s3 t3 where 3: "dep_dynsyms (so_dep_sym_base l) (dep_syms mc) (s2, t2) = Inr (s3, t3)" "length s3 = length s2"
    "length t3 = length t2 + sum_list (map (\<lambda>(n, _). length n + 1) (dep_syms mc))"
    using dep_dynsyms_ok [of "so_dep_sym_base l" "dep_syms mc" s2 t2] 1(2) 2(2) e(9,10) by auto
  obtain t4 offs where 4: "needed_strings (dep_hints mc) (t3, []) = (t4, offs)" by (cases "needed_strings (dep_hints mc) (t3, [])")
  have "so_symbols vs mc l vals sizes = Inr (s3, t4, offs)"
    by (simp add: so_symbols_def 1(1) 2(1) [simplified] 3(1) 4)
  then show ?thesis using 1 2 3 4 needed_strings_length [of "dep_hints mc" t3 "[]"] e(23) by auto
qed

lemma length_dynamic_bytes [simp]: "length (dynamic_bytes es) = 16 * length es"
  by (induction es) (auto simp: dynamic_bytes_def)

lemma dynamic_entries_length: "16 * length (dynamic_entries mc l needed) \<le> so_dynamic_size l"
  if "l = so_layout vs mc types" "length needed = length (dep_hints mc)"
proof -
  have "so_dynamic_size l = (8 + (if mc_init_fn mc = None then 0 else 1) + length (dep_hints mc) + 1) * 16"
    unfolding that(1) by (rule so_layout_eqs(24))
  then show ?thesis using that(2) by (auto simp: dynamic_entries_def init_vaddr_def)
qed

lemma length_concat_le32: "length (concat (map le32 xs)) = 4 * length xs"
  by (induction xs) simp_all

lemma so_dynamic_ok:
  assumes l: "l = so_layout vs mc types" and vals: "length vals = length (mc_exports mc)" and img: "length img = so_image_len l"
    and n: "so_nsyms l < 2 ^ 32"
  shows "\<exists>img'. so_dynamic vs mc l vals sizes img = Inr img' \<and> same_outside (so_dynsym_start l) (so_rw_end l) img img'"
proof -
  note o = so_order [of vs mc types, folded l] and e = so_layout_eqs [of vs mc types, folded l]
  obtain symtab strtab needed where s: "so_symbols vs mc l vals sizes = Inr (symtab, strtab, needed)"
    "length symtab = so_dynsym_size l" "length strtab = so_dynstr_size l" "length needed = length (dep_hints mc)"
    using so_symbols_ok [OF l vals, of sizes] by blast
  obtain h where h: "hash_table vs mc l = Inr h" "length (fst h) = so_nsyms l" "length (snd h) = so_nsyms l"
    using hash_table_inv [of vs mc types] n unfolding l by (auto simp: hash_inv_def)
  have hb: "length (hash_bytes l h) = so_hash_size l"
    using h(2,3) e(9,11,12) by (cases h) (simp add: hash_bytes_def length_concat_le32 so_layout_sizes(2) l max_def)
  let ?d = "dynamic_bytes (dynamic_entries mc l needed)"
  have d: "length ?d \<le> so_dynamic_size l" using dynamic_entries_length [OF l s(4)] by simp
  let ?ws = "[(so_dynsym_start l, symtab), (so_dynstr_start l, strtab), (so_hash_start l, hash_bytes l h), (so_dynamic_start l, ?d)]"
  have "writes_in (so_dynsym_start l) (so_rw_end l) ?ws" using s hb d o by simp
  moreover have "so_rw_end l \<le> length img" using o img by linarith
  ultimately obtain img' where p: "put_all img ?ws = Inr img'" "same_outside (so_dynsym_start l) (so_rw_end l) img img'"
    using put_all_same by blast
  have "put_exact img (so_dynsym_start l) (so_dynsym_size l) symtab = put_slice img (so_dynsym_start l) symtab"
    using s(2) o img by (simp add: put_exact_def)
  then have "so_dynamic vs mc l vals sizes img = put_all img ?ws"
    by (simp add: so_dynamic_def s(1) h(1)) (simp add: bindr_def split: sum.splits)
  then show ?thesis using p by auto
qed

section \<open>Section table\<close>

lemma shdr_in: "a \<le> at \<Longrightarrow> at + 64 \<le> b \<Longrightarrow> writes_in a b (shdr_writes at no s)"
  by (simp add: shdr_writes_def)

lemma section_headers_so_in: "a \<le> off + i * 64 \<Longrightarrow> off + (i + length ss) * 64 \<le> b \<Longrightarrow> writes_in a b (so_section_headers off i ss)"
proof (induction ss arbitrary: i)
  case (Cons s ss)
  then show ?case using shdr_in [of a "off + i * 64" b "section_name_off i" s] by simp
qed simp

lemma so_tables_ok:
  assumes l: "l = so_layout vs mc types" and img: "length img = so_image_len l"
  shows "\<exists>img'. put_all img (so_tables mc l) = Inr img' \<and> same_except ({so_shoff l..<so_image_len l} \<union> {40..<64}) img img' \<and>
    slice img' 32 8 = slice img 32 8 \<and> slice img' 54 2 = slice img 54 2 \<and> slice img' 56 2 = slice img 56 2"
proof -
  note o = so_order [of vs mc types, folded l]
  let ?ws = "so_section_headers (so_shoff l) 0 (so_sections mc l) @ [(so_shstrtab_at l, so_shstrtab)]"
  have ws: "writes_in (so_shoff l) (so_image_len l) ?ws"
    using section_headers_so_in [of "so_shoff l" "so_shoff l" 0 "so_sections mc l" "so_image_len l"] o by (simp add: so_sections_def)
  have "writes_in 40 64 (so_header_patch l)" by (simp add: so_header_patch_def)
  moreover have len: "64 \<le> length img" using o img by linarith
  obtain i1 where i1: "put_all img ?ws = Inr i1" "same_outside (so_shoff l) (so_image_len l) img i1"
    using put_all_same [OF ws, of img] img by auto
  have len1: "length i1 = length img" by (rule same_except_length [OF i1(2)])
  ultimately obtain i2 where i2: "put_all i1 (so_header_patch l) = Inr i2" "same_outside 40 64 i1 i2"
    using put_all_same [of 40 64 "so_header_patch l" i1] len len1 by auto
  have p: "put_all img (so_tables mc l) = Inr i2"
    using put_all_append [of img ?ws "so_header_patch l"] i1(1) i2(1) by (simp add: so_tables_def del: put_all.simps)
  have "writes_off at (at + n) (so_tables mc l)" if "at + n \<le> so_shoff l" "at + n \<le> 40 \<or> at = 54 \<and> n = 2 \<or> at = 56 \<and> n = 2" for at n
    using writes_in_off [OF ws, of at "at + n"] that by (auto simp: so_tables_def so_header_patch_def)
  then have "slice i2 at n = slice img at n" if "at + n \<le> so_shoff l" "at + n \<le> 40 \<or> at = 54 \<and> n = 2 \<or> at = 56 \<and> n = 2" for at n
    using put_all_off [OF p, of at n] that len by auto
  then have "slice i2 32 8 = slice img 32 8" "slice i2 54 2 = slice img 54 2" "slice i2 56 2 = slice img 56 2" using o by auto
  moreover have "same_except ({so_shoff l..<so_image_len l} \<union> {40..<64}) img i2"
    using same_except_trans [OF same_except_mono [OF i1(2)] same_except_mono [OF i2(2)]] by blast
  ultimately show ?thesis using p by blast
qed

end
