(* ===== verification/Shlib_Correct.thy ===== *)
theory Shlib_Correct
  imports Shlib_Layout
begin

text \<open>
  Properties of the written shared object: it is always written for well-formed machine code, its segments
  are separate and keep write and execute apart, and every absolute code reference is redirected to a slot of
  its own in the writable segment.
\<close>

section \<open>The written image\<close>

lemma phdr_writes_consec:
  "phdr_writes at p = consec at (ph_fields (p_type p) (p_flags p) (p_offset p) (p_vaddr p) (p_filesz p) (p_memsz p))"
  by (simp add: phdr_writes_def ph_fields_def)

lemma phdrs_writes_read:
  assumes "put_all img (ws @ phdrs_writes at ps @ ws') = Inr img'" and "i < length ps"
    and "writes_off at (at + 56 * length ps) ws'"
  shows "slice img' (at + 56 * i) 56 = concat (ph_fields (p_type (ps ! i)) (p_flags (ps ! i)) (p_offset (ps ! i)) (p_vaddr (ps ! i)) (p_filesz (ps ! i)) (p_memsz (ps ! i)))"
  using assms
proof (induction ps arbitrary: at i ws)
  case (Cons p ps)
  show ?case
  proof (cases i)
    case 0
    let ?f = "ph_fields (p_type p) (p_flags p) (p_offset p) (p_vaddr p) (p_filesz p) (p_memsz p)"
    have "put_all img (ws @ consec at ?f @ (phdrs_writes (at + 56) ps @ ws')) = Inr img'"
      using Cons.prems(1) by (simp add: phdr_writes_consec)
    moreover have "writes_off at (at + 56) (phdrs_writes (at + 56) ps @ ws')"
      using writes_in_off [OF phdrs_in [of "at + 56" "at + 56" ps "at + 56 + 56 * length ps"], of at "at + 56"] Cons.prems(3)
      by (auto simp: writes_off_def list_all_iff)
    moreover have "?f \<noteq> []" by (simp add: ph_fields_def)
    ultimately show ?thesis using put_all_read_consec [of img ws at ?f] 0 by simp
  next
    case (Suc j)
    have "writes_off (at + 56) (at + 56 + 56 * length ps) ws'" using Cons.prems(3) by (auto simp: writes_off_def list_all_iff)
    then show ?thesis using Cons.IH [of "ws @ phdr_writes at p" "at + 56" j] Cons.prems Suc by (simp add: add.assoc)
  qed
qed simp

text \<open>The parts of the image that the later passes do not touch.\<close>

definition so_touched :: "machine_code \<Rightarrow> so_offsets \<Rightarrow> nat set" where
  "so_touched mc l = (\<Union>r \<in> set (filter is_code_abs (mc_relocs mc)). load_window l r) \<union> {so_tramp_base l..} \<union> {40..<64}"

lemma so_write_ok:
  assumes "so_ok ct mc" and l: "l = so_layout vs mc types" and n: "so_nsyms l < 2 ^ 32"
  shows "\<exists>img img0. write_shared_library_inner ct vs mc types = Inr img \<and> length img = so_image_len l \<and>
    put_all (replicate (so_image_len l) 0)
       (so_elf_header l @ so_preamble ct types @ phdrs_writes (so_phdr_at l) (so_phdrs l) @ [(so_code_base l, mc_code mc)]) = Inr img0 \<and>
    same_except (so_touched mc l) img0 img \<and>
    slice img 32 8 = slice img0 32 8 \<and> slice img 54 2 = slice img0 54 2 \<and> slice img 56 2 = slice img0 56 2 \<and>
    slice img (so_data_at l) (length (mc_data mc)) = mc_data mc \<and>
    (sorted_wrt loads_apart (filter is_code_abs (mc_relocs mc)) \<longrightarrow>
      (\<forall>k < count_code_abs64 mc. redirected mc l img (filter is_code_abs (mc_relocs mc) ! k) (so_got_start l + 8 * k)))"
proof -
  note o = so_order [of vs mc types, folded l]
  let ?cs = "filter is_code_abs (mc_relocs mc)"
  let ?U = "\<Union>r \<in> set ?cs. load_window l r"
  obtain img0 i1 tr vals sizes where 1: "so_text ct mc l types = Inr (i1, tr, vals, sizes)"
    "put_all (replicate (so_image_len l) 0)
       (so_elf_header l @ so_preamble ct types @ phdrs_writes (so_phdr_at l) (so_phdrs l) @ [(so_code_base l, mc_code mc)]) = Inr img0"
    "same_outside (so_tramp_base l) (so_rx_end l) img0 i1" "length i1 = so_image_len l" "length vals = length (mc_exports mc)"
    using so_text_ok [OF assms(1) l] by blast
  obtain i2 where 2: "so_relocated mc l i1 = Inr i2" "same_except (?U \<union> {so_data_at l..<so_dynsym_start l}) i1 i2"
    "slice i2 (so_data_at l) (length (mc_data mc)) = mc_data mc"
    "sorted_wrt loads_apart ?cs \<longrightarrow> (\<forall>k < count_code_abs64 mc. redirected mc l i2 (?cs ! k) (so_got_start l + 8 * k))"
    using so_relocated_ok [OF assms(1) l 1(4)] by blast
  have len2: "length i2 = so_image_len l" using same_except_length [OF 2(2)] 1(4) by simp
  obtain i3 where 3: "so_dynamic vs mc l vals sizes i2 = Inr i3" "same_outside (so_dynsym_start l) (so_rw_end l) i2 i3"
    using so_dynamic_ok [OF l 1(5) len2 n] by blast
  have len3: "length i3 = so_image_len l" using same_except_length [OF 3(2)] len2 by simp
  obtain img where 4: "put_all i3 (so_tables mc l) = Inr img" "same_except ({so_shoff l..<so_image_len l} \<union> {40..<64}) i3 img"
    "slice img 32 8 = slice i3 32 8" "slice img 54 2 = slice i3 54 2" "slice img 56 2 = slice i3 56 2"
    using so_tables_ok [OF l len3] by blast
  have len: "length img = so_image_len l" using same_except_length [OF 4(2)] len3 by simp
  have w: "write_shared_library_inner ct vs mc types = Inr img"
    by (simp add: write_shared_library_inner_def Let_def 1(1) 2(1) 3(1) 4(1) flip: l)
  have "same_except (so_touched mc l) img0 i1" by (rule same_except_mono [OF 1(3)]) (auto simp: so_touched_def)
  moreover have "same_except (so_touched mc l) i1 i2" by (rule same_except_mono [OF 2(2)]) (use o in \<open>auto simp: so_touched_def\<close>)
  moreover have "same_except (so_touched mc l) i2 i3" by (rule same_except_mono [OF 3(2)]) (use o in \<open>auto simp: so_touched_def\<close>)
  moreover have "same_except (so_touched mc l) i3 img" by (rule same_except_mono [OF 4(2)]) (use o in \<open>auto simp: so_touched_def\<close>)
  ultimately have same: "same_except (so_touched mc l) img0 img" using same_except_trans by blast
  have win: "so_code_base l \<le> load_at l r" "load_at l r + 10 \<le> so_tramp_base l" if "r \<in> set ?cs" for r
  proof -
    have "so_reloc_ok mc r" "is_code_abs r" using assms(1) that by (auto simp: so_ok_def)
    then have "2 \<le> unat (r_site r)" "unat (r_site r) + 8 \<le> length (mc_code mc)" by (auto simp: so_reloc_ok_def is_code_abs_def)
    then show "so_code_base l \<le> load_at l r" "load_at l r + 10 \<le> so_tramp_base l" using o(3) unfolding load_at_def by linarith+
  qed
  have len1: "64 \<le> so_image_len l" using o by linarith
  have hd: "slice img at n = slice img0 at n" if "at + n \<le> 64" "slice img at n = slice i3 at n" for at n
  proof -
    have e: "{at..<at + n} \<inter> {so_tramp_base l..<so_rx_end l} = {}" "{at..<at + n} \<inter> {so_dynsym_start l..<so_rw_end l} = {}"
      "{at..<at + n} \<inter> (?U \<union> {so_data_at l..<so_dynsym_start l}) = {}"
      using that(1) o win(1) by (fastforce simp: load_window_def)+
    have "slice i1 at n = slice img0 at n" "slice i2 at n = slice i1 at n" "slice i3 at n = slice i2 at n"
      using same_except_slice [OF 1(3) e(1)] same_except_slice [OF 2(2) e(3)] same_except_slice [OF 3(2) e(2)]
        same_except_length [OF 1(3)] 1(4) len2 len1 that(1) by simp_all
    then show ?thesis using that(2) by simp
  qed
  have h: "slice img 32 8 = slice img0 32 8" "slice img 54 2 = slice img0 54 2" "slice img 56 2 = slice img0 56 2"
    by (rule hd; simp add: 4)+
  let ?V = "{so_shoff l..<so_image_len l} \<union> {40..<64}"
  have d: "slice img (so_data_at l) (length (mc_data mc)) = mc_data mc"
  proof -
    let ?D = "{so_data_at l..<so_data_at l + length (mc_data mc)}"
    have e: "?D \<inter> {so_dynsym_start l..<so_rw_end l} = {}" "?D \<inter> ?V = {}" using o by auto
    have "so_data_at l + length (mc_data mc) \<le> so_image_len l" using o by linarith
    then show ?thesis using same_except_slice [OF 3(2) e(1)] same_except_slice [OF 4(2) e(2)] 2(3) len2 len3 by simp
  qed
  have "redirected mc l img (?cs ! k) (so_got_start l + 8 * k)" if "sorted_wrt loads_apart ?cs" "k < count_code_abs64 mc" for k
  proof -
    have k: "?cs ! k \<in> set ?cs" by (rule nth_mem) (use that(2) in \<open>simp add: count_code_abs64_def is_code_abs_def [abs_def]\<close>)
    note wk = win [OF k]
    have b: "load_at l (?cs ! k) + 10 \<le> so_image_len l" "so_got_start l + 8 * k + 8 \<le> so_image_len l" using wk o that(2) by linarith+
    have "redirected mc l i3 (?cs ! k) (so_got_start l + 8 * k)"
      by (rule redirected_kept [OF _ 3(2)]) (use 2(4) that wk o b len2 in \<open>auto simp: load_window_def\<close>)
    then show ?thesis
      by (rule redirected_kept [OF _ 4(2)]) (use that wk o b len3 in \<open>auto simp: load_window_def\<close>)
  qed
  then show ?thesis using w len 1(2) same h d by blast
qed

section \<open>Segments\<close>

definition so_fits64 :: "so_offsets \<Rightarrow> bool" where
  "so_fits64 l \<longleftrightarrow> so_heap_vaddr l + so_heap_memsz l < 2 ^ 64"

lemma so_elf_header_disjoint: "disjoint_writes (so_elf_header l)"
  by (simp add: so_elf_header_def ascii_def)

lemma so_header_read:
  assumes "so_ok ct mc" and l: "l = so_layout vs mc types"
    and p: "put_all (replicate (so_image_len l) 0)
       (so_elf_header l @ so_preamble ct types @ phdrs_writes (so_phdr_at l) (so_phdrs l) @ [(so_code_base l, mc_code mc)]) = Inr img0"
  shows "img64 img0 32 = of_nat (so_phdr_at l)" and "img16 img0 54 = 56" and "img16 img0 56 = 5"
proof -
  note o = so_order [of vs mc types, folded l]
  have ct: "container_ok ct" using assms(1) by (simp add: so_ok_def)
  let ?rest = "so_preamble ct types @ phdrs_writes (so_phdr_at l) (so_phdrs l) @ [(so_code_base l, mc_code mc)]"
  have off: "writes_off a b ?rest" if "b \<le> 64" for a b
    using writes_in_off [OF so_preamble_in [OF ct l], of a b] that o
      writes_in_off [OF phdrs_in [of "so_phdr_at l" "so_phdr_at l" "so_phdrs l" "so_phdr_at l + 280"], of a b] by auto
  have rd: "slice img0 at (length bs) = bs" if "(at, bs) \<in> set (so_elf_header l)" for at bs
  proof -
    have "at + length bs \<le> 64" using so_elf_header_in [of l] that by (auto simp: writes_in_def list_all_iff)
    from put_all_read_disjoint [of _ "[]", simplified, OF p so_elf_header_disjoint that off [OF this]] show ?thesis .
  qed
  have "slice img0 32 (length (le64 (of_nat (so_phdr_at l)))) = le64 (of_nat (so_phdr_at l))" by (rule rd) (simp add: so_elf_header_def)
  then show "img64 img0 32 = of_nat (so_phdr_at l)" by (simp add: img64_def)
  have "slice img0 54 (length (le16 56)) = le16 56" by (rule rd) (simp add: so_elf_header_def)
  then show "img16 img0 54 = 56" by (simp add: img16_def)
  have "slice img0 56 (length (le16 5)) = le16 5" by (rule rd) (simp add: so_elf_header_def)
  then show "img16 img0 56 = 5" by (simp add: img16_def)
qed

lemma so_segments:
  assumes "so_ok ct mc" and l: "l = so_layout vs mc types" and "so_fits64 l"
    and p: "put_all (replicate (so_image_len l) 0)
       (so_elf_header l @ so_preamble ct types @ phdrs_writes (so_phdr_at l) (so_phdrs l) @ [(so_code_base l, mc_code mc)]) = Inr img0"
    and same: "same_except (so_touched mc l) img0 img"
    and hd: "slice img 32 8 = slice img0 32 8" "slice img 54 2 = slice img0 54 2" "slice img 56 2 = slice img0 56 2"
  shows "segments img =
     [\<lparr>sg_flags = 5, sg_off = 0, sg_vaddr = 0, sg_filesz = so_rx_end l, sg_memsz = so_rx_end l\<rparr>,
      \<lparr>sg_flags = 6, sg_off = so_data_at l, sg_vaddr = so_data_at l, sg_filesz = so_rw_end l - so_data_at l, sg_memsz = so_rw_end l - so_data_at l\<rparr>,
      \<lparr>sg_flags = 6, sg_off = 0, sg_vaddr = so_heap_vaddr l, sg_filesz = 0, sg_memsz = so_heap_memsz l\<rparr>]"
proof -
  note o = so_order [of vs mc types, folded l]
  have fits: "so_heap_vaddr l + so_heap_memsz l < 2 ^ 64" using assms(3) by (simp add: so_fits64_def)
  have b: "so_rx_end l < 2 ^ 64" "so_data_at l < 2 ^ 64" "so_rw_end l - so_data_at l < 2 ^ 64" "so_heap_vaddr l < 2 ^ 64" "so_heap_memsz l < 2 ^ 64"
    "so_phdr_at l < 2 ^ 64" "so_dynamic_start l < 2 ^ 64" "so_dynamic_size l < 2 ^ 64"
    using fits o by linarith+
  have h: "img64 img 32 = of_nat (so_phdr_at l)" "img16 img 54 = 56" "img16 img 56 = 5"
    using so_header_read [OF assms(1) l p] hd by (simp_all add: img64_def img16_def)
  have len0: "length img0 = so_image_len l" using put_all_length [OF p] by simp
  have win: "so_code_base l \<le> load_at l r" if "r \<in> set (mc_relocs mc)" "is_code_abs r" for r
    using that assms(1) by (fastforce simp: so_ok_def so_reloc_ok_def load_at_def is_code_abs_def)
  have ph: "slice img (so_phdr_at l + 56 * i) 56 = concat (ph_fields (p_type (so_phdrs l ! i)) (p_flags (so_phdrs l ! i))
      (p_offset (so_phdrs l ! i)) (p_vaddr (so_phdrs l ! i)) (p_filesz (so_phdrs l ! i)) (p_memsz (so_phdrs l ! i)))" if i: "i < 5" for i
  proof -
    have "slice img0 (so_phdr_at l + 56 * i) 56 = concat (ph_fields (p_type (so_phdrs l ! i)) (p_flags (so_phdrs l ! i))
      (p_offset (so_phdrs l ! i)) (p_vaddr (so_phdrs l ! i)) (p_filesz (so_phdrs l ! i)) (p_memsz (so_phdrs l ! i)))"
      using phdrs_writes_read [of _ "so_elf_header l @ so_preamble ct types" "so_phdr_at l" "so_phdrs l" "[(so_code_base l, mc_code mc)]" img0 i] p i o
      by simp
    moreover have "{so_phdr_at l + 56 * i..<so_phdr_at l + 56 * i + 56} \<inter> so_touched mc l = {}"
      using i o win by (fastforce simp: so_touched_def load_window_def)
    ultimately show ?thesis using same_except_slice [OF same, of "so_phdr_at l + 56 * i" 56] i o len0 by simp
  qed
  have n: "[0..<5::nat] = [0, 1, 2, 3, 4]" by (simp add: upt_rec)
  note s = read_segment_fields [OF ph [of 0], unfolded so_phdrs_def] read_segment_fields [OF ph [of 1], unfolded so_phdrs_def]
    read_segment_fields [OF ph [of 2], unfolded so_phdrs_def] read_segment_fields [OF ph [of 3], unfolded so_phdrs_def]
    read_segment_fields [OF ph [of 4], unfolded so_phdrs_def]
  have t: "img32 img (so_phdr_at l) = 1" "img32 img (so_phdr_at l + 56) = 1" "img32 img (so_phdr_at l + 112) = 1"
    "img32 img (so_phdr_at l + 168) = 2" "img32 img (so_phdr_at l + 224) = 0x6474e551"
    using s(1,3,5,7,9) b by (simp_all add: PT_LOAD_def PT_DYNAMIC_def PT_GNU_STACK_def)
  have g: "read_segment img (so_phdr_at l) = \<lparr>sg_flags = 5, sg_off = 0, sg_vaddr = 0, sg_filesz = so_rx_end l, sg_memsz = so_rx_end l\<rparr>"
    "read_segment img (so_phdr_at l + 56) = \<lparr>sg_flags = 6, sg_off = so_data_at l, sg_vaddr = so_data_at l, sg_filesz = so_rw_end l - so_data_at l, sg_memsz = so_rw_end l - so_data_at l\<rparr>"
    "read_segment img (so_phdr_at l + 112) = \<lparr>sg_flags = 6, sg_off = 0, sg_vaddr = so_heap_vaddr l, sg_filesz = 0, sg_memsz = so_heap_memsz l\<rparr>"
    using s(2,4,6) b by (simp_all add: PF_R_def PF_W_def PF_X_def)
  show ?thesis using b(6) by (simp add: segments_def h n t g)
qed

section \<open>Properties\<close>

text \<open>
  C35. A well-formed machine code is always written (the writer neither panics nor fails), and the image is safe to
  map: its three loadable segments ascend without overlap, none is both writable and executable, each is congruent to
  its file offset modulo the page size, its file part lies inside the file at its own address, and the data blob
  stands at the start of the writable segment.
\<close>

theorem shared_library_written:
  assumes "so_ok ct mc" and l: "l = so_layout vs mc types" and "so_nsyms l < 2 ^ 32" and "so_fits64 l"
  shows "\<exists>img. write_shared_library_inner ct vs mc types = Inr img \<and> length img = so_image_len l \<and> length (segments img) = 3 \<and>
    sorted_wrt (\<lambda>s s'. sg_vaddr s + sg_memsz s \<le> sg_vaddr s') (segments img) \<and>
    list_all (\<lambda>s. sg_flags s AND 3 \<noteq> 3 \<and> sg_vaddr s mod PAGE = sg_off s mod PAGE \<and> sg_filesz s \<le> sg_memsz s
      \<and> sg_off s + sg_filesz s \<le> length img \<and> (sg_filesz s = 0 \<or> sg_vaddr s = sg_off s)) (segments img) \<and>
    slice img (sg_off (segments img ! 1)) (length (mc_data mc)) = mc_data mc"
proof -
  note o = so_order [of vs mc types, folded l]
  obtain img img0 where w: "write_shared_library_inner ct vs mc types = Inr img" "length img = so_image_len l"
    "put_all (replicate (so_image_len l) 0)
       (so_elf_header l @ so_preamble ct types @ phdrs_writes (so_phdr_at l) (so_phdrs l) @ [(so_code_base l, mc_code mc)]) = Inr img0"
    "same_except (so_touched mc l) img0 img"
    "slice img 32 8 = slice img0 32 8" "slice img 54 2 = slice img0 54 2" "slice img 56 2 = slice img0 56 2"
    "slice img (so_data_at l) (length (mc_data mc)) = mc_data mc"
    using so_write_ok [OF assms(1) l assms(3)] by blast
  note s = so_segments [OF assms(1) l assms(4) w(3-7)]
  have "PAGE dvd so_data_at l" "PAGE dvd so_heap_vaddr l" unfolding l so_layout_eqs(4,18) by simp_all
  then have m: "so_data_at l mod PAGE = 0" "so_heap_vaddr l mod PAGE = 0" by auto
  have b: "so_data_at l \<le> so_rw_end l" "so_rx_end l \<le> so_image_len l" "so_rw_end l \<le> so_image_len l" using o by linarith+
  show ?thesis using w(1,2,8) o b by (intro exI [of _ img]) (simp add: s m)
qed

lemma sint_diff_small:
  assumes "a < 2 ^ 31" and "b < 2 ^ 31"
  shows "sint (of_nat a - of_nat b :: u64) = int a - int b"
proof -
  have "sint (of_int (int a - int b) :: u64) = signed_take_bit 63 (int a - int b)" by (simp only: signed_of_int) simp
  also have "\<dots> = int a - int b" using assms by (intro signed_take_bit_int_eq_self) auto
  finally show ?thesis by simp
qed


section \<open>A concrete library\<close>

definition sample_load :: reloc where
  "sample_load = \<lparr>r_kind = Abs64, r_section = Code, r_site = 2, r_sym = Sym_String 0\<rparr>"

definition sample_plugin :: machine_code where
  "sample_plugin = empty_mc\<lparr>mc_code := [0x48, 0xBE, 0, 0, 0, 0, 0, 0, 0, 0, 0xC3], mc_data := [0x68, 0x69], mc_fn_bases := [0],
     mc_exports := [(ascii ''f'', 0, 1)], mc_heap_size := 0x2000, mc_relocs := [sample_load]\<rparr>"

lemma sample_plugin_layout:
  fixes vs :: "bytes \<Rightarrow> bytes"
  defines "l \<equiv> so_layout vs sample_plugin None"
  shows "so_nsyms l = 2" and "so_code_base l = 360" and "so_got_start l = 4104" and "so_image_len l < 2 ^ 31" and "so_fits64 l"
    and "count_code_abs64 sample_plugin = 1" and "so_data_at l = 4096"
proof -
  note e = so_layout_eqs [of vs sample_plugin None, folded l_def]
  have f: "mc_code sample_plugin = [0x48, 0xBE, 0, 0, 0, 0, 0, 0, 0, 0, 0xC3]" "mc_data sample_plugin = [0x68, 0x69]"
    "mc_exports sample_plugin = [(ascii ''f'', 0, 1)]" "mc_relocs sample_plugin = [sample_load]" "mc_heap_size sample_plugin = 0x2000"
    "object_syms vs sample_plugin = []" "dep_syms sample_plugin = []" "mc_init_fn sample_plugin = None"
    "trampoline_sizes sample_plugin = [40]"
    by (simp_all add: sample_plugin_def empty_mc_def object_syms_def dep_syms_def trampoline_sizes_def takes_recv_def get_opt_def
        unwrap_or_def trampoline_size_def ascii_def prefix_def)
  then have "dep_hints sample_plugin = []" by (simp add: dep_hints_def)
  note f = f this
  have r: "r_kind sample_load = Abs64" "r_section sample_load = Code" by (simp_all add: sample_load_def)
  show c: "count_code_abs64 sample_plugin = 1" by (simp add: count_code_abs64_def f r)
  show cb: "so_code_base l = 360" by (simp add: e(1,25))
  have tb: "so_tramp_base l = 371" by (simp add: e(2) cb f)
  have rx: "so_rx_end l = 411" by (simp add: e(3) tb f)
  show da: "so_data_at l = 4096" by (simp add: e(4) rx align_up_def div_ceil_def PAGE_def)
  show gs: "so_got_start l = 4104" by (simp add: e(5) da f align_up_def div_ceil_def)
  have rl: "so_rela_start l = 4112" by (simp add: e(6) gs c align_up_def div_ceil_def)
  have nr: "so_nrela l = 1" by (simp add: e(7) c f r)
  show ns: "so_nsyms l = 2" by (simp add: e(8,9) f)
  have dsz: "so_dynsym_size l = 48" "so_dynstr_size l = 3" "so_nbucket l = 2" "so_hash_size l = 24" "so_dynamic_size l = 144"
    by (simp_all add: e(10-12,23,24) ns f ascii_def \<open>dep_hints sample_plugin = []\<close>)
  have ds: "so_dynsym_start l = 4136" by (simp add: e(13) rl nr align_up_def div_ceil_def)
  have dt: "so_dynstr_start l = 4184" by (simp add: e(14) ds dsz align_up_def div_ceil_def)
  have hs: "so_hash_start l = 4192" by (simp add: e(15) dt dsz align_up_def div_ceil_def)
  have dy: "so_dynamic_start l = 4224" by (simp add: e(16) hs dsz align_up_def div_ceil_def)
  have rw: "so_rw_end l = 4368" by (simp add: e(17) dy dsz)
  have "so_heap_vaddr l = 8192" "so_heap_memsz l = 8192" by (simp_all add: e(18,19) rw f align_up_def div_ceil_def PAGE_def)
  then show "so_fits64 l" by (simp add: so_fits64_def)
  have "length so_shstrtab < 1000" by (simp add: so_shstrtab_def section_names_def ascii_def)
  moreover have "so_shoff l = 4368" by (simp add: e(20) rw align_up_def div_ceil_def)
  ultimately show "so_image_len l < 2 ^ 31" by (simp add: e(21,22) SHDR_COUNT_def PAGE_def rw)
qed

lemma sample_plugin_ok: "so_ok sample_container sample_plugin"
  by (simp add: so_ok_def container_ok_def sample_container_def sample_plugin_def empty_mc_def so_reloc_ok_def sample_load_def)

theorem shared_library_written_witness:
  "\<exists>img. write_shared_library_inner sample_container id sample_plugin None = Inr img \<and> length (segments img) = 3
     \<and> slice img (sg_off (segments img ! 1)) 2 = [0x68, 0x69]"
proof -
  have d: "mc_data sample_plugin = [0x68, 0x69]" by (simp add: sample_plugin_def)
  have "so_nsyms (so_layout id sample_plugin None) < 2 ^ 32" by (simp add: sample_plugin_layout(1))
  from shared_library_written [OF sample_plugin_ok refl this sample_plugin_layout(5)] show ?thesis by (auto simp: d numeral_2_eq_2)
qed


end
