(* ===== verification/Shlib_Abi.thy ===== *)
theory Shlib_Abi
  imports Shlib_Correct X86_Laws Select Runtime
begin

text \<open>
  The calling side of a shared object: what the export trampolines do to the registers of a C caller, on the
  processor model, and which register the redirected loads write.
\<close>

section \<open>Trampolines\<close>

lemma shift_params_numeral:
  "shift_params (numeral k) = (let dst = SYSV_REGS ! (pred_numeral k + 1); src = SYSV_REGS ! pred_numeral k
     in [rex_byte True src dst, 0x89, sh_modrm 3 src dst]) @ shift_params (pred_numeral k)"
  by (simp add: numeral_eq_Suc)

lemma not_8_le_1: "\<not> 8 \<le> (1 :: u8)"
  by (simp add: word_le_nat_alt)

lemma shift_params_code:
  "shift_params 1 = [0x48, 0x89, 0xFE]"
  "shift_params 2 = [0x48, 0x89, 0xF2, 0x48, 0x89, 0xFE]"
  "shift_params 3 = [0x48, 0x89, 0xD1, 0x48, 0x89, 0xF2, 0x48, 0x89, 0xFE]"
  "shift_params 4 = [0x49, 0x89, 0xC8, 0x48, 0x89, 0xD1, 0x48, 0x89, 0xF2, 0x48, 0x89, 0xFE]"
  "shift_params 5 = [0x4D, 0x89, 0xC1, 0x49, 0x89, 0xC8, 0x48, 0x89, 0xD1, 0x48, 0x89, 0xF2, 0x48, 0x89, 0xFE]"
  by (simp_all add: shift_params_numeral SYSV_REGS_def rex_byte_def sh_rex_def sh_modrm_def Let_def not_8_le_1)

text \<open>What the parameter moves leave: argument \<open>i\<close> of the caller in argument register \<open>i + 1\<close>, no receiver.\<close>

definition shifted :: "nat \<Rightarrow> mstate \<Rightarrow> mstate \<Rightarrow> bool" where
  "shifted n s s' \<longleftrightarrow> regs s' 7 = 0 \<and> list_all (\<lambda>i. regs s' (SYSV_REGS ! (i + 1)) = regs s (SYSV_REGS ! i)) [0..<n]
     \<and> regs s' 4 = regs s 4 \<and> regs s' 3 = regs s 3 \<and> regs s' 5 = regs s 5 \<and> mem s' = mem s"

lemma upt_small: "[0..<1] = [0 :: nat]" "[0..<2] = [0, 1 :: nat]" "[0..<3] = [0, 1, 2 :: nat]" "[0..<4] = [0, 1, 2, 3 :: nat]"
  "[0..<5] = [0, 1, 2, 3, 4 :: nat]"
  by (simp_all add: upt_rec)

lemma run_shift:
  assumes "n \<le> 5"
  shows "\<exists>s'. walk sys (shift_params n @ [0x31, 0xFF] @ t) (n + 1) (0, s) = Some (3 * n + 2, s') \<and> shifted n s s'"
proof -
  consider "n = 0" | "n = 1" | "n = 2" | "n = 3" | "n = 4" | "n = 5" using assms by linarith
  then show ?thesis
  proof cases
    case 1
    then show ?thesis by (simp add: shifted_def step_def decode_simps exec_simps)
  next
    case 2
    then show ?thesis unfolding shift_params_code 2 by (simp add: shifted_def SYSV_REGS_def upt_small step_def decode_simps exec_simps)
  next
    case 3
    then show ?thesis unfolding shift_params_code 3 by (simp add: shifted_def SYSV_REGS_def upt_small step_def decode_simps exec_simps)
  next
    case 4
    then show ?thesis unfolding shift_params_code 4 by (simp add: shifted_def SYSV_REGS_def upt_small step_def decode_simps exec_simps)
  next
    case 5
    then show ?thesis unfolding shift_params_code 5 by (simp add: shifted_def SYSV_REGS_def upt_small step_def decode_simps exec_simps)
  next
    case 6
    then show ?thesis unfolding shift_params_code 6 by (simp add: shifted_def SYSV_REGS_def upt_small step_def decode_simps exec_simps)
  qed
qed

text \<open>
  C37. A trampoline with a receiver hands a C caller's arguments on: run from its start it moves the first
  \<open>n = min nargs 5\<close> arguments one register up, clears the receiver register, keeps the stack pointer, the saved
  registers rbx and rbp and the memory, and arrives at a call whose displacement reaches the body (within 2 GiB), followed
  by the return; and it fits the slot reserved for it.
\<close>

theorem trampoline_shifts:
  assumes "- (2 ^ 31) \<le> sint (body - (at + of_nat (3 * min nargs 5 + 7)))" and "sint (body - (at + of_nat (3 * min nargs 5 + 7))) < 2 ^ 31"
  shows "\<exists>s' rel. steps sys (build_trampoline nargs at body True) (0, s) (3 * min nargs 5 + 2, s') \<and> shifted (min nargs 5) s s'
    \<and> drop (3 * min nargs 5 + 2) (build_trampoline nargs at body True) = 0xE8 # le32 rel @ [0xC3]
    \<and> at + of_nat (3 * min nargs 5 + 7) + scast rel = body
    \<and> length (build_trampoline nargs at body True) \<le> trampoline_size nargs True"
proof -
  define n where "n = min nargs 5"
  define d where "d = body - (at + of_nat (3 * n + 7))"
  have code: "build_trampoline nargs at body True = shift_params n @ [0x31, 0xFF] @ 0xE8 # le32 (ucast d) @ [0xC3]"
    by (simp add: build_trampoline_def Let_def d_def algebra_simps flip: n_def)
  obtain s' where w: "walk sys (build_trampoline nargs at body True) (n + 1) (0, s) = Some (3 * n + 2, s')" "shifted n s s'"
    using run_shift [of n sys "0xE8 # le32 (ucast d) @ [0xC3]" s] code by (auto simp: n_def)
  have "drop (3 * n + 2) (build_trampoline nargs at body True) = 0xE8 # le32 (ucast d) @ [0xC3]"
    by (simp add: code)
  moreover have "at + of_nat (3 * n + 7) + scast (ucast d :: i32) = body"
    using displacement_reaches [of d] assms by (simp add: d_def flip: n_def)
  ultimately show ?thesis
    using walk_steps [OF w(1)] w(2) trampoline_fits [of nargs at body True] unfolding n_def by blast
qed

theorem trampoline_shifts_witness:
  "\<exists>s'. steps (\<lambda>_. None) (build_trampoline 2 0x1000 0x400 True) (0, machine 0x9000 (\<lambda>_. 0)) (8, s') \<and> shifted 2 (machine 0x9000 (\<lambda>_. 0)) s'"
proof -
  have "sint (0x400 - (0x1000 + of_nat (3 * min 2 5 + 7)) :: u64) = - 0xC0D" by simp
  then show ?thesis using trampoline_shifts [of "0x400" "0x1000" 2 "\<lambda>_. None" "machine 0x9000 (\<lambda>_. 0)"] by auto
qed

section \<open>The register of a redirected load\<close>

text \<open>The register the \<open>movabs\<close> at the start of a code fragment loads, and the one the redirected load writes.\<close>

definition loads_reg :: "bytes \<Rightarrow> u8 \<Rightarrow> bool" where
  "loads_reg bs r \<longleftrightarrow> (\<exists>v. decode_x86 bs = Some (MovImm (Reg r) v, 10))"

definition redirected_register :: "bytes \<Rightarrow> nat" where
  "redirected_register bs = unat (drop_bit 3 (bs ! 2) AND 7) + (if bs ! 0 AND 4 \<noteq> 0 then 8 else 0)"

definition emitted :: "(emitter \<Rightarrow> emitter) \<Rightarrow> emitter \<Rightarrow> bytes" where
  "emitted f e = drop (length (e_code e)) (e_code (f e))"

lemma emit_code [simp]: "e_code (emit b e) = e_code e @ b"
  by (simp add: emit_def)

lemma store_extends: "\<exists>t. e_code (store_slot k r e) = e_code e @ t"
proof -
  obtain m d where "slot_addr k (r AND 7) = (m, d)" by (cases "slot_addr k (r AND 7)")
  then show ?thesis by (cases d) (simp_all add: store_slot_def imm32_def)
qed

lemma put_extends: "\<exists>t. e_code (put r dl e) = e_code e @ t"
  by (cases dl) (simp_all add: mov_rr_def store_extends)

lemma window_code: "e_code (abs64_window op s e) = e_code e @ [0x48, 0xB8 OR (op AND 7)] @ le64 0"
  by (simp add: abs64_window_def Let_def imm64_def rex_def)

lemma window_put_loads:
  assumes "f e = put RCX dl (abs64_window 0xB9 s e)"
  shows "loads_reg (emitted f e) 1"
proof -
  obtain t where "e_code (f e) = e_code (abs64_window 0xB9 s e) @ t" using put_extends [of RCX dl "abs64_window 0xB9 s e"] assms by auto
  then have "emitted f e = 0x48 # 0xB9 # le64 0 @ t" by (simp add: emitted_def window_code)
  then show ?thesis by (simp add: loads_reg_def decode_simps)
qed

lemma redirected_register_got:
  "reg \<le> 8 \<Longrightarrow> redirected_register (concat (got_load_bytes cb site reg v)) = reg"
proof -
  assume "reg \<le> 8"
  then have "reg = 0 \<or> reg = 1 \<or> reg = 2 \<or> reg = 3 \<or> reg = 4 \<or> reg = 5 \<or> reg = 6 \<or> reg = 7 \<or> reg = 8" by linarith
  then show ?thesis by (auto simp: redirected_register_def got_load_bytes_def Let_def)
qed

text \<open>
  C38. The redirection does not keep the destination register for every reference: a string address and a
  function address are loaded into rcx, and the allocator and the releaser load the heap base into r10, but in a shared
  object the redirected instruction loads rsi, rax and rcx instead, so the code behind it reads a register that
  was never set; and the slot of a function address has no value at all.
\<close>

theorem redirect_changes_register:
  "loads_reg (emitted (emit_str_addr dl off) e) 1
   \<and> redirected_register (concat (got_load_bytes cb site (got_register (Sym_String s)) slot)) = 6
   \<and> loads_reg (emitted (emit_fn_addr dl i) e) 1
   \<and> redirected_register (concat (got_load_bytes cb site (got_register (Sym_Fn f)) slot)) = 0
   \<and> final_value mc l \<lparr>r_kind = Abs64, r_section = Code, r_site = st, r_sym = Sym_Fn f\<rparr> = Inr None
   \<and> loads_reg (drop (ALLOC_REVISED_HEAPBASE_OFFSET - 2) ALLOC_REVISED) 10
   \<and> loads_reg (drop (RELEASE_HEAPBASE_OFFSET - 2) RELEASE) 10
   \<and> redirected_register (concat (got_load_bytes cb site (got_register Sym_HeapBase) slot)) = 1"
proof (intro conjI)
  show "loads_reg (emitted (emit_str_addr dl off) e) 1" by (rule window_put_loads) (simp add: emit_str_addr_def)
  show "loads_reg (emitted (emit_fn_addr dl i) e) 1" by (rule window_put_loads) (simp add: emit_fn_addr_def)
  show "loads_reg (drop (ALLOC_REVISED_HEAPBASE_OFFSET - 2) ALLOC_REVISED) 10"
    by (simp add: loads_reg_def ALLOC_REVISED_HEAPBASE_OFFSET_def ALLOC_REVISED_def decode_simps)
  show "loads_reg (drop (RELEASE_HEAPBASE_OFFSET - 2) RELEASE) 10"
    by (simp add: loads_reg_def RELEASE_HEAPBASE_OFFSET_def RELEASE_def decode_simps)
qed (simp_all add: redirected_register_got got_register_def final_value_def)

end
