(* ===== verification/Plugin.thy ===== *)
theory Plugin
  imports Mc_Serialize Lower Elf_Writer Shlib_Write Memory_Pages
begin

text \<open>
  \<open>src/lib.rs\<close>: the entry points of the plugin, and the in-memory execution of machine code. The reader of
  the intermediate representation (\<open>ir::decode_program\<close>), \<open>MachineCode::relocate\<close>, the two constructors of
  \<open>PluginBytes\<close>, the version string of the package and the texts of the operating system's errors belong to other
  crates and are parameters; so are the kernel and the effect of calling the generated code. A C pointer and length are
  the bytes they denote. Sizes are 64-bit and wrap, as in a release build.
\<close>

section \<open>The target\<close>

definition backend_name :: bytes where "backend_name = ascii ''linux_x86_64''"
definition backend_triple :: bytes where "backend_triple = ascii ''x86_64-unknown-linux-gnu''"

record extension_metadata =
  em_name :: bytes
  em_display_name :: bytes
  em_author :: bytes
  em_version :: bytes
  em_description :: bytes
  em_license :: bytes
  em_homepage :: bytes
  em_repository :: bytes

definition metadata :: "bytes \<Rightarrow> extension_metadata" where
  "metadata version = \<lparr>em_name = ascii ''linux_x86_64'', em_display_name = ascii ''Linux x86-64'',
     em_author = ascii ''RubyC contributors'', em_version = version,
     em_description = ascii ''Static ELF and JIT target adapter'', em_license = ascii ''MIT'', em_homepage = [], em_repository = []\<rparr>"

definition backend_lower :: "bytes \<Rightarrow> bytes res" where
  "backend_lower program = Inl (Fault ''delegated to core pipeline'')"

definition backend_write_image :: "bytes \<Rightarrow> bool \<Rightarrow> bytes res" where
  "backend_write_image mc entry_preamble = Inl (Fault ''delegated to core pipeline'')"

definition rbxt_name :: bytes where "rbxt_name = ascii ''linux_x86_64'' @ [0]"
definition rbxt_triple :: bytes where "rbxt_triple = ascii ''x86_64-unknown-linux-gnu'' @ [0]"
definition rbxt_base_addr :: u64 where "rbxt_base_addr = 0"

section \<open>Compilation entry points\<close>

definition lower_target :: "(bytes \<Rightarrow> string + program) \<Rightarrow> (bytes \<Rightarrow> bytes \<Rightarrow> bytes) \<Rightarrow> bool \<Rightarrow> bytes \<Rightarrow> bytes res" where
  "lower_target decode_program static_symbol norelease ir =
     (case decode_program ir of Inl e \<Rightarrow> Inl (Fault (''IR decode: '' @ e))
      | Inr program \<Rightarrow> bindr (lower static_symbol norelease program) (\<lambda>mc. Inr (encode mc)))"

definition write_image_target :: "container \<Rightarrow> bytes \<Rightarrow> bool \<Rightarrow> bytes res" where
  "write_image_target ct mc entry_preamble = bindr (decode mc) (\<lambda>code. write_image ct code entry_preamble)"

definition write_shared_target :: "container \<Rightarrow> (bytes \<Rightarrow> bytes) \<Rightarrow> bytes \<Rightarrow> bytes res" where
  "write_shared_target ct vtable_symbol mc = bindr (decode mc) (\<lambda>code. write_shared_library ct vtable_symbol code)"

text \<open>Success and error become the two forms of \<open>PluginBytes\<close>; a panic stays one.\<close>

definition plugin_bytes :: "(bytes \<Rightarrow> 'p) \<Rightarrow> (string \<Rightarrow> 'p) \<Rightarrow> bytes res \<Rightarrow> 'p res" where
  "plugin_bytes success err r = (case r of Inr b \<Rightarrow> Inr (success b) | Inl (Fault msg) \<Rightarrow> Inr (err msg) | Inl f \<Rightarrow> Inl f)"

definition rbxt_lower where
  "rbxt_lower success err decode_program static_symbol norelease ir =
     plugin_bytes success err (lower_target decode_program static_symbol norelease ir)"

definition rbxt_write_image where
  "rbxt_write_image success err ct mc entry_preamble = plugin_bytes success err (write_image_target ct mc ((entry_preamble :: u8) \<noteq> 0))"

definition rbxt_write_shared where
  "rbxt_write_shared success err ct vtable_symbol mc = plugin_bytes success err (write_shared_target ct vtable_symbol mc)"

section \<open>Execution in memory\<close>

text \<open>What the run does to the process: system calls with their results, stores, the call of the entry.\<close>

datatype jit_action = Act_Sys u64 "u64 list" u64 | Act_Store u64 bytes | Act_Call u64

definition page_round :: "nat \<Rightarrow> usize" where
  "page_round n = of_nat (align_up n PAGE)"

definition jit_stores :: "machine_code \<Rightarrow> u64 \<Rightarrow> u64 \<Rightarrow> u64 \<Rightarrow> usize \<Rightarrow> jit_action list" where
  "jit_stores code page data_base heap_base heap_r =
     [Act_Store page (mc_code code), Act_Store data_base (mc_data code)] @
     (if 0 < heap_r then [Act_Store heap_base (le64 0), Act_Store (heap_base + 8) (le64 (heap_base + 4096))] else [])"

text \<open>The actions and the result; \<open>invoke a\<close> is the status the code at \<open>a\<close> returns.\<close>

definition run_machine_code ::
  "kernel_fn \<Rightarrow> (machine_code \<Rightarrow> u64 \<Rightarrow> u64 \<Rightarrow> u64 \<Rightarrow> machine_code) \<Rightarrow> (u64 \<Rightarrow> i32) \<Rightarrow> (u32 \<Rightarrow> string) \<Rightarrow> bytes \<Rightarrow> jit_action list \<times> i32 res" where
  "run_machine_code sys relocate invoke os_error bs =
     (case decode bs of Inl f \<Rightarrow> ([], Inl f)
      | Inr code0 \<Rightarrow>
     (let code_r = page_round (length (mc_code code0));
          data_r = page_round (length (mc_data code0));
          heap_r = page_round (unat (mc_heap_size code0));
          total = code_r + data_r + heap_r;
          act_map = Act_Sys SYS_MMAP (mmap_args total) (syscall6_mmap sys total)
      in case map_rw sys total of Inl e \<Rightarrow> ([act_map], Inl (Fault (''mmap: '' @ os_error e)))
      | Inr page \<Rightarrow>
     (let data_base = page + code_r;
          heap_base = page + (code_r + data_r);
          code = relocate code0 page data_base heap_base;
          stores = jit_stores code page data_base heap_base heap_r;
          protect_args = [page, code_r, PROT_READ OR PROT_EXEC];
          act_protect = Act_Sys SYS_MPROTECT protect_args (sys SYS_MPROTECT protect_args)
      in case protect_exec sys page code_r of
           Inl e \<Rightarrow> ([act_map] @ stores @ [act_protect], Inl (Fault (''mprotect: '' @ os_error e)))
         | Inr _ \<Rightarrow>
             ([act_map] @ stores @ [act_protect, Act_Call page, Act_Sys SYS_MUNMAP [page, total, 0] (sys SYS_MUNMAP [page, total, 0])],
              Inr (invoke page)))))"

definition rbxt_run where
  "rbxt_run sys relocate invoke os_error bs =
     (case run_machine_code sys relocate invoke os_error bs of (acts, r) \<Rightarrow>
        (acts, case r of Inr status \<Rightarrow> Inr status | Inl (Fault msg) \<Rightarrow> Inr (1 :: i32) | Inl f \<Rightarrow> Inl f))"

end
