(* ===== verification/Plugin_Correct.thy ===== *)
theory Plugin_Correct
  imports Plugin Allocator
begin

text \<open>
  The in-memory execution on a model of page protection: no page is ever writable and executable, every
  store and the call are allowed, and the code starts in the memory the other components expect.
\<close>

section \<open>Pages\<close>

record pages =
  pg_w :: "u64 set"
  pg_x :: "u64 set"
  pg_mem :: "u64 \<Rightarrow> u8"

definition region :: "u64 \<Rightarrow> usize \<Rightarrow> u64 set" where
  "region a n = {x. x - a < n}"

text \<open>The protection bits of a call decide whether the region is in the set.\<close>

definition set_prot :: "u64 \<Rightarrow> u64 \<Rightarrow> u64 set \<Rightarrow> u64 set \<Rightarrow> u64 set" where
  "set_prot prot bit_mask R S = (if prot AND bit_mask \<noteq> 0 then S \<union> R else S - R)"

text \<open>
  What an action does to the pages, \<open>None\<close> when the processor faults. Failed calls change nothing; a mapping is
  zero-filled and fresh, a store needs writable memory, a call executable memory.
\<close>

definition act :: "jit_action \<Rightarrow> pages \<Rightarrow> pages option" where
  "act a p = (case a of
     Act_Sys nr args ret \<Rightarrow> (case check ret of Inl e \<Rightarrow> Some p | Inr base \<Rightarrow>
       if nr = SYS_MMAP then
         (let R = region base (args ! 1) in
          if R \<inter> (pg_w p \<union> pg_x p) = {} then
            Some \<lparr>pg_w = set_prot (args ! 2) PROT_WRITE R (pg_w p), pg_x = set_prot (args ! 2) PROT_EXEC R (pg_x p),
              pg_mem = (\<lambda>x. if x \<in> R then 0 else pg_mem p x)\<rparr> else None)
       else if nr = SYS_MPROTECT then
         (let R = region (args ! 0) (args ! 1) in
          Some (p\<lparr>pg_w := set_prot (args ! 2) PROT_WRITE R (pg_w p), pg_x := set_prot (args ! 2) PROT_EXEC R (pg_x p)\<rparr>))
       else if nr = SYS_MUNMAP then
         (let R = region (args ! 0) (args ! 1) in Some (p\<lparr>pg_w := pg_w p - R, pg_x := pg_x p - R\<rparr>))
       else Some p)
   | Act_Store a0 bs \<Rightarrow> if \<forall>x. x - a0 < of_nat (length bs) \<longrightarrow> x \<in> pg_w p then Some (p\<lparr>pg_mem := st_bytes (pg_mem p) a0 bs\<rparr>) else None
   | Act_Call a0 \<Rightarrow> if a0 \<in> pg_x p then Some p else None)"

fun acts :: "jit_action list \<Rightarrow> pages \<Rightarrow> pages option" where
  "acts [] p = Some p"
| "acts (a # as) p = (case act a p of None \<Rightarrow> None | Some p' \<Rightarrow> acts as p')"

lemma acts_append: "acts (as @ bs) p = (case acts as p of None \<Rightarrow> None | Some p' \<Rightarrow> acts bs p')"
  by (induction as arbitrary: p) (auto split: option.splits)

section \<open>Write and execute stay apart\<close>

definition wx :: "pages \<Rightarrow> bool" where
  "wx p \<longleftrightarrow> pg_w p \<inter> pg_x p = {}"

text \<open>A system call that does not ask for both rights at once.\<close>

definition one_right :: "jit_action \<Rightarrow> bool" where
  "one_right a = (case a of Act_Sys nr args ret \<Rightarrow> nr = SYS_MUNMAP \<or> args ! 2 AND PROT_WRITE = 0 \<or> args ! 2 AND PROT_EXEC = 0 | _ \<Rightarrow> True)"

lemma act_wx: "act a p = Some p' \<Longrightarrow> wx p \<Longrightarrow> one_right a \<Longrightarrow> wx p'"
  by (auto simp: act_def wx_def one_right_def set_prot_def Let_def SYS_MMAP_def SYS_MPROTECT_def SYS_MUNMAP_def
      split: jit_action.splits sum.splits if_splits)

lemma acts_wx: "acts as p = Some p' \<Longrightarrow> wx p \<Longrightarrow> list_all one_right as \<Longrightarrow> wx p'"
  by (induction as arbitrary: p) (auto split: option.splits dest: act_wx)

lemma jit_one_right: "run_machine_code sys relocate invoke os_error bs = (as, r) \<Longrightarrow> list_all one_right as"
  by (auto simp: run_machine_code_def Let_def one_right_def jit_stores_def mmap_args_def PROT_WRITE_def PROT_EXEC_def PROT_READ_def
      split: sum.splits)

section \<open>The memory of a run\<close>

lemma region_sub:
  assumes "x \<in> region (a + of_nat i) (of_nat n)" and "i + n \<le> t" and "t < 2 ^ 64"
  shows "x \<in> region a (of_nat t)"
proof -
  define y where "y = x - (a + of_nat i)"
  have y: "unat y < n" using assms by (simp add: region_def y_def word_less_nat_alt)
  have "x - a = y + of_nat i" by (simp add: y_def)
  then have "unat (x - a) = unat y + i" using y assms(2,3) by (simp add: unat_add64)
  then show ?thesis using y assms(2,3) by (simp add: region_def word_less_nat_alt)
qed

text \<open>The sizes of a run as numbers.\<close>

definition jit_code_r :: "machine_code \<Rightarrow> nat" where "jit_code_r c = align_up (length (mc_code c)) PAGE"
definition jit_data_r :: "machine_code \<Rightarrow> nat" where "jit_data_r c = align_up (length (mc_data c)) PAGE"
definition jit_heap_r :: "machine_code \<Rightarrow> nat" where "jit_heap_r c = align_up (unat (mc_heap_size c)) PAGE"
definition jit_total :: "machine_code \<Rightarrow> nat" where "jit_total c = jit_code_r c + jit_data_r c + jit_heap_r c"

definition jit_fits :: "machine_code \<Rightarrow> bool" where
  "jit_fits c \<longleftrightarrow> length (mc_code c) + length (mc_data c) + unat (mc_heap_size c) < 2 ^ 62"

lemma jit_sizes:
  assumes "jit_fits c"
  shows "length (mc_code c) \<le> jit_code_r c" and "length (mc_data c) \<le> jit_data_r c" and "unat (mc_heap_size c) \<le> jit_heap_r c"
    and "jit_total c < 2 ^ 63" and "jit_heap_r c \<noteq> 0 \<Longrightarrow> 4096 \<le> jit_heap_r c" and "PAGE dvd jit_code_r c" and "PAGE dvd jit_data_r c"
proof -
  show "length (mc_code c) \<le> jit_code_r c" "length (mc_data c) \<le> jit_data_r c" "unat (mc_heap_size c) \<le> jit_heap_r c"
    by (simp_all add: jit_code_r_def jit_data_r_def jit_heap_r_def align_up_ge)
  have "align_up v PAGE < v + 4096" for v using align_up_less [of PAGE v] by (simp add: PAGE_def)
  then have "jit_code_r c < length (mc_code c) + 4096" "jit_data_r c < length (mc_data c) + 4096" "jit_heap_r c < unat (mc_heap_size c) + 4096"
    by (simp_all add: jit_code_r_def jit_data_r_def jit_heap_r_def)
  then show "jit_total c < 2 ^ 63" using assms unfolding jit_fits_def jit_total_def by simp
  show "4096 \<le> jit_heap_r c" if "jit_heap_r c \<noteq> 0"
  proof -
    have "PAGE dvd jit_heap_r c" by (simp add: jit_heap_r_def)
    then show ?thesis using that dvd_imp_le [of PAGE "jit_heap_r c"] by (simp add: PAGE_def)
  qed
  show "PAGE dvd jit_code_r c" "PAGE dvd jit_data_r c" by (simp_all add: jit_code_r_def jit_data_r_def)
qed

text \<open>\<open>relocate\<close> patches in place.\<close>

definition relocates_in_place :: "(machine_code \<Rightarrow> u64 \<Rightarrow> u64 \<Rightarrow> u64 \<Rightarrow> machine_code) \<Rightarrow> bool" where
  "relocates_in_place relocate \<longleftrightarrow> (\<forall>c a b d. length (mc_code (relocate c a b d)) = length (mc_code c) \<and> length (mc_data (relocate c a b d)) = length (mc_data c))"

text \<open>What the kernel guarantees of a successful anonymous mapping: page-aligned, in the lower half of the address
  space, and fresh.\<close>

definition mapping_ok :: "pages \<Rightarrow> u64 \<Rightarrow> nat \<Rightarrow> bool" where
  "mapping_ok p page n \<longleftrightarrow> PAGE dvd unat page \<and> unat page + n \<le> 2 ^ 63 \<and> region page (of_nat n) \<inter> (pg_w p \<union> pg_x p) = {}"

text \<open>The pages after the mapping and after the stores.\<close>

definition mapped_pages :: "pages \<Rightarrow> u64 \<Rightarrow> nat \<Rightarrow> pages" where
  "mapped_pages p page n = \<lparr>pg_w = pg_w p \<union> region page (of_nat n), pg_x = pg_x p - region page (of_nat n),
     pg_mem = (\<lambda>x. if x \<in> region page (of_nat n) then 0 else pg_mem p x)\<rparr>"

lemma act_map:
  assumes "mapping_ok p page n" and "check ret = Inr page"
  shows "act (Act_Sys SYS_MMAP (mmap_args (of_nat n)) ret) p = Some (mapped_pages p page n)"
  using assms by (simp add: act_def mapping_ok_def mapped_pages_def mmap_args_def set_prot_def PROT_WRITE_def PROT_EXEC_def Let_def)

text \<open>A store into a part of the writable mapping.\<close>

lemma act_store:
  assumes "region page (of_nat t) \<subseteq> pg_w p" and "i + length bs \<le> t" and "t < 2 ^ 64"
  shows "act (Act_Store (page + of_nat i) bs) p = Some (p\<lparr>pg_mem := st_bytes (pg_mem p) (page + of_nat i) bs\<rparr>)"
proof -
  have "x \<in> pg_w p" if "x - (page + of_nat i) < of_nat (length bs)" for x
    using region_sub [of x page i "length bs" t] that assms by (auto simp: region_def)
  then show ?thesis by (simp add: act_def)
qed

definition stored_mem :: "machine_code \<Rightarrow> machine_code \<Rightarrow> u64 \<Rightarrow> (u64 \<Rightarrow> u8) \<Rightarrow> u64 \<Rightarrow> u8" where
  "stored_mem c0 c page m =
     (let m1 = st_bytes m page (mc_code c);
          m2 = st_bytes m1 (page + of_nat (jit_code_r c0)) (mc_data c);
          hb = page + of_nat (jit_code_r c0 + jit_data_r c0)
      in if jit_heap_r c0 = 0 then m2 else st_bytes (st_bytes m2 hb (le64 0)) (hb + 8) (le64 (hb + 4096)))"

lemma acts_stores:
  assumes "jit_fits c0" and "length (mc_code c) = length (mc_code c0)" and "length (mc_data c) = length (mc_data c0)"
    and "region page (of_nat (jit_total c0)) \<subseteq> pg_w p"
  shows "acts (jit_stores c page (page + of_nat (jit_code_r c0)) (page + of_nat (jit_code_r c0 + jit_data_r c0)) (of_nat (jit_heap_r c0))) p
    = Some (p\<lparr>pg_mem := stored_mem c0 c page (pg_mem p)\<rparr>)"
proof -
  note s = jit_sizes [OF assms(1)]
  let ?t = "jit_total c0"
  have t: "?t < 2 ^ 64" "jit_heap_r c0 < 2 ^ 64" using s(4) by (simp_all add: jit_total_def)
  have hr: "0 < (of_nat (jit_heap_r c0) :: u64) \<longleftrightarrow> jit_heap_r c0 \<noteq> 0"
    using t(2) by (simp add: word_less_nat_alt)
  have st: "act (Act_Store (page + of_nat i) bs) q = Some (q\<lparr>pg_mem := st_bytes (pg_mem q) (page + of_nat i) bs\<rparr>)"
    if "pg_w q = pg_w p" "i + length bs \<le> ?t" for i bs q
    using act_store [of page ?t q i bs] that assms(4) t(1) by simp
  have a1: "act (Act_Store page (mc_code c)) q = Some (q\<lparr>pg_mem := st_bytes (pg_mem q) page (mc_code c)\<rparr>)" if "pg_w q = pg_w p" for q
    using st [OF that, of 0 "mc_code c"] s(1) assms(2) by (simp add: jit_total_def)
  have a2: "act (Act_Store (page + of_nat (jit_code_r c0)) (mc_data c)) q = Some (q\<lparr>pg_mem := st_bytes (pg_mem q) (page + of_nat (jit_code_r c0)) (mc_data c)\<rparr>)"
    if "pg_w q = pg_w p" for q
    using st [OF that, of "jit_code_r c0" "mc_data c"] s(2) assms(3) by (simp add: jit_total_def)
  let ?hb = "page + of_nat (jit_code_r c0 + jit_data_r c0)"
  have a3: "act (Act_Store ?hb (le64 v)) q = Some (q\<lparr>pg_mem := st_bytes (pg_mem q) ?hb (le64 v)\<rparr>)" if "pg_w q = pg_w p" "jit_heap_r c0 \<noteq> 0" for q v
    using st [OF that(1), of "jit_code_r c0 + jit_data_r c0" "le64 v"] s(5) that(2) by (simp add: jit_total_def)
  have e: "page + of_nat (jit_code_r c0 + jit_data_r c0 + 8) = ?hb + 8" by simp
  have a4: "act (Act_Store (?hb + 8) (le64 v)) q = Some (q\<lparr>pg_mem := st_bytes (pg_mem q) (?hb + 8) (le64 v)\<rparr>)" if "pg_w q = pg_w p" "jit_heap_r c0 \<noteq> 0" for q v
    using st [OF that(1), of "jit_code_r c0 + jit_data_r c0 + 8" "le64 v"] s(5) that(2) unfolding e by (simp add: jit_total_def)
  show ?thesis
    using hr a1 a2 a3 a4 by (simp add: jit_stores_def stored_mem_def Let_def del: of_nat_add)
qed

lemma offsets_differ: "i \<noteq> j \<Longrightarrow> i < 2 ^ 63 \<Longrightarrow> j < 2 ^ 63 \<Longrightarrow> (page :: u64) + of_nat i \<noteq> page + of_nat j"
proof
  assume a: "i \<noteq> j" "i < 2 ^ 63" "j < 2 ^ 63" "page + of_nat i = page + of_nat j"
  then have "unat (of_nat i :: u64) = unat (of_nat j :: u64)" by simp
  then show False using a(1-3) by simp
qed

text \<open>A byte outside a store at an offset.\<close>

lemma st_bytes_off:
  assumes "i < j \<or> j + length bs \<le> i" and "i < 2 ^ 63" and "j + length bs \<le> 2 ^ 63"
  shows "st_bytes m (page + of_nat j) bs (page + of_nat i) = m (page + of_nat i)"
proof (rule st_bytes_other)
  fix k assume "k < length bs"
  then show "page + of_nat i \<noteq> page + of_nat j + of_nat k"
    using offsets_differ [of i "j + k" page] assms by (auto simp: add.assoc)
qed

lemma stored_code:
  assumes "jit_fits c0" and "length (mc_code c) = length (mc_code c0)" and "length (mc_data c) = length (mc_data c0)"
    and i: "i < length (mc_code c)"
  shows "stored_mem c0 c page m (page + of_nat i) = mc_code c ! i"
proof -
  note s = jit_sizes [OF assms(1)]
  let ?d = "jit_code_r c0" and ?h = "jit_code_r c0 + jit_data_r c0"
  have b: "i < ?d" "length (mc_code c) \<le> 2 ^ 63" "?d + length (mc_data c) \<le> 2 ^ 63" "i < 2 ^ 63"
    "jit_heap_r c0 \<noteq> 0 \<Longrightarrow> ?h + 16 \<le> 2 ^ 63"
    using s assms i unfolding jit_total_def by linarith+
  have 1: "st_bytes m page (mc_code c) (page + of_nat i) = mc_code c ! i" by (rule st_bytes_nth [OF i b(2)])
  have 2: "st_bytes m1 (page + of_nat ?d) (mc_data c) (page + of_nat i) = m1 (page + of_nat i)" for m1
    by (rule st_bytes_off) (use b in auto)
  have e: "page + of_nat (?h + 8) = page + of_nat ?h + 8" by simp
  have 3: "st_bytes (st_bytes m2 (page + of_nat ?h) (le64 v)) (page + of_nat ?h + 8) (le64 w) (page + of_nat i) = m2 (page + of_nat i)"
    if "jit_heap_r c0 \<noteq> 0" for m2 v w
    unfolding e [symmetric] using st_bytes_off [of i "?h + 8" "le64 w" _ page] st_bytes_off [of i "?h" "le64 v" m2 page] b(5) [OF that] b(1,4)
    by (simp del: of_nat_add)
  show ?thesis using 1 2 3 by (simp add: stored_mem_def Let_def del: of_nat_add)
qed

lemma stored_data:
  assumes "jit_fits c0" and "length (mc_code c) = length (mc_code c0)" and "length (mc_data c) = length (mc_data c0)"
    and i: "i < length (mc_data c)"
  shows "stored_mem c0 c page m (page + of_nat (jit_code_r c0) + of_nat i) = mc_data c ! i"
proof -
  note s = jit_sizes [OF assms(1)]
  let ?d = "jit_code_r c0" and ?h = "jit_code_r c0 + jit_data_r c0"
  have b: "?d + i < ?h" "length (mc_data c) \<le> 2 ^ 63" "?d + i < 2 ^ 63" "jit_heap_r c0 \<noteq> 0 \<Longrightarrow> ?h + 16 \<le> 2 ^ 63"
    using s assms i unfolding jit_total_def by linarith+
  have a: "page + of_nat ?d + of_nat i = page + of_nat (?d + i)" by simp
  have 1: "st_bytes m1 (page + of_nat ?d) (mc_data c) (page + of_nat ?d + of_nat i) = mc_data c ! i" for m1
    by (rule st_bytes_nth [OF i b(2)])
  have e: "page + of_nat (?h + 8) = page + of_nat ?h + 8" by simp
  have 3: "st_bytes (st_bytes m2 (page + of_nat ?h) (le64 v)) (page + of_nat ?h + 8) (le64 w) (page + of_nat (?d + i)) = m2 (page + of_nat (?d + i))"
    if "jit_heap_r c0 \<noteq> 0" for m2 v w
    unfolding e [symmetric] using st_bytes_off [of "?d + i" "?h + 8" "le64 w" _ page] st_bytes_off [of "?d + i" "?h" "le64 v" m2 page] b(4) [OF that] b(1,3)
    by (simp del: of_nat_add)
  show ?thesis using 1 3 by (simp add: stored_mem_def Let_def a [symmetric] del: of_nat_add)
qed

lemma stored_heap:
  assumes "jit_heap_r c0 \<noteq> 0" and "hb = page + of_nat (jit_code_r c0 + jit_data_r c0)"
  shows "ld64 (stored_mem c0 c page m) hb = 0" and "ld64 (stored_mem c0 c page m) (hb + 8) = hb + 4096"
proof -
  have "apart8 (hb + 8) hb" by (simp add: apart8_def)
  then show "ld64 (stored_mem c0 c page m) hb = 0" "ld64 (stored_mem c0 c page m) (hb + 8) = hb + 4096"
    using assms ld64_st64_apart [of "hb + 8" hb] by (simp_all add: stored_mem_def Let_def flip: st64_def)
qed

section \<open>The run\<close>

lemma run_shape:
  assumes "decode bs = Inr c0" and fits: "jit_fits c0" and m: "map_rw sys (of_nat (jit_total c0)) = Inr page"
    and hb: "hb = page + of_nat (jit_code_r c0 + jit_data_r c0)" and c: "c = relocate c0 page (page + of_nat (jit_code_r c0)) hb"
  shows "\<exists>ret tl. fst (run_machine_code sys relocate invoke os_error bs) =
      Act_Sys SYS_MMAP (mmap_args (of_nat (jit_total c0))) (syscall6_mmap sys (of_nat (jit_total c0))) #
      jit_stores c page (page + of_nat (jit_code_r c0)) hb (of_nat (jit_heap_r c0)) @
      Act_Sys SYS_MPROTECT [page, of_nat (jit_code_r c0), PROT_READ OR PROT_EXEC] ret # tl
    \<and> ret = sys SYS_MPROTECT [page, of_nat (jit_code_r c0), PROT_READ OR PROT_EXEC]
    \<and> (case protect_exec sys page (of_nat (jit_code_r c0)) of
         Inl e \<Rightarrow> tl = [] \<and> snd (run_machine_code sys relocate invoke os_error bs) = Inl (Fault (''mprotect: '' @ os_error e))
       | Inr _ \<Rightarrow> tl = [Act_Call page, Act_Sys SYS_MUNMAP [page, of_nat (jit_total c0), 0] (sys SYS_MUNMAP [page, of_nat (jit_total c0), 0])]
           \<and> snd (run_machine_code sys relocate invoke os_error bs) = Inr (invoke page))"
  using assms(1) m
  by (auto simp: run_machine_code_def Let_def page_round_def jit_total_def jit_code_r_def jit_data_r_def jit_heap_r_def hb c add.assoc
      split: sum.splits)

text \<open>The state after the stores and a successful protection change.\<close>

definition protected_pages :: "pages \<Rightarrow> machine_code \<Rightarrow> machine_code \<Rightarrow> u64 \<Rightarrow> pages" where
  "protected_pages p c0 c page =
     (let q = mapped_pages p page (jit_total c0); R = region page (of_nat (jit_code_r c0))
      in \<lparr>pg_w = pg_w q - R, pg_x = pg_x q \<union> R, pg_mem = stored_mem c0 c page (pg_mem q)\<rparr>)"

lemma acts_until_call:
  assumes "jit_fits c0" and "relocates_in_place relocate" and "mapping_ok p page (jit_total c0)"
    and "check mret = Inr page" and "check pret = Inr u" and "c = relocate c0 a b d"
  shows "acts (Act_Sys SYS_MMAP (mmap_args (of_nat (jit_total c0))) mret #
      jit_stores c page (page + of_nat (jit_code_r c0)) (page + of_nat (jit_code_r c0 + jit_data_r c0)) (of_nat (jit_heap_r c0)) @
      [Act_Sys SYS_MPROTECT [page, of_nat (jit_code_r c0), PROT_READ OR PROT_EXEC] pret]) p
    = Some (protected_pages p c0 c page)"
proof -
  have len: "length (mc_code c) = length (mc_code c0)" "length (mc_data c) = length (mc_data c0)"
    using assms(2,6) by (simp_all add: relocates_in_place_def)
  have "region page (of_nat (jit_total c0)) \<subseteq> pg_w (mapped_pages p page (jit_total c0))" by (auto simp: mapped_pages_def)
  from acts_stores [OF assms(1) len this]
  show ?thesis
    by (simp add: acts_append act_map [OF assms(3,4)] del: of_nat_add)
      (simp add: act_def assms(5) SYS_MPROTECT_def SYS_MMAP_def set_prot_def PROT_READ_def PROT_WRITE_def PROT_EXEC_def Let_def protected_pages_def)
qed

lemma protect_exec_check:
  "protect_exec sys a n = (case check (sys SYS_MPROTECT [a, n, PROT_READ OR PROT_EXEC]) of Inl e \<Rightarrow> Inl e | Inr _ \<Rightarrow> Inr ())"
  by (simp add: protect_exec_def syscall3_def)

lemma acts_snoc_prefix: "acts (as @ bs) p = Some q \<Longrightarrow> \<exists>q'. acts as p = Some q'"
  by (simp add: acts_append split: option.splits)

lemma page_in_code: "mc_code c0 \<noteq> [] \<Longrightarrow> jit_fits c0 \<Longrightarrow> page \<in> region page (of_nat (jit_code_r c0))"
proof -
  assume a: "mc_code c0 \<noteq> []" "jit_fits c0"
  have "0 < jit_code_r c0" "jit_code_r c0 < 2 ^ 64"
    using jit_sizes(1,4) [OF a(2)] a(1) by (simp_all add: jit_total_def) (cases "mc_code c0"; simp)
  then show ?thesis by (simp add: region_def word_less_nat_alt)
qed

lemma run_acts:
  assumes "decode bs = Inr c0" and "jit_fits c0" and "relocates_in_place relocate" and "mc_code c0 \<noteq> []"
    and "\<And>page. map_rw sys (of_nat (jit_total c0)) = Inr page \<Longrightarrow> mapping_ok p page (jit_total c0)"
  shows "\<exists>q. acts (fst (run_machine_code sys relocate invoke os_error bs)) p = Some q"
proof (cases "map_rw sys (of_nat (jit_total c0))")
  case (Inl e)
  have "page_round (length (mc_code c0)) + page_round (length (mc_data c0)) + page_round (unat (mc_heap_size c0)) = of_nat (jit_total c0)"
    by (simp add: page_round_def jit_total_def jit_code_r_def jit_data_r_def jit_heap_r_def)
  then show ?thesis using Inl assms(1) by (simp add: run_machine_code_def Let_def act_def map_rw_def)
next
  case (Inr page)
  define hb where "hb = page + of_nat (jit_code_r c0 + jit_data_r c0)"
  define c where "c = relocate c0 page (page + of_nat (jit_code_r c0)) hb"
  note ok = assms(5) [OF Inr]
  let ?m = "Act_Sys SYS_MMAP (mmap_args (of_nat (jit_total c0))) (syscall6_mmap sys (of_nat (jit_total c0)))"
  let ?st = "jit_stores c page (page + of_nat (jit_code_r c0)) hb (of_nat (jit_heap_r c0))"
  obtain ret tl where r: "fst (run_machine_code sys relocate invoke os_error bs) = ?m # ?st @
      Act_Sys SYS_MPROTECT [page, of_nat (jit_code_r c0), PROT_READ OR PROT_EXEC] ret # tl"
    "ret = sys SYS_MPROTECT [page, of_nat (jit_code_r c0), PROT_READ OR PROT_EXEC]"
    "case protect_exec sys page (of_nat (jit_code_r c0)) of Inl e \<Rightarrow> tl = []
       | Inr _ \<Rightarrow> tl = [Act_Call page, Act_Sys SYS_MUNMAP [page, of_nat (jit_total c0), 0] (sys SYS_MUNMAP [page, of_nat (jit_total c0), 0])]"
    using run_shape [where relocate = relocate and invoke = invoke and os_error = os_error, OF assms(1,2) Inr hb_def c_def]
    by (cases "protect_exec sys page (of_nat (jit_code_r c0))") auto
  have mret: "check (syscall6_mmap sys (of_nat (jit_total c0))) = Inr page" using Inr by (simp add: map_rw_def)
  show ?thesis
  proof (cases "check ret")
    case (Inr u)
    then have tl: "tl = [Act_Call page, Act_Sys SYS_MUNMAP [page, of_nat (jit_total c0), 0] (sys SYS_MUNMAP [page, of_nat (jit_total c0), 0])]"
      using r(2,3) by (simp add: protect_exec_check)
    have "page \<in> pg_x (protected_pages p c0 c page)"
      using page_in_code [OF assms(4,2)] by (simp add: protected_pages_def Let_def)
    then have "\<exists>q. acts tl (protected_pages p c0 c page) = Some q"
      by (simp add: tl act_def SYS_MUNMAP_def SYS_MMAP_def SYS_MPROTECT_def Let_def split: sum.splits)
    then show ?thesis
      using acts_until_call [OF assms(2,3) ok mret Inr c_def] acts_append [of "?m # ?st @ [Act_Sys SYS_MPROTECT [page, of_nat (jit_code_r c0), PROT_READ OR PROT_EXEC] ret]" tl p]
      by (simp add: r(1) hb_def del: of_nat_add)
  next
    case (Inl e)
    then have tl: "tl = []" using r(2,3) by (simp add: protect_exec_check)
    have "\<exists>q. acts (?m # ?st @ [Act_Sys SYS_MPROTECT [page, of_nat (jit_code_r c0), PROT_READ OR PROT_EXEC] 0]) p = Some q"
      using acts_until_call [OF assms(2,3) ok mret _ c_def, of 0 0] by (simp add: check_cases_eq hb_def del: of_nat_add)
    then obtain q where "acts (?m # ?st) p = Some q" using acts_snoc_prefix [of "?m # ?st"] by (simp only: append.simps) blast
    then show ?thesis using acts_append [of "?m # ?st" "[Act_Sys SYS_MPROTECT [page, of_nat (jit_code_r c0), PROT_READ OR PROT_EXEC] ret]" p] Inl
      by (simp add: r(1) tl act_def)
  qed
qed

section \<open>Properties\<close>

text \<open>
  C39. Running machine code in memory is safe at every point: for code that is not empty and sizes below \<open>2^62\<close>, and
  whatever the kernel answers (a mapping it grants being fresh and page-aligned), every store goes to writable memory and the
  call to executable memory, so that no action faults; and after every prefix of the actions no address is both writable
  and executable.
\<close>

theorem jit_write_xor_execute:
  assumes "decode bs = Inr c0" and "jit_fits c0" and "relocates_in_place relocate" and "mc_code c0 \<noteq> []" and "wx p"
    and "\<forall>page. map_rw sys (of_nat (jit_total c0)) = Inr page \<longrightarrow> mapping_ok p page (jit_total c0)"
  shows "acts (fst (run_machine_code sys relocate invoke os_error bs)) p \<noteq> None
    \<and> (\<forall>k q. acts (take k (fst (run_machine_code sys relocate invoke os_error bs))) p = Some q \<longrightarrow> wx q)"
proof (intro conjI allI impI)
  let ?as = "fst (run_machine_code sys relocate invoke os_error bs)"
  show "acts ?as p \<noteq> None" using run_acts [OF assms(1-4)] assms(6) by fastforce
  fix k q assume "acts (take k ?as) p = Some q"
  moreover have "list_all one_right ?as" using jit_one_right [of sys relocate invoke os_error bs] by (metis prod.collapse)
  then have "list_all one_right (take k ?as)" by (auto simp: list_all_iff dest: in_set_takeD)
  ultimately show "wx q" using acts_wx assms(5) by blast
qed

text \<open>
  C40. What the code finds when it is called: the relocated code at the entry address, executable and not writable;
  the relocated data behind it, writable; and, when a heap was asked for, a heap that represents the empty heap of
  the allocator and satisfies its invariant, so that the allocator's properties apply from the first call on.
\<close>

theorem jit_memory_at_call:
  assumes "decode bs = Inr c0" and "jit_fits c0" and "relocates_in_place relocate" and "mc_code c0 \<noteq> []"
    and m: "map_rw sys (of_nat (jit_total c0)) = Inr page" and ok: "mapping_ok p page (jit_total c0)"
    and x: "protect_exec sys page (of_nat (jit_code_r c0)) = Inr ()"
    and hb: "hb = page + of_nat (jit_code_r c0 + jit_data_r c0)" and c: "c = relocate c0 page (page + of_nat (jit_code_r c0)) hb"
  shows "\<exists>pre rest q. fst (run_machine_code sys relocate invoke os_error bs) = pre @ Act_Call page # rest \<and> acts pre p = Some q
    \<and> (\<forall>i < length (mc_code c). pg_mem q (page + of_nat i) = mc_code c ! i \<and> page + of_nat i \<in> pg_x q - pg_w q)
    \<and> (\<forall>i < length (mc_data c). pg_mem q (page + of_nat (jit_code_r c0) + of_nat i) = mc_data c ! i
        \<and> page + of_nat (jit_code_r c0) + of_nat i \<in> pg_w q)
    \<and> (mc_heap_size c0 \<noteq> 0 \<longrightarrow> heap_at (pg_mem q) hb \<lparr>free_blocks = [], bump = hb + 4096\<rparr>
        \<and> heap_inv hb \<lparr>free_blocks = [], bump = hb + 4096\<rparr> [])"
proof -
  note s = jit_sizes [OF assms(2)]
  have len: "length (mc_code c) = length (mc_code c0)" "length (mc_data c) = length (mc_data c0)"
    using assms(3) by (simp_all add: relocates_in_place_def c)
  let ?cr = "jit_code_r c0" and ?dr = "jit_data_r c0" and ?t = "jit_total c0"
  let ?q = "protected_pages p c0 c page"
  obtain ret tl where r: "fst (run_machine_code sys relocate invoke os_error bs) =
      Act_Sys SYS_MMAP (mmap_args (of_nat ?t)) (syscall6_mmap sys (of_nat ?t)) # jit_stores c page (page + of_nat ?cr) hb (of_nat (jit_heap_r c0)) @
      Act_Sys SYS_MPROTECT [page, of_nat ?cr, PROT_READ OR PROT_EXEC] ret # tl"
    "ret = sys SYS_MPROTECT [page, of_nat ?cr, PROT_READ OR PROT_EXEC]" "\<exists>rest. tl = Act_Call page # rest"
    using run_shape [where relocate = relocate and invoke = invoke and os_error = os_error, OF assms(1,2) m hb c] x by auto
  obtain u where u: "check ret = Inr u" using x r(2) by (auto simp: protect_exec_check split: sum.splits)
  have mret: "check (syscall6_mmap sys (of_nat ?t)) = Inr page" using m by (simp add: map_rw_def)
  let ?pre = "Act_Sys SYS_MMAP (mmap_args (of_nat ?t)) (syscall6_mmap sys (of_nat ?t)) # jit_stores c page (page + of_nat ?cr) hb (of_nat (jit_heap_r c0)) @
      [Act_Sys SYS_MPROTECT [page, of_nat ?cr, PROT_READ OR PROT_EXEC] ret]"
  have pre: "acts ?pre p = Some ?q" using acts_until_call [OF assms(2,3) ok mret u c] by (simp add: hb)
  obtain rest where "tl = Act_Call page # rest" using r(3) by blast
  then have run: "fst (run_machine_code sys relocate invoke os_error bs) = ?pre @ Act_Call page # rest" using r(1) by simp
  have code: "pg_mem ?q (page + of_nat i) = mc_code c ! i \<and> page + of_nat i \<in> pg_x ?q - pg_w ?q" if "i < length (mc_code c)" for i
  proof -
    have "page + of_nat i \<in> region page (of_nat ?cr)"
      using that len s(1,4) by (simp add: region_def word_less_nat_alt jit_total_def)
    then show ?thesis using stored_code [OF assms(2) len that] by (simp add: protected_pages_def Let_def)
  qed
  have data: "pg_mem ?q (page + of_nat ?cr + of_nat i) = mc_data c ! i \<and> page + of_nat ?cr + of_nat i \<in> pg_w ?q" if "i < length (mc_data c)" for i
  proof -
    have e: "page + of_nat ?cr + of_nat i - page = of_nat (?cr + i)" by simp
    have "?cr + i < ?t" "?t < 2 ^ 64" "?cr + i < 2 ^ 64" "\<not> ?cr + i < ?cr" using that len s(2,4) by (simp_all add: jit_total_def)
    then have "page + of_nat ?cr + of_nat i \<in> region page (of_nat ?t)" "page + of_nat ?cr + of_nat i \<notin> region page (of_nat ?cr)"
      unfolding region_def mem_Collect_eq e by (simp_all add: word_less_nat_alt del: of_nat_add)
    then show ?thesis using stored_data [OF assms(2) len that] by (simp add: protected_pages_def mapped_pages_def Let_def)
  qed
  have "heap_at (pg_mem ?q) hb \<lparr>free_blocks = [], bump = hb + 4096\<rparr> \<and> heap_inv hb \<lparr>free_blocks = [], bump = hb + 4096\<rparr> []"
    if h: "mc_heap_size c0 \<noteq> 0"
  proof -
    have hr: "jit_heap_r c0 \<noteq> 0" using s(3) h by (metis le_zero_eq unsigned_eq_0_iff)
    have t: "?cr + ?dr + 4096 \<le> ?t" using s(5) [OF hr] by (simp add: jit_total_def)
    have "unat page + ?t \<le> 2 ^ 63" "PAGE dvd unat page" using ok by (simp_all add: mapping_ok_def)
    then have ub: "unat hb = unat page + (?cr + ?dr)" "unat (hb + 4096) = unat hb + 4096"
      using t unat_of_nat_u64 [of "?cr + ?dr"] unfolding hb by (simp_all add: unat_add64)
    have "PAGE dvd unat (hb + 4096)"
      unfolding ub using \<open>PAGE dvd unat page\<close> s(6,7) by (simp add: PAGE_def)
    then have d: "16 dvd unat (hb + 4096)" by (rule dvd_trans [rotated]) (simp add: PAGE_def)
    have nz: "hb + 4096 \<noteq> 0" using ub(2) by (metis add_is_0 unsigned_0 zero_neq_numeral)
    show ?thesis
      using stored_heap [OF hr hb] nz ub(2) d by (simp add: heap_at_def heap_inv_def protected_pages_def Let_def)
  qed
  then show ?thesis using run pre code data by blast
qed

section \<open>A concrete run\<close>

definition sample_run :: machine_code where
  "sample_run = empty_mc\<lparr>mc_code := [0xC3], mc_data := [7], mc_heap_size := 0x2000\<rparr>"

definition sample_kernel :: kernel_fn where
  "sample_kernel nr args = (if nr = SYS_MMAP then 0x10000 else 0)"

definition no_pages :: pages where
  "no_pages = \<lparr>pg_w = {}, pg_x = {}, pg_mem = (\<lambda>_. 0)\<rparr>"

lemma sample_run_facts:
  "decode (encode sample_run) = Inr sample_run" "jit_fits sample_run" "relocates_in_place (\<lambda>c _ _ _. c)" "mc_code sample_run \<noteq> []"
  "wx no_pages" "jit_code_r sample_run = 0x1000" "jit_data_r sample_run = 0x1000" "jit_total sample_run = 0x4000"
proof -
  have "serializable sample_run" by (simp add: serializable_def sample_run_def empty_mc_def name_ok_def export_ok_def init_ok_def)
  then show "decode (encode sample_run) = Inr sample_run" using decode_encode_core_trailing [of sample_run] by (simp add: sample_run_def empty_mc_def)
qed (simp_all add: jit_fits_def relocates_in_place_def sample_run_def empty_mc_def wx_def no_pages_def jit_total_def jit_code_r_def
    jit_data_r_def jit_heap_r_def align_up_def div_ceil_def PAGE_def)

lemma sample_mapping: "map_rw sample_kernel n = Inr 0x10000" "mapping_ok no_pages 0x10000 (jit_total sample_run)"
  "protect_exec sample_kernel a n = Inr ()"
  by (simp_all add: map_rw_def syscall6_mmap_def sample_kernel_def check_cases_eq mapping_ok_def no_pages_def PAGE_def sample_run_facts
      protect_exec_check SYS_MMAP_def SYS_MPROTECT_def)

theorem jit_write_xor_execute_witness:
  "acts (fst (run_machine_code sample_kernel (\<lambda>c _ _ _. c) (\<lambda>_. 42) (\<lambda>_. []) (encode sample_run))) no_pages \<noteq> None"
proof -
  have "\<forall>page. map_rw sample_kernel (of_nat (jit_total sample_run)) = Inr page \<longrightarrow> mapping_ok no_pages page (jit_total sample_run)"
    using sample_mapping(1,2) by simp
  from jit_write_xor_execute [OF sample_run_facts(1-5) this] show ?thesis by blast
qed

theorem jit_memory_at_call_witness:
  "\<exists>pre rest q. fst (run_machine_code sample_kernel (\<lambda>c _ _ _. c) (\<lambda>_. 42) (\<lambda>_. []) (encode sample_run)) = pre @ Act_Call 0x10000 # rest
     \<and> acts pre no_pages = Some q \<and> pg_mem q 0x10000 = 0xC3 \<and> pg_mem q 0x11000 = 7
     \<and> heap_at (pg_mem q) 0x12000 \<lparr>free_blocks = [], bump = 0x13000\<rparr>"
proof -
  have c: "mc_code sample_run = [0xC3]" "mc_data sample_run = [7]" "mc_heap_size sample_run \<noteq> 0" by (simp_all add: sample_run_def)
  show ?thesis
    using jit_memory_at_call [OF sample_run_facts(1-4) sample_mapping(1,2,3) refl refl, of "\<lambda>_. 42" "\<lambda>_. []"] c
    by (simp add: sample_run_facts(6-8)) metis
qed

end
