(* ===== verification/Code_Runs.thy ===== *)
theory Code_Runs
  imports Regions Encode
begin

text \<open>
  Running emitted code. \<open>acts f g\<close> says that the emission \<open>f\<close> appends bytes which, wherever they stand in
  a code, run from their start to their end and change the processor state as \<open>g\<close> says (\<open>None\<close>: a fault).
  It composes along \<open>seq\<close>, so the effect of an emission is computed from those of its parts.
\<close>

section \<open>Code in place\<close>

definition code_at :: "bytes \<Rightarrow> nat \<Rightarrow> bytes \<Rightarrow> bool" where
  "code_at c ip bs \<longleftrightarrow> (\<exists>post. drop ip c = bs @ post)"

lemma code_at_Nil [simp]: "code_at c ip []"
  by (simp add: code_at_def)

lemma code_at_append: "code_at c ip (a @ b) \<longleftrightarrow> code_at c ip a \<and> code_at c (ip + length a) b"
proof -
  obtain r where r: "drop ip c = r" by simp
  have "drop (ip + length a) c = drop (length a) r" by (simp add: add.commute flip: r)
  then show ?thesis unfolding code_at_def r by auto
qed

section \<open>Runs\<close>

definition runs :: "bytes \<Rightarrow> mstate \<Rightarrow> mstate \<Rightarrow> bool" where
  "runs bs s s' \<longleftrightarrow> (\<forall>sys c ip. code_at c ip bs \<longrightarrow> steps sys c (ip, s) (ip + length bs, s'))"

lemma runs_Nil: "runs [] s s"
  by (simp add: runs_def steps_refl)

lemma runs_append: "runs a s t \<Longrightarrow> runs b t u \<Longrightarrow> runs (a @ b) s u"
  by (fastforce simp: runs_def code_at_append add.assoc elim: steps_trans)

lemma step_at_exec: "exec i s = Some s' \<Longrightarrow> step_at sys i after s = Some (Next after, s')"
  by (cases i) simp_all

lemma runs_instr:
  assumes "decode_x86 bs = Some (i, length bs)" and "exec i s = Some s'"
  shows "runs bs s s'"
  unfolding runs_def
proof (intro allI impI)
  fix sys c ip assume "code_at c ip bs"
  then have "decode_x86 (drop ip c) = Some (i, length bs)"
    using decode_append [OF assms(1)] by (auto simp: code_at_def)
  then have "step sys c (ip, s) = Some (Next (ip + length bs), s')"
    by (simp add: step_def step_at_exec assms(2))
  then show "steps sys c (ip, s) (ip + length bs, s')" by (rule steps_step) (rule steps_refl)
qed

section \<open>Emissions\<close>

lemma emit_emit [simp]: "emit b (emit a e) = emit (a @ b) e"
  by (simp add: emit_def)

lemma emit_Nil: "emit [] = id"
  by (simp add: emit_def fun_eq_iff)

definition acts :: "(emitter \<Rightarrow> emitter) \<Rightarrow> (mstate \<Rightarrow> mstate option) \<Rightarrow> bool" where
  "acts f g \<longleftrightarrow> (\<exists>bs. f = emit bs \<and> (\<forall>s s'. g s = Some s' \<longrightarrow> runs bs s s'))"

lemma actsE:
  assumes "acts f g"
  obtains bs where "f = emit bs" "\<And>s s'. g s = Some s' \<Longrightarrow> runs bs s s'"
  using assms by (auto simp: acts_def)

lemma acts_id: "acts id Some"
  unfolding acts_def by (intro exI [of _ "[]"]) (simp add: emit_Nil runs_Nil)

lemma acts_comp:
  assumes "acts f g" and "acts f' g'"
  shows "acts (\<lambda>e. f' (f e)) (\<lambda>s. Option.bind (g s) g')"
proof -
  obtain a where a: "f = emit a" "\<And>s s'. g s = Some s' \<Longrightarrow> runs a s s'" using assms(1) by (auto elim: actsE)
  obtain b where b: "f' = emit b" "\<And>s s'. g' s = Some s' \<Longrightarrow> runs b s s'" using assms(2) by (auto elim: actsE)
  have "runs (a @ b) s s'" if "Option.bind (g s) g' = Some s'" for s s'
    using that by (auto simp: Option.bind_eq_Some_conv intro: runs_append [OF a(2) b(2)])
  then show ?thesis unfolding acts_def by (intro exI [of _ "a @ b"]) (simp add: a(1) b(1))
qed

lemma acts_seq_Nil: "acts (seq []) Some"
  using acts_id by (simp add: acts_def fun_eq_iff)

lemma acts_seq:
  assumes "acts f g" and "acts (seq fs) h"
  shows "acts (seq (f # fs)) (\<lambda>s. Option.bind (g s) h)"
proof -
  have "seq (f # fs) = (\<lambda>e. seq fs (f e))" by (simp add: fun_eq_iff)
  then show ?thesis using acts_comp [OF assms] by simp
qed

lemma acts_cong: "acts f g \<Longrightarrow> (\<And>s. h s = g s) \<Longrightarrow> acts f h"
  by (simp add: acts_def)

lemma acts_weaken: "acts f g \<Longrightarrow> (\<And>s s'. h s = Some s' \<Longrightarrow> g s = Some s') \<Longrightarrow> acts f h"
  unfolding acts_def by blast

lemma acts_instr: "decode_x86 bs = Some (i, length bs) \<Longrightarrow> acts (emit bs) (exec i)"
  unfolding acts_def by (blast intro: runs_instr)

lemma acts_emitI: "f = emit bs \<Longrightarrow> decode_x86 bs = Some (i, length bs) \<Longrightarrow> (\<And>s. g s = exec i s) \<Longrightarrow> acts f g"
  using acts_instr [of bs i] by (simp add: acts_def)

lemma seq_emit_merge: "seq (emit a # emit b # fs) = seq (emit (a @ b) # fs)"
  by (simp add: fun_eq_iff)

lemma acts_merge: "acts (seq (emit (a @ b) # fs)) g \<Longrightarrow> acts (seq (emit a # emit b # fs)) g"
  by (simp add: seq_emit_merge)

section \<open>Decoding what the encoders build\<close>

lemma rex_range: "0x40 \<le> rex w r b" "rex w r b \<le> 0x4F" "rex w r b \<noteq> 0xF0" "rex w r b \<noteq> 0xF3"
  by (cases w; cases r; cases b; simp add: rex_def)+

lemma rex_of_rex [simp]: "rex_of (rex w r b) = \<lparr>rx_w = w, rx_r = r, rx_x = False, rx_b = b\<rparr>"
  by (cases w; cases r; cases b) (simp_all add: rex_def rex_of_def)

lemma decode_rex_prefix: "decode_x86 (rex w r b # t) = grow 1 (decode_op \<lparr>rx_w = w, rx_r = r, rx_x = False, rx_b = b\<rparr> t)"
  by (simp add: decode_x86_def decode_rex_def rex_range)


lemma mask_bytes: "(7 :: u8) = mask 3" "(3 :: u8) = mask 2"
  by (simp_all add: mask_eq_exp_minus_1)

lemma modrm_mode: "drop_bit 6 (modrm md reg rm) = md AND 3"
  by (rule bit_word_eqI) (auto simp: modrm_def bit_simps mask_bytes)

lemma modrm_reg: "drop_bit 3 (modrm md reg rm) AND 7 = reg AND 7"
  by (rule bit_word_eqI) (auto simp: modrm_def bit_simps mask_bytes)

lemma modrm_rm: "modrm md reg rm AND 7 = rm AND 7"
  by (rule bit_word_eqI) (auto simp: modrm_def bit_simps mask_bytes)

text \<open>A register number below 16 is its low three bits with the extension bit.\<close>

lemma ext_reg: "r < 16 \<Longrightarrow> ext (8 \<le> r) (r AND 7) = r"
proof -
  assume "r < 16"
  then have "unat r < 16" by (simp add: word_less_nat_alt)
  then have "unat r \<in> {0, 1, 2, 3, 4, 5, 6, 7, 8, 9, 10, 11, 12, 13, 14, 15}" by (simp add: numeral_eq_Suc less_Suc_eq)
  then have "r \<in> of_nat ` {0, 1, 2, 3, 4, 5, 6, 7, 8, 9, 10, 11, 12, 13, 14, 15}"
    by (intro image_eqI [where x = "unat r"]) simp_all
  moreover have "\<not> (8 :: u8) \<le> 1" by (simp add: word_le_nat_alt)
  ultimately show ?thesis by (auto simp: ext_def)
qed

definition rex_fields :: "bool \<Rightarrow> bool \<Rightarrow> bool \<Rightarrow> rex_bits" where
  "rex_fields w r b = \<lparr>rx_w = w, rx_r = r, rx_x = False, rx_b = b\<rparr>"

lemma rex_fields_simps [simp]:
  "rx_w (rex_fields w r b) = w" "rx_r (rex_fields w r b) = r" "rx_x (rex_fields w r b) = False" "rx_b (rex_fields w r b) = b"
  by (simp_all add: rex_fields_def)

text \<open>An instruction with a ModRM operand: the operand, then what the opcode makes of it.\<close>

definition then_rm :: "nat \<Rightarrow> bytes \<Rightarrow> (bytes \<Rightarrow> (x86 \<times> nat) option) \<Rightarrow> (x86 \<times> nat) option" where
  "then_rm n t k = (case k t of None \<Rightarrow> None | Some (i, l) \<Rightarrow> Some (i, n + l))"

lemma decode_modrm:
  assumes "is_rm_opcode op" and "modrm_of (rex_fields w r b) (ms @ t) = Some (reg, rm, length ms)"
  shows "decode_x86 (rex w r b # op # ms @ t) = then_rm (2 + length ms) t (decode_rm (rex_fields w r b) op reg rm)"
  using assms
  by (simp add: decode_rex_prefix decode_op_def with_rm_def then_rm_def grow_def flip: rex_fields_def split: option.splits)

lemma decode_modrm_0f:
  assumes "modrm_of (rex_fields w r b) (ms @ t) = Some (reg, rm, length ms)"
  shows "decode_x86 (rex w r b # 0x0F # 0xAF # ms @ t) = Some (Imul (ext r reg) rm, 3 + length ms)"
    and "decode_x86 (rex w r b # 0x0F # 0xB6 # ms @ t) = Some (Movzx8 (ext r reg) rm, 3 + length ms)"
  using assms
  by (simp_all add: decode_rex_prefix decode_op_def decode_0f_def with_rm_def grow_def is_rm_opcode_def flip: rex_fields_def)

text \<open>The operand forms: a register, a base with a short or a long displacement.\<close>

lemma modrm_of_reg: "modrm_of rx ([modrm 3 reg rm] @ t) = Some (reg AND 7, Reg (ext (rx_b rx) (rm AND 7)), 1)"
  by (simp add: modrm_of_def modrm_mode modrm_reg modrm_rm)

lemma modrm_of_short:
  "rm AND 7 \<noteq> 4 \<Longrightarrow> modrm_of rx ([modrm 1 reg rm, v] @ t) = Some (reg AND 7, Mem (ext (rx_b rx) (rm AND 7)) None (sx8 v), 2)"
  by (simp add: modrm_of_def modrm_mode modrm_reg modrm_rm disp_of_def)

lemma sx32_le32 [simp]: "sx32 (le32 d @ t) = scast d"
  by (simp add: sx32_def)

lemma modrm_of_long:
  "rm AND 7 \<noteq> 4 \<Longrightarrow> modrm_of rx ((modrm 2 reg rm # le32 d) @ t) = Some (reg AND 7, Mem (ext (rx_b rx) (rm AND 7)) None (scast d), 5)"
  by (simp add: modrm_of_def modrm_mode modrm_reg modrm_rm disp_of_def)

lemma signed_take_bit_byte: "sint (ucast (d :: i32) :: u8) = signed_take_bit 7 (sint d)"
  by transfer (simp add: signed_take_bit_take_bit signed_take_bit_signed_take_bit min_def)

lemma sx8_ucast: "- 128 \<le> sint d \<Longrightarrow> sint d \<le> 127 \<Longrightarrow> sx8 (ucast (d :: i32)) = scast d"
proof -
  assume "- 128 \<le> sint d" "sint d \<le> 127"
  then have "signed_take_bit 7 (sint d) = sint d" by (simp add: signed_take_bit_int_eq_self)
  then have "sint (ucast d :: u8) = sint d" by (simp only: signed_take_bit_byte)
  then have "of_int (sint (ucast d :: u8)) = (of_int (sint d) :: u64)" by (rule arg_cong)
  then show ?thesis by (simp only: sx8_def of_int_sint)
qed

section \<open>Homes\<close>

text \<open>The address of a spill slot, and the value in the home of a virtual register.\<close>

definition slot_at :: "u32 \<Rightarrow> mstate \<Rightarrow> u64" where
  "slot_at k s = regs s 5 + scast (slot_disp k)"

fun home :: "loc \<Rightarrow> mstate \<Rightarrow> u64" where
  "home (In_Reg r) s = regs s (phys_id r)"
| "home (In_Slot k) s = ld64 (mem s) (slot_at k s)"

fun set_home :: "loc \<Rightarrow> u64 \<Rightarrow> mstate \<Rightarrow> mstate" where
  "set_home (In_Reg r) v s = set_reg (phys_id r) v s"
| "set_home (In_Slot k) v s = s\<lparr>mem := st64 (mem s) (slot_at k s) v\<rparr>"

lemma phys_id_bounds [simp]: "phys_id r < 16" "phys_id r \<noteq> 4" "phys_id r \<noteq> 5"
  by (cases r; simp)+

lemma phys_id_eq [simp]: "phys_id r = phys_id r' \<longleftrightarrow> r = r'"
  by (cases r; cases r') simp_all

lemma needs_rex_id: "needs_rex r = (8 \<le> phys_id r)"
  by (cases r) (simp_all add: needs_rex_def)

section \<open>Moves\<close>

lemma decode_mov:
  assumes "modrm_of (rex_fields True r b) ms = Some (reg, x, length ms)"
  shows "decode_x86 (rex True r b # 0x89 # ms) = Some (Mov x (Reg (ext r reg)), 2 + length ms)"
    and "decode_x86 (rex True r b # 0x8B # ms) = Some (Mov (Reg (ext r reg)) x, 2 + length ms)"
  using decode_modrm [where t = "[]" and ms = ms] assms
  by (simp_all add: is_rm_opcode_def then_rm_def decode_rm_def)

lemma set_reg_same [simp]: "set_reg r (regs s r) s = s"
  by (simp add: set_reg_def)

lemma acts_mov_rr:
  assumes "dst < 16" and "src < 16"
  shows "acts (mov_rr dst src) (\<lambda>s. Some (set_reg dst (regs s src) s))"
proof (cases "dst = src")
  case True
  then show ?thesis using acts_id by (simp add: mov_rr_def)
next
  case False
  let ?bs = "[rex True (8 \<le> src) (8 \<le> dst), 0x89, modrm 3 src dst]"
  have "mov_rr dst src = emit ?bs" using False by (simp add: mov_rr_def fun_eq_iff)
  moreover have "decode_x86 ?bs = Some (Mov (Reg dst) (Reg src), length ?bs)"
    using decode_mov(1) [of "8 \<le> src" "8 \<le> dst" "[modrm 3 src dst]"] modrm_of_reg [where t = "[]"] assms
    by (simp add: ext_reg)
  ultimately show ?thesis by (rule acts_emitI) (simp add: set_reg_def)
qed

text \<open>The bytes of a slot operand.\<close>

definition slot_bytes :: "u32 \<Rightarrow> u8 \<Rightarrow> bytes" where
  "slot_bytes k reg = (case slot_addr k reg of (m, d) \<Rightarrow> m # (case d of D8 v \<Rightarrow> [v] | D32 v \<Rightarrow> le32 v))"

lemma emit_slot: "slot_addr k reg = (m, d) \<Longrightarrow> emit_disp d (emit [m] e) = emit (slot_bytes k reg) e"
  by (cases d) (simp_all add: slot_bytes_def imm32_def)

lemma modrm_of_slot:
  assumes "\<not> rx_b rx"
  shows "modrm_of rx (slot_bytes k reg @ t) = Some (reg AND 7, Mem 5 None (scast (slot_disp k)), length (slot_bytes k reg))"
proof (cases "- 120 \<le> sint (slot_disp k) \<and> sint (slot_disp k) \<le> - 1")
  case True
  then show ?thesis using assms modrm_of_short [of 5 rx reg "ucast (slot_disp k)" t]
    by (simp add: slot_bytes_def slot_addr_def Let_def sx8_ucast ext_def)
next
  case False
  then show ?thesis using assms modrm_of_long [of 5 rx reg "slot_disp k" t]
    by (auto simp: slot_bytes_def slot_addr_def Let_def ext_def)
qed

lemma home_slot: "home (In_Slot k) s = rd64 (Mem 5 None (scast (slot_disp k))) s"
  by (simp add: slot_at_def)

lemma acts_load_slot:
  assumes "dst < 16"
  shows "acts (load_slot dst k) (\<lambda>s. Some (set_reg dst (home (In_Slot k) s) s))"
proof -
  let ?bs = "rex True (8 \<le> dst) False # 0x8B # slot_bytes k (dst AND 7)"
  obtain m d where md: "slot_addr k (dst AND 7) = (m, d)" by fastforce
  have "load_slot dst k = emit ?bs" by (simp add: load_slot_def md emit_slot [OF md] fun_eq_iff del: emit_emit) (simp add: md)
  moreover have "decode_x86 ?bs = Some (Mov (Reg dst) (Mem 5 None (scast (slot_disp k))), length ?bs)"
    using decode_mov(2) [of "8 \<le> dst" False "slot_bytes k (dst AND 7)"] modrm_of_slot [where t = "[]"] assms
    by (simp add: ext_reg)
  ultimately show ?thesis by (rule acts_emitI) (simp add: set_reg_def slot_at_def)
qed

lemma acts_store_slot:
  assumes "src < 16"
  shows "acts (store_slot k src) (\<lambda>s. Some (set_home (In_Slot k) (regs s src) s))"
proof -
  let ?bs = "rex True (8 \<le> src) False # 0x89 # slot_bytes k (src AND 7)"
  obtain m d where md: "slot_addr k (src AND 7) = (m, d)" by fastforce
  have "store_slot k src = emit ?bs" by (simp add: store_slot_def md emit_slot [OF md] fun_eq_iff del: emit_emit) simp
  moreover have "decode_x86 ?bs = Some (Mov (Mem 5 None (scast (slot_disp k))) (Reg src), length ?bs)"
    using decode_mov(1) [of "8 \<le> src" False "slot_bytes k (src AND 7)"] modrm_of_slot [where t = "[]"] assms
    by (simp add: ext_reg)
  ultimately show ?thesis by (rule acts_emitI) (simp add: slot_at_def)
qed

lemma acts_get: "into < 16 \<Longrightarrow> acts (get into l) (\<lambda>s. Some (set_reg into (home l s) s))"
  by (cases l) (simp_all add: acts_mov_rr acts_load_slot del: home.simps(2))

lemma acts_put: "from < 16 \<Longrightarrow> acts (put from l) (\<lambda>s. Some (set_home l (regs s from) s))"
  by (cases l) (simp_all add: acts_mov_rr acts_store_slot del: set_home.simps(2))

end
