(* ===== verification/Ir_Semantics.thy ===== *)
theory Ir_Semantics
  imports Ir X86
begin

text \<open>
  What the intermediate representation means, for the instructions whose meaning is a function of the virtual
  registers and the memory: the specification that compiled functions are compared with. A partial
  function: \<open>None\<close> for a division that overflows, an access to memory the program may not touch
  (\<open>guarded\<close>, the frame of the running function), and an instruction outside this part (calls, system
  calls, floating-point arithmetic).
\<close>

section \<open>Values\<close>

text \<open>A quotient that does not fit has no value; dividing by zero gives zero.\<close>

definition signed_div :: "u64 \<Rightarrow> u64 \<Rightarrow> u64 option" where
  "signed_div a b = (if b = 0 then Some 0
     else if sint a = - (2 ^ 63) \<and> sint b = - 1 then None else Some (of_int (quot (sint a) (sint b))))"

definition signed_rem :: "u64 \<Rightarrow> u64 \<Rightarrow> u64 option" where
  "signed_rem a b = (if b = 0 then Some 0
     else if sint a = - (2 ^ 63) \<and> sint b = - 1 then None else Some (of_int (remn (sint a) (sint b))))"

fun bin_val :: "bin_op \<Rightarrow> u64 \<Rightarrow> u64 \<Rightarrow> u64 option" where
  "bin_val Op_Add a b = Some (a + b)"
| "bin_val Op_Sub a b = Some (a - b)"
| "bin_val Op_Mul a b = Some (a * b)"
| "bin_val Op_Div a b = signed_div a b"
| "bin_val Op_Rem a b = signed_rem a b"
| "bin_val Op_UDiv a b = Some (if b = 0 then 0 else a div b)"
| "bin_val Op_URem a b = Some (if b = 0 then 0 else a mod b)"
| "bin_val Op_And a b = Some (a AND b)"
| "bin_val Op_Or a b = Some (a OR b)"
| "bin_val Op_BitAnd a b = Some (a AND b)"
| "bin_val Op_BitOr a b = Some (a OR b)"
| "bin_val Op_BitXor a b = Some (a XOR b)"
| "bin_val Op_Shl a b = Some (push_bit (unat b mod 64) a)"
| "bin_val Op_Shr a b = Some (signed_drop_bit (unat b mod 64) a)"
| "bin_val Op_ShrShr a b = Some (drop_bit (unat b mod 64) a)"
| "bin_val Op_Is a b = None"

fun cmp_holds :: "cmp_op \<Rightarrow> u64 \<Rightarrow> u64 \<Rightarrow> bool" where
  "cmp_holds Cmp_Eq a b = (a = b)"
| "cmp_holds Cmp_Ne a b = (a \<noteq> b)"
| "cmp_holds Cmp_Lt a b = (sint a < sint b)"
| "cmp_holds Cmp_Gt a b = (sint a > sint b)"
| "cmp_holds Cmp_Le a b = (sint a \<le> sint b)"
| "cmp_holds Cmp_Ge a b = (sint a \<ge> sint b)"

definition truth :: "bool \<Rightarrow> u64" where "truth b = (if b then 1 else 0)"

section \<open>Memory\<close>

fun copy_up :: "nat \<Rightarrow> u64 \<Rightarrow> u64 \<Rightarrow> (u64 \<Rightarrow> u8) \<Rightarrow> (u64 \<Rightarrow> u8)" where
  "copy_up 0 d a m = m"
| "copy_up (Suc n) d a m = copy_up n (d + 1) (a + 1) (m(d := m a))"

definition same_bytes :: "nat \<Rightarrow> u64 \<Rightarrow> u64 \<Rightarrow> (u64 \<Rightarrow> u8) \<Rightarrow> bool" where
  "same_bytes n a b m \<longleftrightarrow> (\<forall>i<n. m (a + of_nat i) = m (b + of_nat i))"

definition open_to :: "(u64 \<Rightarrow> bool) \<Rightarrow> u64 \<Rightarrow> nat \<Rightarrow> bool" where
  "open_to guarded a n \<longleftrightarrow> (\<forall>i<n. \<not> guarded (a + of_nat i))"

section \<open>Instructions\<close>

record ir_state =
  vals :: "vreg \<Rightarrow> u64"
  store :: "u64 \<Rightarrow> u8"

definition set_val :: "vreg \<Rightarrow> u64 \<Rightarrow> ir_state \<Rightarrow> ir_state" where
  "set_val d x st = st\<lparr>vals := (vals st)(d := x)\<rparr>"

fun ir_instr :: "(u64 \<Rightarrow> bool) \<Rightarrow> instr \<Rightarrow> ir_state \<Rightarrow> ir_state option" where
  "ir_instr guarded (I_Const d imm) st = Some (set_val d imm st)"
| "ir_instr guarded (I_FConst d bits) st = Some (set_val d bits st)"
| "ir_instr guarded (I_Mov d a) st = Some (set_val d (vals st a) st)"
| "ir_instr guarded (I_Neg d a) st = Some (set_val d (- vals st a) st)"
| "ir_instr guarded (I_FNeg d a) st = Some (set_val d (vals st a XOR 0x8000000000000000) st)"
| "ir_instr guarded (I_Bin op d a b) st = map_option (\<lambda>x. set_val d x st) (bin_val op (vals st a) (vals st b))"
| "ir_instr guarded (I_Cmp op d a b) st = Some (set_val d (truth (cmp_holds op (vals st a) (vals st b))) st)"
| "ir_instr guarded (I_LoadField d a off) st = (let at = vals st a + scast off in
     if open_to guarded at 8 then Some (set_val d (ld64 (store st) at) st) else None)"
| "ir_instr guarded (I_LoadByte d a off) st = (let at = vals st a + scast off in
     if open_to guarded at 1 then Some (set_val d (ucast (store st at)) st) else None)"
| "ir_instr guarded (I_StoreField a off b) st = (let at = vals st a + scast off in
     if open_to guarded at 8 then Some (st\<lparr>store := st64 (store st) at (vals st b)\<rparr>) else None)"
| "ir_instr guarded (I_MemCpy d a n) st = (let len = unat (vals st n) in
     if open_to guarded (vals st d) len \<and> open_to guarded (vals st a) len
     then Some (st\<lparr>store := copy_up len (vals st d) (vals st a) (store st)\<rparr>) else None)"
| "ir_instr guarded (I_MemCmp d a b n) st = (let len = unat (vals st n) in
     if open_to guarded (vals st a) len \<and> open_to guarded (vals st b) len
     then Some (set_val d (truth (same_bytes len (vals st a) (vals st b) (store st))) st) else None)"
| "ir_instr guarded (I_Suspend a) st = Some st"
| "ir_instr guarded (I_CoroutineResume task d) st = Some (set_val d (vals st task) st)"
| "ir_instr guarded _ st = None"

section \<open>Functions\<close>

text \<open>Where control stands: before an instruction of a block (or its terminator), or returned with a value.\<close>

datatype ir_point = At block_id nat | Returned u64

inductive ir_step :: "(u64 \<Rightarrow> bool) \<Rightarrow> block list \<Rightarrow> ir_point \<times> ir_state \<Rightarrow> ir_point \<times> ir_state \<Rightarrow> bool" for guarded bs where
  ir_next: "b < length bs \<Longrightarrow> i < length (b_instrs (bs ! b)) \<Longrightarrow> ir_instr guarded (b_instrs (bs ! b) ! i) st = Some st' \<Longrightarrow>
    ir_step guarded bs (At b i, st) (At b (Suc i), st')"
| ir_ret: "b < length bs \<Longrightarrow> i = length (b_instrs (bs ! b)) \<Longrightarrow> b_term (bs ! b) = T_Ret (Some v) \<Longrightarrow>
    ir_step guarded bs (At b i, st) (Returned (vals st v), st)"
| ir_ret_void: "b < length bs \<Longrightarrow> i = length (b_instrs (bs ! b)) \<Longrightarrow> b_term (bs ! b) = T_Ret None \<Longrightarrow>
    ir_step guarded bs (At b i, st) (Returned 0, st)"
| ir_goto: "b < length bs \<Longrightarrow> i = length (b_instrs (bs ! b)) \<Longrightarrow> b_term (bs ! b) = T_Branch None t u \<Longrightarrow>
    ir_step guarded bs (At b i, st) (At t 0, st)"
| ir_branch: "b < length bs \<Longrightarrow> i = length (b_instrs (bs ! b)) \<Longrightarrow> b_term (bs ! b) = T_Branch (Some v) t u \<Longrightarrow>
    ir_step guarded bs (At b i, st) (At (if vals st v \<noteq> 0 then t else u) 0, st)"

inductive_cases ir_step_AtE: "ir_step guarded bs (At b i, st) c"

abbreviation ir_steps :: "(u64 \<Rightarrow> bool) \<Rightarrow> block list \<Rightarrow> ir_point \<times> ir_state \<Rightarrow> ir_point \<times> ir_state \<Rightarrow> bool" where
  "ir_steps guarded bs \<equiv> (ir_step guarded bs)\<^sup>*\<^sup>*"

end
