(* ===== verification/Select_Correct.thy ===== *)
theory Select_Correct
  imports Code_Runs Ir_Semantics
begin

text \<open>
  What the arms of instruction selection do on the processor: each writes the home of its result and
  leaves the other homes, the stack and the frame alone.
\<close>

section \<open>States up to scratch registers\<close>

text \<open>The registers whose value code between two instructions may rely on.\<close>

definition kept :: "u8 set" where "kept = {4, 5} \<union> range phys_id"

definition agree :: "mstate \<Rightarrow> mstate \<Rightarrow> bool" where
  "agree s t \<longleftrightarrow> (\<forall>r\<in>kept. regs s r = regs t r) \<and> mem s = mem t"

lemma agree_refl [simp]: "agree s s"
  by (simp add: agree_def)

lemma agree_trans: "agree s t \<Longrightarrow> agree t u \<Longrightarrow> agree s u"
  by (simp add: agree_def)

lemma kept_iff: "r \<in> kept \<longleftrightarrow> r = 4 \<or> r = 5 \<or> (\<exists>p. r = phys_id p)"
  by (auto simp: kept_def)

lemma scratch_regs [simp]:
  "phys_id p \<noteq> 0" "phys_id p \<noteq> 1" "phys_id p \<noteq> 2" "phys_id p \<noteq> 6" "phys_id p \<noteq> 7" "phys_id p \<noteq> 8" "phys_id p \<noteq> 9"
  "phys_id p \<noteq> 10" "phys_id p \<noteq> 11"
  "0 \<notin> kept" "1 \<notin> kept" "2 \<notin> kept" "6 \<notin> kept" "7 \<notin> kept" "8 \<notin> kept" "9 \<notin> kept" "10 \<notin> kept" "11 \<notin> kept"
proof -
  show *: "phys_id p \<noteq> 0" "phys_id p \<noteq> 1" "phys_id p \<noteq> 2" "phys_id p \<noteq> 6" "phys_id p \<noteq> 7" "phys_id p \<noteq> 8" "phys_id p \<noteq> 9"
    "phys_id p \<noteq> 10" "phys_id p \<noteq> 11" for p
    by (cases p; simp)+
  show "0 \<notin> kept" "1 \<notin> kept" "2 \<notin> kept" "6 \<notin> kept" "7 \<notin> kept" "8 \<notin> kept" "9 \<notin> kept" "10 \<notin> kept" "11 \<notin> kept"
    using * by (auto simp: kept_iff dest: sym)
qed

lemmas scratch_regs_sym [simp] = scratch_regs(1-9) [symmetric]

lemma agree_set_scratch: "r \<notin> kept \<Longrightarrow> agree (set_reg r v s) t \<longleftrightarrow> agree s t" "r \<notin> kept \<Longrightarrow> agree s (set_reg r v t) \<longleftrightarrow> agree s t"
  by (auto simp: agree_def set_reg_def)

lemma agree_flags [simp]:
  "agree (s\<lparr>zf := b\<rparr>) t \<longleftrightarrow> agree s t" "agree (s\<lparr>sf := b\<rparr>) t \<longleftrightarrow> agree s t"
  "agree (s\<lparr>cf := b\<rparr>) t \<longleftrightarrow> agree s t" "agree (s\<lparr>ofl := b\<rparr>) t \<longleftrightarrow> agree s t"
  by (simp_all add: agree_def)

lemma home_agree: "agree s t \<Longrightarrow> home l s = home l t"
  by (cases l) (auto simp: agree_def slot_at_def kept_iff)

lemma set_home_agree: "agree s t \<Longrightarrow> agree (set_home l v s) (set_home l v t)"
  by (cases l) (auto simp: agree_def slot_at_def set_reg_def kept_iff)

definition changes :: "(emitter \<Rightarrow> emitter) \<Rightarrow> (mstate \<Rightarrow> mstate option) \<Rightarrow> bool" where
  "changes f g \<longleftrightarrow> (\<exists>bs. f = emit bs \<and> (\<forall>s t. g s = Some t \<longrightarrow> (\<exists>s'. runs bs s s' \<and> agree s' t)))"

lemma acts_changes: "acts f g \<Longrightarrow> (\<And>s t. h s = Some t \<Longrightarrow> \<exists>s'. g s = Some s' \<and> agree s' t) \<Longrightarrow> changes f h"
  unfolding acts_def changes_def by blast

text \<open>Short sequences of parts whose effects are known.\<close>

lemma acts2: "acts f g \<Longrightarrow> acts f' g' \<Longrightarrow> acts (seq [f, f']) (\<lambda>s. Option.bind (g s) g')"
  by (rule acts_cong, rule acts_seq, assumption, rule acts_seq, assumption, rule acts_seq_Nil) simp

lemma acts3: "acts f g \<Longrightarrow> acts f' g' \<Longrightarrow> acts f'' g'' \<Longrightarrow>
    acts (seq [f, f', f'']) (\<lambda>s. Option.bind (g s) (\<lambda>s. Option.bind (g' s) g''))"
  by (rule acts_cong, rule acts_seq, assumption, rule acts2) simp_all

text \<open>The same for total effects.\<close>

lemma acts2_total: "acts f (\<lambda>s. Some (a s)) \<Longrightarrow> acts f' (\<lambda>s. Some (b s)) \<Longrightarrow> acts (seq [f, f']) (\<lambda>s. Some (b (a s)))"
  by (drule (1) acts2) simp

lemma acts3_total: "acts f (\<lambda>s. Some (a s)) \<Longrightarrow> acts f' (\<lambda>s. Some (b s)) \<Longrightarrow> acts f'' (\<lambda>s. Some (c s)) \<Longrightarrow>
    acts (seq [f, f', f'']) (\<lambda>s. Some (c (b (a s))))"
  by (drule (2) acts3) simp

lemma acts_changes_total: "acts f (\<lambda>s. Some (a s)) \<Longrightarrow> (\<And>s. agree (a s) (b s)) \<Longrightarrow> changes f (\<lambda>s. Some (b s))"
  by (erule acts_changes) clarsimp

lemma set_reg_simps [simp]: "regs (set_reg r v s) = (regs s)(r := v)" "mem (set_reg r v s) = mem s"
  by (simp_all add: set_reg_def)

section \<open>Constants and moves\<close>

lemma scast_ucast_32: "- 2147483648 \<le> sint (imm :: i64) \<Longrightarrow> sint imm \<le> 2147483647 \<Longrightarrow> scast (ucast imm :: i32) = imm"
proof -
  assume "- 2147483648 \<le> sint imm" "sint imm \<le> 2147483647"
  then have "signed_take_bit 31 (sint imm) = sint imm" by (simp add: signed_take_bit_int_eq_self)
  moreover have "sint (ucast imm :: i32) = signed_take_bit 31 (sint imm)"
    by transfer (simp add: signed_take_bit_take_bit signed_take_bit_signed_take_bit min_def)
  ultimately have "of_int (sint (ucast imm :: i32)) = (of_int (sint imm) :: i64)" by simp
  then show ?thesis by (simp only: of_int_sint) simp
qed

lemma fits32_scast: "fits32 imm \<Longrightarrow> scast (ucast imm :: i32) = imm"
  by (simp add: fits32_def scast_ucast_32)

lemma changes_const:
  "changes (emit_const l imm) (\<lambda>s. Some (set_home l imm s))"
proof (cases l)
  case (In_Reg r)
  show ?thesis
  proof (cases "fits32 imm")
    case True
    let ?bs = "rex True False (needs_rex r) # 0xC7 # [modrm 3 0 (phys_id r)] @ le32 (ucast imm)"
    have "emit_const l imm = emit ?bs" using True by (simp add: In_Reg imm32_def fun_eq_iff)
    moreover have "decode_x86 ?bs = Some (MovImm (Reg (phys_id r)) imm, length ?bs)"
      using modrm_of_reg [of "rex_fields True False (needs_rex r)" 0 "phys_id r" "le32 (ucast imm)"]
      by (subst decode_modrm) (simp_all add: is_rm_opcode_def then_rm_def decode_rm_def imm32_op_def fits32_scast True ext_reg needs_rex_id)
    ultimately have "acts (emit_const l imm) (\<lambda>s. Some (set_home l imm s))"
      by (rule acts_emitI) (simp add: In_Reg set_reg_def)
    then show ?thesis by (rule acts_changes) simp
  next
    case False
    let ?bs = "rex True False (needs_rex r) # (0xB8 OR (phys_id r AND 7)) # le64 imm"
    have "emit_const l imm = emit ?bs" using False by (simp add: In_Reg imm64_def fun_eq_iff)
    moreover have "decode_x86 ?bs = Some (MovImm (Reg (phys_id r)) imm, length ?bs)"
      by (cases r) (simp_all add: decode_simps rex_def needs_rex_def)
    ultimately have "acts (emit_const l imm) (\<lambda>s. Some (set_home l imm s))"
      by (rule acts_emitI) (simp add: In_Reg set_reg_def)
    then show ?thesis by (rule acts_changes) simp
  qed
next
  case (In_Slot k)
  show ?thesis
  proof (cases "fits32 imm")
    case True
    let ?bs = "rex True False False # 0xC7 # slot_bytes k 0 @ le32 (ucast imm)"
    obtain m d where md: "slot_addr k 0 = (m, d)" by fastforce
    have "emit_const l imm = emit ?bs"
      using True by (simp add: In_Slot imm32_def md emit_slot [OF md] fun_eq_iff del: emit_emit) simp
    moreover have "decode_x86 ?bs = Some (MovImm (Mem 5 None (scast (slot_disp k))) imm, length ?bs)"
      using modrm_of_slot [of "rex_fields True False False" k 0 "le32 (ucast imm)"]
      by (subst decode_modrm) (simp_all add: is_rm_opcode_def then_rm_def decode_rm_def imm32_op_def fits32_scast True)
    ultimately have "acts (emit_const l imm) (\<lambda>s. Some (set_home l imm s))"
      by (rule acts_emitI) (simp add: In_Slot slot_at_def)
    then show ?thesis by (rule acts_changes) simp
  next
    case False
    let ?bs = "rex True False False # 0xB8 # le64 imm"
    have "emit_const l imm = seq [emit ?bs, store_slot k RAX]" using False by (simp add: In_Slot imm64_def fun_eq_iff)
    moreover have "decode_x86 ?bs = Some (MovImm (Reg 0) imm, length ?bs)"
      by (simp add: decode_simps rex_def)
    then have "acts (emit ?bs) (\<lambda>s. Some (set_reg 0 imm s))" by (rule acts_emitI [OF refl]) (simp add: set_reg_def)
    ultimately have "acts (emit_const l imm) (\<lambda>s. Some (set_home l (regs (set_reg 0 imm s) RAX) (set_reg 0 imm s)))"
      unfolding In_Slot by (simp only:) (rule acts2_total, assumption, rule acts_store_slot, simp add: RAX_def)
    then show ?thesis
      by (rule acts_changes_total) (auto intro: set_home_agree simp: agree_set_scratch RAX_def)
  qed
qed

lemma changes_mov: "changes (emit_mov dl al) (\<lambda>s. Some (set_home dl (home al s) s))"
proof (cases dl)
  case (In_Reg dr)
  show ?thesis
  proof (cases al)
    case (In_Reg r)
    have "emit_mov dl al = mov_rr (phys_id dr) (phys_id r)" by (simp add: In_Reg \<open>dl = In_Reg dr\<close> mov_rr_def)
    then show ?thesis
      using acts_changes_total [OF acts_mov_rr agree_refl, of "phys_id dr" "phys_id r"] by (simp add: In_Reg \<open>dl = In_Reg dr\<close>)
  next
    case (In_Slot j)
    then show ?thesis
      using acts_changes_total [OF acts_load_slot agree_refl, of "phys_id dr" j] by (simp add: \<open>dl = In_Reg dr\<close>)
  qed
next
  case (In_Slot k)
  show ?thesis
  proof (cases al)
    case (In_Reg r)
    then show ?thesis
      using acts_changes_total [OF acts_store_slot agree_refl, of "phys_id r" k] by (simp add: In_Slot)
  next
    case (In_Slot j)
    have "acts (seq [load_slot RAX j, store_slot k RAX]) (\<lambda>s. Some (set_home dl (home al s) (set_reg 0 (home al s) s)))"
      by (rule acts_cong, rule acts2_total, rule acts_load_slot, simp add: RAX_def, rule acts_store_slot, simp add: RAX_def)
        (simp add: In_Slot \<open>dl = In_Slot k\<close> RAX_def set_reg_def)
    then have "changes (seq [load_slot RAX j, store_slot k RAX]) (\<lambda>s. Some (set_home dl (home al s) s))"
      by (rule acts_changes_total) (auto intro: set_home_agree simp: agree_set_scratch)
    then show ?thesis by (simp add: In_Slot \<open>dl = In_Slot k\<close>)
  qed
qed

section \<open>Results in rax\<close>

text \<open>Code that computes a value in \<open>rax\<close> and keeps everything else; \<open>put\<close> then stores it.\<close>

definition yields :: "(emitter \<Rightarrow> emitter) \<Rightarrow> (mstate \<Rightarrow> u64 option) \<Rightarrow> bool" where
  "yields f v \<longleftrightarrow> (\<exists>bs. f = emit bs \<and> (\<forall>s x. v s = Some x \<longrightarrow> (\<exists>s'. runs bs s s' \<and> agree s' s \<and> regs s' 0 = x)))"

lemma acts_yields: "acts f g \<Longrightarrow> (\<And>s x. v s = Some x \<Longrightarrow> \<exists>s'. g s = Some s' \<and> agree s' s \<and> regs s' 0 = x) \<Longrightarrow> yields f v"
  unfolding acts_def yields_def by blast

text \<open>The state with the result in its home, when the operation has one.\<close>

definition store_to :: "loc \<Rightarrow> u64 option \<Rightarrow> mstate \<Rightarrow> mstate option" where
  "store_to dl v s = map_option (\<lambda>x. set_home dl x s) v"

lemma changes_then:
  assumes "yields f v"
  shows "changes (\<lambda>e. put RAX dl (f e)) (\<lambda>s. store_to dl (v s) s)"
proof -
  obtain a where a: "f = emit a" "\<And>s x. v s = Some x \<Longrightarrow> \<exists>s'. runs a s s' \<and> agree s' s \<and> regs s' 0 = x"
    using assms by (auto simp: yields_def)
  obtain b where b: "put RAX dl = emit b" "\<And>s. runs b s (set_home dl (regs s 0) s)"
    using acts_put [of RAX dl] by (auto simp: acts_def RAX_def)
  have "\<exists>s'. runs (a @ b) s s' \<and> agree s' (set_home dl x s)" if v: "v s = Some x" for s x
  proof -
    obtain s' where s': "runs a s s'" "agree s' s" "regs s' 0 = x" using a(2) [OF v] by blast
    have "runs (a @ b) s (set_home dl x s')" using runs_append [OF s'(1) b(2)] by (simp add: s'(3))
    then show ?thesis using set_home_agree [OF s'(2)] by blast
  qed
  then show ?thesis unfolding changes_def by (intro exI [of _ "a @ b"]) (auto simp: a(1) b(1) store_to_def)
qed

lemma changes_put_last:
  "yields (seq fs) v \<Longrightarrow> changes (seq (fs @ [put RAX dl])) (\<lambda>s. store_to dl (v s) s)"
proof -
  have "seq (fs @ [put RAX dl]) = (\<lambda>e. put RAX dl (seq fs e))" by (simp add: seq_def fun_eq_iff)
  then show "yields (seq fs) v \<Longrightarrow> ?thesis" using changes_then [of "seq fs" v dl] by simp
qed

lemma changes_some: "changes f (\<lambda>s. store_to dl (Some (v s)) s) \<Longrightarrow> changes f (\<lambda>s. Some (set_home dl (v s) s))"
  by (simp add: store_to_def)

lemma changes_neg: "changes (emit_neg dl al) (\<lambda>s. Some (set_home dl (- home al s) s))"
proof (cases "\<exists>r. dl = In_Reg r \<and> al = In_Reg r")
  case True
  then obtain r where r: "dl = In_Reg r" "al = In_Reg r" by blast
  let ?bs = "rex True False (needs_rex r) # 0xF7 # [modrm 3 3 (phys_id r)]"
  have "emit_neg dl al = emit ?bs" by (simp add: emit_neg_def r fun_eq_iff)
  moreover have "decode_x86 ?bs = Some (Neg (Reg (phys_id r)), length ?bs)"
    using modrm_of_reg [of "rex_fields True False (needs_rex r)" 3 "phys_id r" "[]"] decode_modrm [where op = "0xF7" and ms = "[modrm 3 3 (phys_id r)]" and t = "[]"]
    by (simp add: is_rm_opcode_def then_rm_def decode_rm_def ext_reg needs_rex_id)
  ultimately have "acts (emit_neg dl al) (exec (Neg (Reg (phys_id r))))" by (rule acts_emitI) simp
  then show ?thesis by (rule acts_changes) (auto simp: r Let_def flags_of_def agree_def set_reg_def)
next
  case False
  have e: "emit_neg dl al = seq ([get RAX al, emit [0x48, 0xF7, 0xD8]] @ [put RAX dl])"
    using False by (auto simp: emit_neg_def split: loc.splits)
  have "decode_x86 [0x48, 0xF7, 0xD8] = Some (Neg (Reg 0), length [0x48, 0xF7, 0xD8 :: u8])" by (simp add: decode_simps)
  then have "yields (seq [get RAX al, emit [0x48, 0xF7, 0xD8]]) (\<lambda>s. Some (- home al s))"
    by (intro acts_yields [OF acts2 [OF acts_get acts_instr]])
      (auto simp: RAX_def Let_def flags_of_def set_reg_def agree_def kept_iff)
  then show ?thesis unfolding e by (rule changes_some [OF changes_put_last])
qed

section \<open>Integer arithmetic\<close>

fun alu_instr :: "bin_op \<Rightarrow> u8 \<Rightarrow> opnd \<Rightarrow> x86" where
  "alu_instr Op_Add rd x = Alu Add (Reg rd) x"
| "alu_instr Op_Sub rd x = Alu Sub (Reg rd) x"
| "alu_instr Op_Mul rd x = Imul rd x"
| "alu_instr Op_And rd x = Alu And (Reg rd) x"
| "alu_instr Op_Or rd x = Alu Or (Reg rd) x"
| "alu_instr Op_BitAnd rd x = Alu And (Reg rd) x"
| "alu_instr Op_BitOr rd x = Alu Or (Reg rd) x"
| "alu_instr Op_BitXor rd x = Alu Xor (Reg rd) x"
| "alu_instr _ rd x = Nop"

lemma decode_alu:
  assumes "alu_opcode op = Some ob" and "rd < 16" and "modrm_of (rex_fields True (8 \<le> rd) b) ms = Some (rd AND 7, x, length ms)"
  shows "decode_x86 (rex True (8 \<le> rd) b # ob @ ms) = Some (alu_instr op rd x, 1 + length ob + length ms)"
  using assms decode_modrm [where t = "[]" and ms = ms and w = True] decode_modrm_0f(1) [where t = "[]" and ms = ms and w = True]
  by (cases op) (auto simp: is_rm_opcode_def then_rm_def decode_rm_def ext_reg)

lemma exec_alu:
  assumes "alu_opcode op = Some ob"
  shows "\<exists>s' y. exec (alu_instr op rd x) s = Some s' \<and> bin_val op (regs s rd) (rd64 x s) = Some y
    \<and> regs s' = (regs s)(rd := y) \<and> mem s' = mem s"
  using assms by (cases op) (auto simp: Let_def alu_flags_def flags_of_def writes_back_def)

lemma acts_alu_reg:
  assumes "alu_opcode op = Some ob" and "rd < 16" and "rm < 16"
  shows "acts (seq [emit [rex True (8 \<le> rd) (8 \<le> rm)], emit ob, emit [modrm 3 rd rm]]) (exec (alu_instr op rd (Reg rm)))"
proof -
  let ?bs = "rex True (8 \<le> rd) (8 \<le> rm) # ob @ [modrm 3 rd rm]"
  have "seq [emit [rex True (8 \<le> rd) (8 \<le> rm)], emit ob, emit [modrm 3 rd rm]] = emit ?bs" by (simp add: fun_eq_iff)
  moreover have "decode_x86 ?bs = Some (alu_instr op rd (Reg rm), length ?bs)"
    using decode_alu [OF assms(1,2), of "8 \<le> rm" "[modrm 3 rd rm]" "Reg rm"] modrm_of_reg [of _ rd rm "[]"] assms(3) by (simp add: ext_reg)
  ultimately show ?thesis by (rule acts_emitI) simp
qed

lemma acts_operand:
  assumes "alu_opcode op = Some ob" and "rd < 16"
  shows "\<exists>x. acts (emit_operand ob bl rd) (exec (alu_instr op rd x)) \<and> (\<forall>s. rd64 x s = home bl s)"
proof (cases bl)
  case (In_Reg r)
  then show ?thesis using acts_alu_reg [OF assms, of "phys_id r"] by (auto simp: needs_rex_id)
next
  case (In_Slot k)
  let ?x = "Mem 5 None (scast (slot_disp k))" and ?bs = "rex True (8 \<le> rd) False # ob @ slot_bytes k (rd AND 7)"
  obtain m d where md: "slot_addr k (rd AND 7) = (m, d)" by fastforce
  have "emit_operand ob bl rd = emit ?bs" by (simp add: In_Slot md emit_slot [OF md] fun_eq_iff del: emit_emit) simp
  moreover have "decode_x86 ?bs = Some (alu_instr op rd ?x, length ?bs)"
    using decode_alu [OF assms, of False "slot_bytes k (rd AND 7)" ?x] modrm_of_slot [of "rex_fields True (8 \<le> rd) False" k "rd AND 7" "[]"]
    by simp
  ultimately have "acts (emit_operand ob bl rd) (exec (alu_instr op rd ?x))" by (rule acts_emitI) simp
  then show ?thesis by (intro exI [of _ ?x] conjI allI) (simp_all add: In_Slot slot_at_def)
qed

lemma home_set_reg: "bl \<noteq> In_Reg r \<Longrightarrow> home bl (set_reg (phys_id r) v s) = home bl s"
  by (cases bl) (auto simp: slot_at_def)

lemma home_set_scratch [simp]: "r \<notin> kept \<Longrightarrow> home bl (set_reg r v s) = home bl s"
  by (rule home_agree) (simp add: agree_set_scratch)

lemma changes_alu:
  assumes "alu_opcode op = Some ob"
  shows "changes (emit_alu ob dl al bl) (\<lambda>s. store_to dl (bin_val op (home al s) (home bl s)) s)"
proof (cases dl)
  case (In_Reg dr)
  show ?thesis
  proof (cases "bl = In_Reg dr")
    case True
    have "acts (emit_alu ob dl al bl) (\<lambda>s. exec (alu_instr op (phys_id dr) (Reg 11))
        (set_reg (phys_id dr) (home al (set_reg 11 (regs s (phys_id dr)) s)) (set_reg 11 (regs s (phys_id dr)) s)))"
      using acts_seq [OF acts_mov_rr [of R11b "phys_id dr"] acts_seq [OF acts_get [of "phys_id dr" al] acts_alu_reg [OF assms, of "phys_id dr" R11b]]]
      by (simp add: In_Reg True R11b_def)
    then show ?thesis
    proof (rule acts_changes)
      fix s t assume t: "store_to dl (bin_val op (home al s) (home bl s)) s = Some t"
      let ?s = "set_reg (phys_id dr) (home al (set_reg 11 (regs s (phys_id dr)) s)) (set_reg 11 (regs s (phys_id dr)) s)"
      obtain s' y where "exec (alu_instr op (phys_id dr) (Reg 11)) ?s = Some s'"
        "bin_val op (home al s) (home bl s) = Some y" "regs s' = (regs ?s)(phys_id dr := y)" "mem s' = mem ?s"
        using exec_alu [OF assms, of "phys_id dr" "Reg 11" ?s] by (auto simp: True)
      then show "\<exists>s'. exec (alu_instr op (phys_id dr) (Reg 11)) ?s = Some s' \<and> agree s' t"
        using t by (auto simp: store_to_def In_Reg agree_def set_reg_def kept_iff)
    qed
  next
    case False
    obtain x where x: "acts (emit_operand ob bl (phys_id dr)) (exec (alu_instr op (phys_id dr) x))" "\<And>s. rd64 x s = home bl s"
      using acts_operand [OF assms, of "phys_id dr" bl] by auto
    have "acts (emit_alu ob dl al bl) (\<lambda>s. exec (alu_instr op (phys_id dr) x) (set_reg (phys_id dr) (home al s) s))"
      using acts2 [OF acts_get [of "phys_id dr" al] x(1)] by (simp add: In_Reg False)
    then show ?thesis
    proof (rule acts_changes)
      fix s t assume t: "store_to dl (bin_val op (home al s) (home bl s)) s = Some t"
      let ?s = "set_reg (phys_id dr) (home al s) s"
      obtain s' y where "exec (alu_instr op (phys_id dr) x) ?s = Some s'"
        "bin_val op (home al s) (home bl s) = Some y" "regs s' = (regs ?s)(phys_id dr := y)" "mem s' = mem ?s"
        using exec_alu [OF assms, of "phys_id dr" x ?s] False by (auto simp: x(2) home_set_reg)
      then show "\<exists>s'. exec (alu_instr op (phys_id dr) x) ?s = Some s' \<and> agree s' t"
        using t by (auto simp: store_to_def In_Reg agree_def set_reg_def)
    qed
  qed
next
  case (In_Slot k)
  obtain x where x: "acts (emit_operand ob bl 0) (exec (alu_instr op 0 x))" "\<And>s. rd64 x s = home bl s"
    using acts_operand [OF assms, of 0 bl] by auto
  have "acts (seq [get RAX al, emit_operand ob bl RAX]) (\<lambda>s. exec (alu_instr op 0 x) (set_reg 0 (home al s) s))"
    using acts2 [OF acts_get [of RAX al] x(1)] by (simp add: RAX_def)
  then have "yields (seq [get RAX al, emit_operand ob bl RAX]) (\<lambda>s. bin_val op (home al s) (home bl s))"
  proof (rule acts_yields)
    fix s y assume "bin_val op (home al s) (home bl s) = Some y"
    then show "\<exists>s'. exec (alu_instr op 0 x) (set_reg 0 (home al s) s) = Some s' \<and> agree s' s \<and> regs s' 0 = y"
      using exec_alu [OF assms, of 0 x "set_reg 0 (home al s) s"] by (auto simp: x(2) agree_def kept_iff)
  qed
  then have "changes (seq ([get RAX al, emit_operand ob bl RAX] @ [put RAX dl])) (\<lambda>s. store_to dl (bin_val op (home al s) (home bl s)) s)"
    by (rule changes_put_last)
  then show ?thesis by (simp add: In_Slot)
qed

text \<open>Shifts count in \<open>cl\<close>, modulo 64.\<close>

lemma low_count: "unat (ucast (b :: u64) :: u8) mod 64 = unat b mod 64"
  by (simp add: unsigned_ucast_eq take_bit_eq_mod mod_mod_cancel)

lemma changes_shift:
  assumes "op = Op_Shl \<and> n = 4 \<or> op = Op_Shr \<and> n = 7 \<or> op = Op_ShrShr \<and> n = 5"
  shows "changes (emit_shift n dl al bl) (\<lambda>s. store_to dl (bin_val op (home al s) (home bl s)) s)"
proof -
  define f where "f = (if op = Op_Shl then Shl else if op = Op_Shr then Sar else Shr)"
  have d: "decode_x86 [0x48, 0xD3, modrm 3 n RAX] = Some (ShiftCl f (Reg 0), length [0x48, 0xD3, modrm 3 n RAX])"
    using assms by (auto simp: decode_simps modrm_def RAX_def f_def)
  have "acts (seq [get RAX al, get RCX bl, emit [0x48, 0xD3, modrm 3 n RAX]])
      (\<lambda>s. exec (ShiftCl f (Reg 0)) (set_reg 1 (home bl s) (set_reg 0 (home al s) s)))"
    by (intro acts_cong [OF acts3 [OF acts_get acts_get acts_instr [OF d]]]) (simp_all add: RAX_def RCX_def)
  moreover have "seq [get RAX al, get RCX bl, emit [0x48, 0xD3], emit [modrm 3 n RAX]] = seq [get RAX al, get RCX bl, emit [0x48, 0xD3, modrm 3 n RAX]]"
    by (simp add: fun_eq_iff)
  ultimately have "yields (seq [get RAX al, get RCX bl, emit [0x48, 0xD3], emit [modrm 3 n RAX]]) (\<lambda>s. bin_val op (home al s) (home bl s))"
    using assms by (auto elim!: acts_yields simp: do_shift_def Let_def low_count f_def shift_val_def agree_def kept_iff)
  then have "changes (seq ([get RAX al, get RCX bl, emit [0x48, 0xD3], emit [modrm 3 n RAX]] @ [put RAX dl]))
      (\<lambda>s. store_to dl (bin_val op (home al s) (home bl s)) s)"
    by (rule changes_put_last)
  then show ?thesis by (simp add: emit_shift_def)
qed

section \<open>Comparisons\<close>

text \<open>\<open>setcc al; movzx rax, al\<close>.\<close>

lemma bit_0xFF: "bit (0xFF :: u64) n \<longleftrightarrow> n < 8"
proof -
  have "(0xFF :: u64) = mask 8" by (simp add: mask_eq_exp_minus_1)
  then show ?thesis by (simp only: bit_mask_iff) auto
qed

lemma low_byte_set: "ucast ((x AND NOT 0xFF) OR ucast (b :: u8) :: u64) = b"
proof -
  have *: "ucast ((x AND NOT m) OR ucast b) = b" if "\<And>n. n < 8 \<Longrightarrow> bit m n" for m :: u64
    by (rule bit_word_eqI) (auto simp: bit_simps that)
  show ?thesis by (rule *) (simp only: bit_0xFF)
qed

definition flag_to_rax :: "u8 \<Rightarrow> mstate \<Rightarrow> mstate" where
  "flag_to_rax cc s = set_reg 0 (truth (cond cc s)) s"

lemma acts_setcc:
  assumes "cc < 16"
  shows "acts (seq [emit [0x0F, 0x90 OR cc, 0xC0], emit [0x48, 0x0F, 0xB6, 0xC0]]) (\<lambda>s. Some (flag_to_rax cc s))"
proof -
  have "unat cc < 16" using assms by (simp add: word_less_nat_alt)
  then have "unat cc \<in> {0, 1, 2, 3, 4, 5, 6, 7, 8, 9, 10, 11, 12, 13, 14, 15}" by (simp add: numeral_eq_Suc less_Suc_eq)
  then have "cc \<in> of_nat ` {0, 1, 2, 3, 4, 5, 6, 7, 8, 9, 10, 11, 12, 13, 14, 15}"
    by (intro image_eqI [where x = "unat cc"]) simp_all
  then have d: "decode_x86 [0x0F, 0x90 OR cc, 0xC0] = Some (Setcc cc (Reg 0), length [0x0F, 0x90 OR cc, 0xC0])"
    by (auto simp: decode_simps)
  have e: "decode_x86 [0x48, 0x0F, 0xB6, 0xC0] = Some (Movzx8 0 (Reg 0), length [0x48, 0x0F, 0xB6, 0xC0 :: u8])"
    by (simp add: decode_simps)
  show ?thesis
    by (rule acts_cong [OF acts2 [OF acts_instr [OF d] acts_instr [OF e]]])
      (simp add: flag_to_rax_def truth_def low_byte_set [where b = 0, simplified] low_byte_set [where b = 1, simplified] set_reg_def)
qed

lemma acts_cmp_operand:
  "\<exists>x. acts (case bl of In_Reg br \<Rightarrow> seq [emit [rex True False (needs_rex br), 0x3B], emit [modrm 3 RAX (phys_id br)]]
      | In_Slot ks \<Rightarrow> (case slot_addr ks RAX of (m, d) \<Rightarrow> seq [emit [rex True False False, 0x3B], emit [m], emit_disp d]))
     (exec (Alu Cmp (Reg 0) x)) \<and> (\<forall>s. rd64 x s = home bl s)"
proof -
  have d: "decode_x86 (rex True False b # 0x3B # ms) = Some (Alu Cmp (Reg 0) x, length (rex True False b # 0x3B # ms))"
    if "modrm_of (rex_fields True False b) ms = Some (0, x, length ms)" for b ms x
    using decode_modrm [where op = "0x3B" and t = "[]" and ms = ms] that by (simp add: is_rm_opcode_def then_rm_def decode_rm_def ext_def)
  show ?thesis
  proof (cases bl)
    case (In_Reg r)
    let ?ms = "[modrm 3 0 (phys_id r)]"
    have "acts (emit (rex True False (needs_rex r) # 0x3B # ?ms)) (exec (Alu Cmp (Reg 0) (Reg (phys_id r))))"
      using modrm_of_reg [of "rex_fields True False (needs_rex r)" 0 "phys_id r" "[]"]
      by (intro acts_instr d) (simp add: needs_rex_id ext_reg)
    moreover have "seq [emit [rex True False (needs_rex r), 0x3B], emit [modrm 3 RAX (phys_id r)]] = emit (rex True False (needs_rex r) # 0x3B # ?ms)"
      by (simp add: fun_eq_iff RAX_def)
    ultimately show ?thesis by (intro exI [of _ "Reg (phys_id r)"]) (simp add: In_Reg)
  next
    case (In_Slot k)
    let ?x = "Mem 5 None (scast (slot_disp k))"
    obtain m d where md: "slot_addr k RAX = (m, d)" by fastforce
    have "acts (emit (rex True False False # 0x3B # slot_bytes k RAX)) (exec (Alu Cmp (Reg 0) ?x))"
      using modrm_of_slot [of "rex_fields True False False" k RAX "[]"] by (intro acts_instr d) (simp add: RAX_def)
    moreover have "seq [emit [rex True False False, 0x3B], emit [m], emit_disp d] = emit (rex True False False # 0x3B # slot_bytes k RAX)"
      by (simp add: emit_slot [OF md] fun_eq_iff del: emit_emit) simp
    ultimately show ?thesis by (intro exI [of _ ?x] conjI allI) (simp_all add: In_Slot md slot_at_def)
  qed
qed

lemma cmp_cond: "cond (cmp_setcc op AND 0x0F) (alu_flags Cmp a b s) = cmp_holds op a b"
proof -
  define P where "P \<longleftrightarrow> sint (a - b) < 0"
  define Q where "Q \<longleftrightarrow> sint (a - b) \<noteq> sint a - sint b"
  have L: "(P \<noteq> Q) = (sint a < sint b)" unfolding P_def Q_def by (rule signed_less_flags)
  have f: "zf (alu_flags Cmp a b s) = (a = b)" "sf (alu_flags Cmp a b s) = P" "ofl (alu_flags Cmp a b s) = Q"
    by (simp_all add: alu_flags_def flags_of_def alu_overflow_def P_def Q_def)
  have "sint a = sint b \<longleftrightarrow> a = b" by (auto intro: signed_word_eqI)
  then show ?thesis using L by (cases op) (auto simp: cond_def f)
qed

lemma changes_cmp: "changes (cmp op dl al bl) (\<lambda>s. Some (set_home dl (truth (cmp_holds op (home al s) (home bl s))) s))"
proof -
  let ?cc = "cmp_setcc op AND 0x0F"
  obtain f x where f: "f = (case bl of In_Reg br \<Rightarrow> seq [emit [rex True False (needs_rex br), 0x3B], emit [modrm 3 RAX (phys_id br)]]
      | In_Slot ks \<Rightarrow> (case slot_addr ks RAX of (m, d) \<Rightarrow> seq [emit [rex True False False, 0x3B], emit [m], emit_disp d]))"
    and x: "acts f (exec (Alu Cmp (Reg 0) x))" "\<And>s. rd64 x s = home bl s"
    using acts_cmp_operand [of bl] by blast
  let ?set = "seq [emit [0x0F, cmp_setcc op, 0xC0], emit [rex True False False, 0x0F, 0xB6, modrm 3 RAX RAX]]"
  have "?set = seq [emit [0x0F, 0x90 OR ?cc, 0xC0], emit [0x48, 0x0F, 0xB6, 0xC0]]"
    by (cases op) (simp_all add: rex_def modrm_def RAX_def)
  moreover have "?cc < 16" by (cases op) (simp_all add: word_less_nat_alt)
  ultimately have set: "acts ?set (\<lambda>s. Some (flag_to_rax ?cc s))" using acts_setcc [of ?cc] by simp
  have "acts (seq [get RAX al, f, ?set]) (\<lambda>s. Some (flag_to_rax ?cc
      (alu_flags Cmp (home al s) (home bl s) (set_reg 0 (home al s) s))))"
    by (rule acts_cong, rule acts3 [OF acts_get x(1) set]) (simp_all add: RAX_def Let_def x(2) writes_back_def)
  moreover have "seq [get RAX al, f, emit [0x0F, cmp_setcc op, 0xC0], emit [rex True False False, 0x0F, 0xB6, modrm 3 RAX RAX]] = seq [get RAX al, f, ?set]"
    by (simp add: fun_eq_iff)
  ultimately have "yields (seq [get RAX al, f, emit [0x0F, cmp_setcc op, 0xC0], emit [rex True False False, 0x0F, 0xB6, modrm 3 RAX RAX]])
      (\<lambda>s. Some (truth (cmp_holds op (home al s) (home bl s))))"
    by (auto elim!: acts_yields simp: flag_to_rax_def cmp_cond) (simp_all add: agree_def kept_iff alu_flags_def flags_of_def)
  then have "changes (seq ([get RAX al, f, emit [0x0F, cmp_setcc op, 0xC0], emit [rex True False False, 0x0F, 0xB6, modrm 3 RAX RAX]] @ [put RAX dl]))
      (\<lambda>s. Some (set_home dl (truth (cmp_holds op (home al s) (home bl s))) s))"
    by (intro changes_some changes_put_last)
  then show ?thesis by (simp add: cmp_def f)
qed

section \<open>Negation of a floating-point number\<close>

lemma changes_fneg: "changes (emit_fneg dl al) (\<lambda>s. Some (set_home dl (home al s XOR 0x8000000000000000) s))"
proof -
  let ?m = "[0x48, 0xB9, 0, 0, 0, 0, 0, 0, 0, 0x80] :: bytes"
  have d: "decode_x86 ?m = Some (MovImm (Reg 1) 0x8000000000000000, length ?m)"
    "decode_x86 [0x48, 0x31, 0xC8] = Some (Alu Xor (Reg 0) (Reg 1), length [0x48, 0x31, 0xC8 :: u8])"
    by (simp_all add: decode_simps)
  have "acts (seq [get RAX al, emit ?m, emit [0x48, 0x31, 0xC8]]) (\<lambda>s. exec (Alu Xor (Reg 0) (Reg 1))
      (set_reg 1 0x8000000000000000 (set_reg 0 (home al s) s)))"
    by (rule acts_cong, rule acts3 [OF acts_get acts_instr [OF d(1)] acts_instr [OF d(2)]]) (simp_all add: RAX_def set_reg_def Let_def)
  moreover have "seq [get RAX al, emit [0x48, 0xB9], emit [0, 0, 0, 0, 0, 0, 0, 0x80], emit [0x48, 0x31, 0xC8]]
      = seq [get RAX al, emit ?m, emit [0x48, 0x31, 0xC8]]"
    by (simp add: fun_eq_iff)
  ultimately have "yields (seq [get RAX al, emit [0x48, 0xB9], emit [0, 0, 0, 0, 0, 0, 0, 0x80], emit [0x48, 0x31, 0xC8]])
      (\<lambda>s. Some (home al s XOR 0x8000000000000000))"
    by (auto elim!: acts_yields simp: Let_def alu_flags_def flags_of_def writes_back_def) (auto simp: agree_def kept_iff)
  then have "changes (seq ([get RAX al, emit [0x48, 0xB9], emit [0, 0, 0, 0, 0, 0, 0, 0x80], emit [0x48, 0x31, 0xC8]] @ [put RAX dl]))
      (\<lambda>s. Some (set_home dl (home al s XOR 0x8000000000000000) s))"
    by (intro changes_some changes_put_last)
  then show ?thesis by (simp add: emit_fneg_def)
qed

section \<open>Fields\<close>

text \<open>The operand \<open>[r10 + d]\<close>.\<close>

definition field_bytes :: "u8 \<Rightarrow> i32 \<Rightarrow> bytes" where
  "field_bytes r d = (if small_disp d then [modrm 1 r 2, ucast d] else modrm 2 r 2 # le32 d)"

lemma modrm_of_field:
  assumes "rx_b rx"
  shows "modrm_of rx (field_bytes r d @ t) = Some (r AND 7, Mem 10 None (scast d), length (field_bytes r d))"
  using assms modrm_of_short [of 2 rx r "ucast d" t] modrm_of_long [of 2 rx r d t]
  by (auto simp: field_bytes_def small_disp_def sx8_ucast ext_def)

lemma acts_field_load: "r < 16 \<Longrightarrow> acts (field_load r d) (\<lambda>s. Some (set_reg r (ld64 (mem s) (regs s 10 + scast d)) s))"
proof -
  assume r: "r < 16"
  let ?bs = "rex True (8 \<le> r) True # 0x8B # field_bytes r d"
  have "field_load r d = emit ?bs" by (simp add: field_load_def field_bytes_def imm32_def fun_eq_iff)
  moreover have "decode_x86 ?bs = Some (Mov (Reg r) (Mem 10 None (scast d)), length ?bs)"
    using decode_mov(2) [of "8 \<le> r" True "field_bytes r d"] modrm_of_field [where t = "[]"] r by (simp add: ext_reg)
  ultimately show ?thesis by (rule acts_emitI) (simp add: set_reg_def)
qed

lemma acts_field_load_byte: "r < 16 \<Longrightarrow> acts (field_load_byte r d) (\<lambda>s. Some (set_reg r (ucast (mem s (regs s 10 + scast d))) s))"
proof -
  assume r: "r < 16"
  let ?bs = "rex True (8 \<le> r) True # 0x0F # 0xB6 # field_bytes r d"
  have "field_load_byte r d = emit ?bs" by (simp add: field_load_byte_def field_bytes_def imm32_def fun_eq_iff)
  moreover have "decode_x86 ?bs = Some (Movzx8 r (Mem 10 None (scast d)), length ?bs)"
    using decode_modrm_0f(2) [of True "8 \<le> r" True "field_bytes r d" "[]"] modrm_of_field [where t = "[]"] r by (simp add: ext_reg)
  ultimately show ?thesis by (rule acts_emitI) simp
qed

lemma acts_field_store: "acts (field_store d) (\<lambda>s. Some (s\<lparr>mem := st64 (mem s) (regs s 10 + scast d) (regs s 11)\<rparr>))"
proof -
  let ?bs = "rex True True True # 0x89 # field_bytes R11b d"
  have "field_store d = emit ?bs" by (simp add: field_store_def field_bytes_def imm32_def fun_eq_iff)
  moreover have "decode_x86 ?bs = Some (Mov (Mem 10 None (scast d)) (Reg 11), length ?bs)"
    using decode_mov(1) [of True True "field_bytes R11b d"] modrm_of_field [of "rex_fields True True True" R11b d "[]"]
    by (simp add: R11b_def ext_def)
  ultimately show ?thesis by (rule acts_emitI) simp
qed

text \<open>A load into a register goes there directly, one into a slot by way of \<open>rax\<close>.\<close>

lemma changes_load:
  assumes "\<And>r. r < 16 \<Longrightarrow> acts (ld r) (\<lambda>s. Some (set_reg r (v s) s))"
    and "\<And>s x. v (set_reg 10 x s) = w x s" and "\<And>s s'. agree s s' \<Longrightarrow> w x s = w x s'"
  shows "changes (seq [get R10b bl, (case dl of In_Reg r \<Rightarrow> ld (phys_id r) | In_Slot k \<Rightarrow> seq [ld RAX, store_slot k RAX])])
    (\<lambda>s. Some (set_home dl (w (home bl s) s) s))"
proof (cases dl)
  case (In_Reg r)
  have "acts (seq [get R10b bl, ld (phys_id r)]) (\<lambda>s. Some (set_reg (phys_id r) (w (home bl s) s) (set_reg 10 (home bl s) s)))"
    using acts2_total [OF acts_get [of R10b bl] assms(1) [of "phys_id r"]] by (simp add: R10b_def assms(2))
  then have "changes (seq [get R10b bl, ld (phys_id r)]) (\<lambda>s. Some (set_home dl (w (home bl s) s) s))"
    by (rule acts_changes_total) (auto simp: In_Reg agree_def kept_iff)
  then show ?thesis by (simp add: In_Reg)
next
  case (In_Slot k)
  have "acts (seq [get R10b bl, ld RAX, store_slot k RAX]) (\<lambda>s. Some (set_home dl (w (home bl s) s)
      (set_reg 0 (w (home bl s) s) (set_reg 10 (home bl s) s))))"
    using acts3_total [OF acts_get [of R10b bl] assms(1) [of RAX] acts_store_slot [of RAX k]]
    by (simp add: In_Slot R10b_def RAX_def assms(2))
  moreover have "seq [get R10b bl, seq [ld RAX, store_slot k RAX]] = seq [get R10b bl, ld RAX, store_slot k RAX]" by (simp add: fun_eq_iff)
  ultimately have "changes (seq [get R10b bl, seq [ld RAX, store_slot k RAX]]) (\<lambda>s. Some (set_home dl (w (home bl s) s) s))"
    by simp (erule acts_changes_total, auto intro: set_home_agree simp: agree_set_scratch)
  then show ?thesis by (simp add: In_Slot)
qed

lemma changes_load_field: "changes (emit_load_field dl bl d) (\<lambda>s. Some (set_home dl (ld64 (mem s) (home bl s + scast d)) s))"
  using changes_load [OF acts_field_load, where w = "\<lambda>x s. ld64 (mem s) (x + scast d)"]
  by (simp add: emit_load_field_def agree_def)

lemma changes_load_byte: "changes (emit_load_byte dl bl d) (\<lambda>s. Some (set_home dl (ucast (mem s (home bl s + scast d))) s))"
  using changes_load [OF acts_field_load_byte, where w = "\<lambda>x s. ucast (mem s (x + scast d))"]
  by (simp add: emit_load_byte_def agree_def)

lemma changes_store_field:
  "changes (emit_store_field bl d sl) (\<lambda>s. Some (s\<lparr>mem := st64 (mem s) (home bl s + scast d) (home sl s)\<rparr>))"
proof -
  have "acts (emit_store_field bl d sl) (\<lambda>s. Some ((set_reg 11 (home sl s) (set_reg 10 (home bl s) s))
      \<lparr>mem := st64 (mem s) (home bl s + scast d) (home sl s)\<rparr>))"
    using acts3_total [OF acts_get [of R10b bl] acts_get [of R11b sl] acts_field_store [of d]]
    by (simp add: emit_store_field_def R10b_def R11b_def)
  then show ?thesis by (rule acts_changes_total) (auto simp: agree_def kept_iff)
qed

lemma changes_resume: "changes (emit_resume dl al) (\<lambda>s. Some (set_home dl (home al s) s))"
proof (cases dl)
  case (In_Reg r)
  have "acts (emit_resume dl al) (\<lambda>s. Some (set_home dl (home al s) s))"
    using acts_get [of "phys_id r" al] by (simp add: emit_resume_def In_Reg)
  then show ?thesis by (rule acts_changes_total) simp
next
  case (In_Slot k)
  have "acts (emit_resume dl al) (\<lambda>s. Some (set_home dl (home al s) (set_reg 0 (home al s) s)))"
    using acts2_total [OF acts_get [of RAX al] acts_store_slot [of RAX k]] by (simp add: emit_resume_def In_Slot RAX_def)
  then show ?thesis by (rule acts_changes_total) (auto intro: set_home_agree simp: agree_set_scratch)
qed

lemma changes_nop: "changes (emit [0x90]) Some"
proof -
  have "decode_x86 [0x90] = Some (Nop, length [0x90 :: u8])" by (simp add: decode_simps)
  then have "acts (emit [0x90]) (exec Nop)" by (rule acts_instr)
  then show ?thesis by (rule acts_changes) simp
qed

end
