(* ===== verification/Select_Loops.thy ===== *)
theory Select_Loops
  imports Select_Correct
begin

text \<open>
  The arms of instruction selection with jumps inside: division, which tests for a zero divisor, and the
  byte loops of copying and comparing memory.
\<close>

section \<open>Fixed code inside a larger code\<close>

lemma code_at_step:
  assumes "code_at c ip bs" and "(k, i, n) \<in> set (disassemble fuel 0 bs)"
  shows "step sys c (ip + k, s) = step_at sys i (ip + k + n) s"
proof -
  obtain post where p: "drop ip c = bs @ post" using assms(1) by (auto simp: code_at_def)
  have d: "decode_x86 (drop k bs) = Some (i, n)" using disassemble_range [OF assms(2)] by simp
  then have "k < length bs" by (cases "k < length bs") (simp_all add: decode_x86_def)
  have "drop (ip + k) c = drop k (drop ip c)" by (simp add: add.commute)
  also have "\<dots> = drop k bs @ post" using \<open>k < length bs\<close> by (simp add: p)
  finally show ?thesis by (simp add: step_def decode_append [OF d])
qed

text \<open>The step equations of fixed bytes placed at \<open>ip\<close>.\<close>

lemma code_at_listing:
  "code_at c ip bs \<Longrightarrow> disassemble fuel 0 bs = ls \<Longrightarrow>
   list_all (\<lambda>(k, i, n). step sys c (ip + k, s) = step_at sys i (ip + k + n) s) ls"
  unfolding list_all_iff using code_at_step by fastforce

lemma steps_next: "step sys c (ip, s) = Some (Next ip', s') \<Longrightarrow> steps sys c (ip', s') cfg \<Longrightarrow> steps sys c (ip, s) cfg"
  by (rule steps_step)

lemma jump_ahead [simp]: "jump_to at (numeral k) = Some (Next (at + numeral k))"
  by (simp add: jump_to_def nat_add_distrib add_nonneg_nonneg not_less)

lemma agree_set_mem [simp]: "r \<notin> kept \<Longrightarrow> agree t ((set_reg r v s)\<lparr>mem := m\<rparr>) \<longleftrightarrow> agree t (s\<lparr>mem := m\<rparr>)"
  by (auto simp: agree_def set_reg_def)

lemma byte_through [simp]: "ucast (ucast (b :: u8) :: u64) = b"
  by (rule bit_word_eqI) (auto simp: bit_simps)

lemma runs_fixed: "length bs = n \<Longrightarrow> (\<And>sys c ip. code_at c ip bs \<Longrightarrow> steps sys c (ip, s) (ip + n, s')) \<Longrightarrow> runs bs s s'"
  by (simp add: runs_def)

section \<open>Fixed code after loads of the operands\<close>

lemma changes_after:
  assumes "acts f (\<lambda>s. Some (a s))" and "\<And>s t. g s = Some t \<Longrightarrow> \<exists>s'. runs bs (a s) s' \<and> agree s' t"
  shows "changes (\<lambda>e. emit bs (f e)) g"
proof -
  obtain b where b: "f = emit b" "\<And>s. runs b s (a s)" using assms(1) by (auto simp: acts_def)
  have "\<exists>s'. runs (b @ bs) s s' \<and> agree s' t" if "g s = Some t" for s t
    using assms(2) [OF that] runs_append [OF b(2)] by blast
  then show ?thesis unfolding changes_def by (intro exI [of _ "b @ bs"]) (simp add: b(1))
qed

lemma yields_after:
  assumes "acts f (\<lambda>s. Some (a s))" and "\<And>s x. v s = Some x \<Longrightarrow> \<exists>s'. runs bs (a s) s' \<and> agree s' s \<and> regs s' 0 = x"
  shows "yields (\<lambda>e. emit bs (f e)) v"
proof -
  obtain b where b: "f = emit b" "\<And>s. runs b s (a s)" using assms(1) by (auto simp: acts_def)
  have "\<exists>s'. runs (b @ bs) s s' \<and> agree s' s \<and> regs s' 0 = x" if "v s = Some x" for s x
    using assms(2) [OF that] runs_append [OF b(2)] by blast
  then show ?thesis unfolding yields_def by (intro exI [of _ "b @ bs"]) (simp add: b(1))
qed

section \<open>Division\<close>

definition div_bytes :: "bool \<Rightarrow> bool \<Rightarrow> bytes" where
  "div_bytes uns rema = [0x4D, 0x85, 0xDB, 0x74, 0x07] @
     (if uns then [0x31, 0xD2, 0x49, 0xF7, 0xF3] else [0x48, 0x99, 0x49, 0xF7, 0xFB]) @ [0xEB, 0x02] @
     (if rema then [0x31, 0xD2] else [0x31, 0xC0])"

lemma here_emit [simp]: "here (emit bs e) = here e + length bs"
  by (simp add: here_def emit_def)

lemma patch_emitted: "at = here e \<Longrightarrow> patch_short at v (emit (b # b' # bs) e) = emit (b # v # bs) e"
  by (simp add: patch_short_def emit_def here_def list_update_append)

lemma short_disp_ahead: "short_disp at (at + (n + 2)) = of_nat n"
  by (simp add: short_disp_def)

text \<open>A two-byte jump over \<open>a\<close> and a jump behind it, both patched.\<close>

lemma patched_branch:
  assumes "e2 = emit [0x74, 0x00] e1" and "e3 = emit a e2" and "e4 = emit [0xEB, 0x00] e3"
    and "e5 = patch_short (here e1) (short_disp (here e1) (here e4)) e4" and "e6 = emit b e5"
    and "e7 = patch_short (here e3) (short_disp (here e3) (here e6)) e6"
  shows "e7 = emit ([0x74, of_nat (length a + 2)] @ a @ [0xEB, of_nat (length b)] @ b) e1"
proof -
  have h4: "here e4 = here e1 + ((length a + 2) + 2)" by (simp add: assms(1-3))
  have "e4 = emit (0x74 # 0x00 # a @ [0xEB, 0x00]) e1" by (simp add: assms(1-3))
  then have e5: "e5 = emit (0x74 # of_nat (length a + 2) # a @ [0xEB, 0x00]) e1"
    unfolding assms(4) h4 short_disp_ahead by (simp add: patch_emitted)
  define e where "e = emit (0x74 # of_nat (length a + 2) # a) e1"
  have e6: "e6 = emit (0xEB # 0x00 # b) e" by (simp add: assms(5) e5 e_def)
  have h3: "here e3 = here e" by (simp add: assms(1,2) e_def)
  have h6: "here e6 = here e + (length b + 2)" by (simp add: e6)
  have "e7 = emit (0xEB # of_nat (length b) # b) e"
    unfolding assms(6) h3 h6 short_disp_ahead by (simp add: e6 patch_emitted)
  then show ?thesis by (simp add: e_def)
qed

lemma emit_div_bytes:
  assumes "uns \<longleftrightarrow> op = Op_UDiv \<or> op = Op_URem" and "rema \<longleftrightarrow> op = Op_Rem \<or> op = Op_URem"
  shows "emit_div op dl al bl =
     seq [get RAX al, get R11b bl, emit (div_bytes uns rema), if rema then put 2 dl else put RAX dl]"
proof (rule ext)
  fix e0
  define e1 where "e1 = emit [0x4D, 0x85, modrm 3 R11b R11b] (get R11b bl (get RAX al e0))"
  define e2 where "e2 = emit [0x74, 0x00] e1"
  define a :: bytes where "a = (if uns then [0x31, 0xD2, 0x49, 0xF7, 0xF3] else [0x48, 0x99, 0x49, 0xF7, 0xFB])"
  define e3 where "e3 = (if uns then seq [emit [0x31, 0xD2], emit [rex True False True, 0xF7, modrm 3 6 R11b]]
                else seq [emit [0x48, 0x99], emit [rex True False True, 0xF7, modrm 3 7 R11b]]) e2"
  define e4 where "e4 = emit [0xEB, 0x00] e3"
  define e5 where "e5 = patch_short (here e1) (short_disp (here e1) (here e4)) e4"
  define b :: bytes where "b = (if rema then [0x31, 0xD2] else [0x31, 0xC0])"
  define e6 where "e6 = emit b e5"
  define e7 where "e7 = patch_short (here e3) (short_disp (here e3) (here e6)) e6"
  have e3': "e3 = emit a e2" by (simp add: e3_def a_def rex_def modrm_def R11b_def)
  have "e7 = emit ([0x74, of_nat (length a + 2)] @ a @ [0xEB, of_nat (length b)] @ b) e1"
    by (rule patched_branch [OF e2_def e3' e4_def e5_def e6_def e7_def])
  moreover have "length a = 5" "length b = 2" by (simp_all add: a_def b_def)
  moreover have "modrm 3 R11b R11b = 0xDB" by (simp add: modrm_def R11b_def)
  ultimately have e7: "e7 = emit (div_bytes uns rema) (get R11b bl (get RAX al e0))"
    by (simp add: e1_def div_bytes_def flip: a_def b_def)
  have "emit_div op dl al bl e0 = (if rema then (case dl of In_Reg dr \<Rightarrow> mov_rr (phys_id dr) 2 | In_Slot k \<Rightarrow> store_slot k 2) e7 else put RAX dl e7)"
    unfolding emit_div_def Let_def assms [symmetric] e7_def e6_def e5_def e4_def e3_def e2_def e1_def b_def
    by (cases rema) (simp_all only: if_True if_False)
  then show "emit_div op dl al bl e0 = seq [get RAX al, get R11b bl, emit (div_bytes uns rema), if rema then put 2 dl else put RAX dl] e0"
    by (cases dl) (simp_all add: e7)
qed

definition div_list :: "bool \<Rightarrow> bool \<Rightarrow> (nat \<times> x86 \<times> nat) list" where
  "div_list uns rema = [(0, Alu Test (Reg 11) (Reg 11), 3), (3, Jcc 4 7, 2)] @
     (if uns then [(5, Alu32 Xor (Reg 2) (Reg 2), 2), (7, Div (Reg 11), 3)] else [(5, Cqo, 2), (7, Idiv (Reg 11), 3)]) @
     [(10, Jmp 2, 2), (12, Alu32 Xor (Reg (if rema then 2 else 0)) (Reg (if rema then 2 else 0)), 2)]"

lemma div_listing: "disassemble 6 0 (div_bytes uns rema) = div_list uns rema"
  by (cases uns; cases rema) (simp_all add: div_bytes_def div_list_def decode_simps)

lemma exec_div:
  assumes "regs s 2 = 0" and "regs s 11 \<noteq> 0"
  shows "exec (Div (Reg 11)) s = Some (set_reg 2 (regs s 0 mod regs s 11) (set_reg 0 (regs s 0 div regs s 11) s))"
proof -
  have p: "0 < uint (regs s 11)" using assms(2) by (simp only: word_neq_0_conv word_less_def unsigned_0)
  have "uint (regs s 0) div uint (regs s 11) \<le> uint (regs s 0) div 1" using p by (intro zdiv_mono2) simp_all
  also have "\<dots> = uint (regs s 0)" by simp
  also have "\<dots> < 2 ^ 64" using uint_lt2p [of "regs s 0"] by simp
  finally have "uint (regs s 0) div uint (regs s 11) < 2 ^ 64" .
  moreover have "of_int (uint (regs s 0) div uint (regs s 11)) = regs s 0 div regs s 11"
    "of_int (uint (regs s 0) mod uint (regs s 11)) = regs s 0 mod regs s 11"
    by (simp_all flip: uint_div uint_mod)
  ultimately show ?thesis using p assms(1) by (simp add: Let_def)
qed

lemma sign_extended: "sint (if sint x < 0 then 0xFFFFFFFFFFFFFFFF else 0 :: u64) * 2 ^ 64 + uint x = sint (x :: u64)"
proof -
  have "uint x = sint x mod 2 ^ 64" by (simp add: uint_sint take_bit_eq_mod)
  moreover have "sint x mod 2 ^ 64 = (if sint x < 0 then sint x + 2 ^ 64 else sint x)"
  proof (cases "sint x < 0")
    case True
    have "sint x mod 2 ^ 64 = (sint x + 2 ^ 64) mod 2 ^ 64" by simp
    also have "\<dots> = sint x + 2 ^ 64" using True sint_ge [of x] by (intro mod_pos_pos_trivial) simp_all
    finally show ?thesis using True by simp
  next
    case False
    then show ?thesis using sint_lt [of x] by (simp add: mod_pos_pos_trivial)
  qed
  ultimately show ?thesis by simp
qed

lemma quot_bounds:
  assumes "b \<noteq> 0" and "- (2 ^ 63) \<le> a" and "a < 2 ^ 63" and "\<not> (a = - (2 ^ 63) \<and> b = - 1)"
  shows "- (2 ^ 63) \<le> quot a b" "quot a b < 2 ^ 63"
proof -
  have "\<bar>a\<bar> div \<bar>b\<bar> \<le> \<bar>a\<bar> div 1" using assms(1) by (intro zdiv_mono2) simp_all
  then have le: "\<bar>a\<bar> div \<bar>b\<bar> \<le> \<bar>a\<bar>" by simp
  have nn: "0 \<le> \<bar>a\<bar> div \<bar>b\<bar>" using assms(1) by (simp add: pos_imp_zdiv_nonneg_iff)
  have s: "sgn a * sgn b \<in> {- 1, 0, 1}" by (simp add: sgn_if)
  show "- (2 ^ 63) \<le> quot a b" using s le nn assms(2,3) by (auto simp: quot_def)
  show "quot a b < 2 ^ 63"
  proof (cases "\<bar>a\<bar> < 2 ^ 63")
    case True
    then show ?thesis using s le nn by (auto simp: quot_def)
  next
    case False
    then have a: "a = - (2 ^ 63)" using assms(2,3) by linarith
    then have b: "b \<noteq> - 1" using assms(4) by simp
    show ?thesis
    proof (cases "0 < b")
      case True
      then show ?thesis using nn by (simp add: quot_def a)
    next
      case False
      then have "2 \<le> \<bar>b\<bar>" using b assms(1) by linarith
      then have "\<bar>a\<bar> div \<bar>b\<bar> \<le> \<bar>a\<bar> div 2" by (intro zdiv_mono2) simp_all
      also have "\<dots> < 2 ^ 63" by (simp add: a)
      finally show ?thesis using s nn by (auto simp: quot_def)
    qed
  qed
qed

lemma exec_idiv:
  assumes "regs s 2 = (if sint (regs s 0) < 0 then 0xFFFFFFFFFFFFFFFF else 0)" and "regs s 11 \<noteq> 0"
    and "\<not> (sint (regs s 0) = - (2 ^ 63) \<and> sint (regs s 11) = - 1)"
  shows "exec (Idiv (Reg 11)) s = Some (set_reg 2 (of_int (remn (sint (regs s 0)) (sint (regs s 11))))
      (set_reg 0 (of_int (quot (sint (regs s 0)) (sint (regs s 11)))) s))"
proof -
  have n: "sint (regs s 2) * 2 ^ 64 + uint (regs s 0) = sint (regs s 0)" by (simp only: assms(1) sign_extended)
  have d: "sint (regs s 11) \<noteq> 0" using assms(2) by (metis signed_word_eqI sint_0)
  have "- (2 ^ 63) \<le> quot (sint (regs s 0)) (sint (regs s 11))" "quot (sint (regs s 0)) (sint (regs s 11)) < 2 ^ 63"
    using quot_bounds [OF d _ _ assms(3)] sint_ge [of "regs s 0"] sint_lt [of "regs s 0"] by simp_all
  then show ?thesis using d n by (simp add: Let_def)
qed

text \<open>The quotient, or the remainder.\<close>

definition div_val :: "bool \<Rightarrow> bool \<Rightarrow> u64 \<Rightarrow> u64 \<Rightarrow> u64 option" where
  "div_val uns rema a b =
     (if uns then Some (if b = 0 then 0 else if rema then a mod b else a div b)
      else if rema then signed_rem a b else signed_div a b)"

lemma div_runs:
  assumes v: "div_val uns rema (regs s 0) (regs s 11) = Some x"
  shows "\<exists>s'. runs (div_bytes uns rema) s s' \<and> agree s' s \<and> regs s' (if rema then 2 else 0) = x"
proof -
  let ?a = "regs s 0" and ?b = "regs s 11" and ?r = "if rema then 2 else 0 :: u8"
  have len: "length (div_bytes uns rema) = 14" by (simp add: div_bytes_def)
  define t where "t = alu_flags Test ?b ?b s"
  have t: "regs t = regs s" "mem t = mem s" "zf t \<longleftrightarrow> ?b = 0" by (simp_all add: t_def alu_flags_def flags_of_def)
  have at: "step sys c (ip + k, s) = step_at sys i (ip + k + n) s"
    if "code_at c ip (div_bytes uns rema)" "(k, i, n) \<in> set (div_list uns rema)" for sys c ip k i n s
    using that unfolding div_listing [symmetric] by (rule code_at_step)
  have start: "step sys c (ip, s) = Some (Next (ip + 3), t)" if c: "code_at c ip (div_bytes uns rema)" for sys c ip
    using at [OF c, of 0 "Alu Test (Reg 11) (Reg 11)" 3] by (simp add: div_list_def t_def writes_back_def)
  show ?thesis
  proof (cases "?b = 0")
    case True
    define s' where "s' = alu_flags Xor (ucast (regs t ?r) :: u32) (ucast (regs t ?r)) (set_reg ?r 0 t)"
    have "steps sys c (ip, s) (ip + 14, s')" if c: "code_at c ip (div_bytes uns rema)" for sys c ip
    proof -
      have 1: "step sys c (ip + 3, t) = Some (Next (ip + 12), t)"
        using at [OF c, of 3 "Jcc 4 7" 2] True t(3) by (simp add: div_list_def cond_def)
      have 2: "step sys c (ip + 12, t) = Some (Next (ip + 14), s')"
        using at [OF c, of 12 "Alu32 Xor (Reg ?r) (Reg ?r)" 2] by (simp add: div_list_def s'_def writes_back_def Let_def set_reg_def)
      show ?thesis by (rule steps_next [OF start [OF c] steps_next [OF 1 steps_next [OF 2 steps_refl]]])
    qed
    then have "runs (div_bytes uns rema) s s'" by (simp add: runs_def len)
    moreover have "agree s' s" "regs s' ?r = x"
      using v True by (auto simp: s'_def t agree_def kept_iff alu_flags_def flags_of_def div_val_def signed_rem_def signed_div_def split: if_splits)
    ultimately show ?thesis by blast
  next
    case b: False
    define i where "i = (if uns then Div (Reg 11) else Idiv (Reg 11))"
    define u where "u = (if uns then alu_flags Xor (ucast (regs t 2) :: u32) (ucast (regs t 2)) (set_reg 2 0 t)
       else set_reg 2 (if sint ?a < 0 then 0xFFFFFFFFFFFFFFFF else 0) t)"
    have u: "regs u 0 = ?a" "regs u 11 = ?b" "agree u s" "uns \<Longrightarrow> regs u 2 = 0"
      "\<not> uns \<Longrightarrow> regs u 2 = (if sint ?a < 0 then 0xFFFFFFFFFFFFFFFF else 0)"
      by (auto simp: u_def t alu_flags_def flags_of_def agree_def kept_iff)
    obtain s' where s': "exec i u = Some s'" "agree s' s" "regs s' ?r = x"
    proof (cases uns)
      case True
      show thesis
        by (rule that [of "set_reg 2 (?a mod ?b) (set_reg 0 (?a div ?b) u)"])
          (use exec_div [of u] True u(1-4) v b in \<open>auto simp: i_def div_val_def agree_set_scratch\<close>)
    next
      case False
      have nm: "\<not> (sint ?a = - (2 ^ 63) \<and> sint ?b = - 1)"
        using v False b by (auto simp: div_val_def signed_div_def signed_rem_def split: if_splits)
      then have "exec i u = Some (set_reg 2 (of_int (remn (sint ?a) (sint ?b))) (set_reg 0 (of_int (quot (sint ?a) (sint ?b))) u))"
        using exec_idiv [of u] False u(1,2,5) b by (simp add: i_def)
      then show thesis
        by (rule that) (use False u(3) v b nm in \<open>auto simp: div_val_def signed_div_def signed_rem_def agree_set_scratch split: if_splits\<close>)
    qed
    have "steps sys c (ip, s) (ip + 14, s')" if c: "code_at c ip (div_bytes uns rema)" for sys c ip
    proof -
      have 1: "step sys c (ip + 3, t) = Some (Next (ip + 5), t)"
        using at [OF c, of 3 "Jcc 4 7" 2] b t(3) by (simp add: div_list_def cond_def)
      have 2: "step sys c (ip + 5, t) = Some (Next (ip + 7), u)"
        using at [OF c, of 5 "if uns then Alu32 Xor (Reg 2) (Reg 2) else Cqo" 2]
        by (simp add: div_list_def u_def writes_back_def Let_def t set_reg_def)
      have 3: "step sys c (ip + 7, u) = Some (Next (ip + 10), s')"
        using at [OF c, of 7 i 3] s'(1) step_at_exec [OF s'(1)] by (simp add: div_list_def i_def)
      have 4: "step sys c (ip + 10, s') = Some (Next (ip + 14), s')"
        using at [OF c, of 10 "Jmp 2" 2] by (simp add: div_list_def)
      show ?thesis
        by (rule steps_next [OF start [OF c] steps_next [OF 1 steps_next [OF 2 steps_next [OF 3 steps_next [OF 4 steps_refl]]]]])
    qed
    then have "runs (div_bytes uns rema) s s'" by (simp add: runs_def len)
    then show ?thesis using s'(2,3) by blast
  qed
qed

lemma changes_div:
  assumes op: "op \<in> {Op_Div, Op_Rem, Op_UDiv, Op_URem}"
  shows "changes (emit_div op dl al bl) (\<lambda>s. store_to dl (bin_val op (home al s) (home bl s)) s)"
proof -
  define uns where "uns \<longleftrightarrow> op = Op_UDiv \<or> op = Op_URem"
  define rema where "rema \<longleftrightarrow> op = Op_Rem \<or> op = Op_URem"
  define r where "r = (if rema then 2 else 0 :: u8)"
  have r16: "r < 16" by (cases rema) (simp_all add: r_def)
  have e: "emit_div op dl al bl = seq [get RAX al, get R11b bl, emit (div_bytes uns rema), put r dl]"
    using emit_div_bytes [OF uns_def rema_def] by (simp add: r_def RAX_def)
  have val: "bin_val op a b = div_val uns rema a b" for a b
    using op by (auto simp: uns_def rema_def div_val_def)
  obtain b1 where b1: "seq [get RAX al, get R11b bl] = emit b1"
    "\<And>s. runs b1 s (set_reg 11 (home bl s) (set_reg 0 (home al s) s))"
    using acts2_total [OF acts_get [of RAX al] acts_get [of R11b bl]] by (auto simp: acts_def RAX_def R11b_def)
  obtain b2 where b2: "put r dl = emit b2" "\<And>s. runs b2 s (set_home dl (regs s r) s)"
    using acts_put [OF r16, of dl] by (auto simp: acts_def)
  have "emit_div op dl al bl = emit (b1 @ div_bytes uns rema @ b2)"
  proof (rule ext)
    fix e
    have "emit b1 e = get R11b bl (get RAX al e)" by (simp flip: b1(1))
    then have "emit_div op dl al bl e = put r dl (emit (div_bytes uns rema) (emit b1 e))" by (simp add: e)
    then show "emit_div op dl al bl e = emit (b1 @ div_bytes uns rema @ b2) e" by (simp add: b2(1))
  qed
  moreover have "\<exists>s'. runs (b1 @ div_bytes uns rema @ b2) s s' \<and> agree s' t"
    if t: "store_to dl (bin_val op (home al s) (home bl s)) s = Some t" for s t
  proof -
    let ?s = "set_reg 11 (home bl s) (set_reg 0 (home al s) s)"
    obtain x where x: "bin_val op (home al s) (home bl s) = Some x" "t = set_home dl x s"
      using t by (auto simp: store_to_def)
    then obtain s' where s': "runs (div_bytes uns rema) ?s s'" "agree s' ?s" "regs s' r = x"
      using div_runs [of uns rema ?s x] by (auto simp: val r_def)
    have "runs (b1 @ div_bytes uns rema @ b2) s (set_home dl x s')"
      using runs_append [OF b1(2) runs_append [OF s'(1) b2(2)]] by (simp add: s'(3))
    moreover have "agree s' s" using s'(2) by (simp add: agree_set_scratch)
    ultimately show ?thesis using set_home_agree x(2) by blast
  qed
  ultimately show ?thesis unfolding changes_def by blast
qed

lemma bin_changes:
  assumes "op \<noteq> Op_Is"
  shows "\<exists>f. (\<forall>e. bin op dl al bl e = Inr (f e)) \<and> changes f (\<lambda>s. store_to dl (bin_val op (home al s) (home bl s)) s)"
proof (cases "op \<in> {Op_Div, Op_Rem, Op_UDiv, Op_URem}")
  case True
  then show ?thesis using changes_div [OF True] by (auto simp: bin_def)
next
  case nd: False
  show ?thesis
  proof (cases "op \<in> {Op_Shl, Op_Shr, Op_ShrShr}")
    case True
    then show ?thesis using changes_shift [of op 4] changes_shift [of op 7] changes_shift [of op 5] by (auto simp: bin_def)
  next
    case False
    then obtain ob where "alu_opcode op = Some ob" using nd assms by (cases op) auto
    then show ?thesis using nd False changes_alu by (auto simp: bin_def)
  qed
qed

section \<open>Copying memory\<close>

definition copy_bytes :: bytes where
  "copy_bytes = [0x4D, 0x85, 0xC0, 0x74, 0x12, 0x49, 0x0F, 0xB6, 0x03, 0x49, 0x88, 0x02, 0x49, 0xFF, 0xC2,
     0x49, 0xFF, 0xC3, 0x49, 0xFF, 0xC8, 0x75, 0xE9]"

lemma memcpy_loop_bytes: "memcpy_loop = emit copy_bytes"
  by (simp add: memcpy_loop_def copy_bytes_def fun_eq_iff)

lemma copy_length: "length copy_bytes = 23" by (simp add: copy_bytes_def)

definition copy_list :: "(nat \<times> x86 \<times> nat) list" where
  "copy_list = [(0, Alu Test (Reg 8) (Reg 8), 3), (3, Jcc 4 18, 2), (5, Movzx8 0 (Mem 11 None 0), 4),
     (9, Mov8 (Mem 10 None 0) (Reg 0), 3), (12, Inc (Reg 10), 3), (15, Inc (Reg 11), 3), (18, Dec (Reg 8), 3), (21, Jcc 5 (- 23), 2)]"

lemma copy_listing: "disassemble 8 0 copy_bytes = copy_list"
  by (simp add: copy_bytes_def copy_list_def decode_simps)

text \<open>One round copies a byte and counts down; the test in front ends the loop at zero.\<close>

text \<open>A run of falling-through instructions of a listing.\<close>

lemma steps_listed:
  assumes "code_at c ip bs" and "disassemble fuel 0 bs = ls" and "(k, i, n) \<in> set ls" and "exec i s = Some s'"
    and "k' = k + n" and "steps sys c (ip + k', s') cfg"
  shows "steps sys c (ip + k, s) cfg"
proof (rule steps_next)
  show "step sys c (ip + k, s) = Some (Next (ip + k'), s')"
    using code_at_step [OF assms(1), of k i n fuel] step_at_exec [OF assms(4)] assms(2,3,5) by (simp add: add.assoc)
qed (rule assms(6))

text \<open>One round copies a byte and counts down; the test in front ends the loop at zero.\<close>

lemma copy_round:
  "\<exists>u. (\<forall>sys c ip. code_at c ip copy_bytes \<longrightarrow> steps sys c (ip + 5, s) (ip + 21, u)) \<and>
     regs u = (regs s)(0 := ucast (mem s (regs s 11)), 10 := regs s 10 + 1, 11 := regs s 11 + 1, 8 := regs s 8 - 1) \<and>
     mem u = (mem s)(regs s 10 := mem s (regs s 11)) \<and> (zf u \<longleftrightarrow> regs u 8 = 0)"
  apply (intro exI conjI allI impI)
     apply (rule steps_listed [where k = 5 and n = 4 and k' = 9 and i = "Movzx8 0 (Mem 11 None 0)", OF _ copy_listing],
       assumption, simp add: copy_list_def, simp, simp)
     apply (rule steps_listed [where k = 9 and n = 3 and k' = 12 and i = "Mov8 (Mem 10 None 0) (Reg 0)", OF _ copy_listing],
       assumption, simp add: copy_list_def, simp, simp)
     apply (rule steps_listed [where k = 12 and n = 3 and k' = 15 and i = "Inc (Reg 10)", OF _ copy_listing],
       assumption, simp add: copy_list_def, simp add: Let_def, simp)
     apply (rule steps_listed [where k = 15 and n = 3 and k' = 18 and i = "Inc (Reg 11)", OF _ copy_listing],
       assumption, simp add: copy_list_def, simp add: Let_def, simp)
     apply (rule steps_listed [where k = 18 and n = 3 and k' = 21 and i = "Dec (Reg 8)", OF _ copy_listing],
       assumption, simp add: copy_list_def, simp add: Let_def, simp)
     apply (rule steps_refl)
    apply (auto simp: fun_eq_iff)
  done

lemma copy_start:
  "\<exists>t. regs t = regs s \<and> mem t = mem s \<and> (\<forall>sys c ip. code_at c ip copy_bytes \<longrightarrow>
     steps sys c (ip, s) (if regs s 8 = 0 then ip + 23 else ip + 5, t))"
proof -
  define t where "t = alu_flags Test (regs s 8) (regs s 8) s"
  have t: "regs t = regs s" "mem t = mem s" "zf t \<longleftrightarrow> regs s 8 = 0" by (simp_all add: t_def alu_flags_def flags_of_def)
  have "steps sys c (ip, s) (if regs s 8 = 0 then ip + 23 else ip + 5, t)" if c: "code_at c ip copy_bytes" for sys c ip
  proof -
    note at = code_at_step [OF c, where fuel = 8, unfolded copy_listing]
    have 1: "step sys c (ip, s) = Some (Next (ip + 3), t)"
      using at [of 0 "Alu Test (Reg 8) (Reg 8)" 3 sys s] by (simp add: copy_list_def t_def writes_back_def)
    have "step sys c (ip + 3, t) = Some (Next (if regs s 8 = 0 then ip + 23 else ip + 5), t)"
      using at [of 3 "Jcc 4 18" 2 sys t] t(3) by (simp add: copy_list_def cond_def)
    from steps_next [OF 1 steps_next [OF this steps_refl]] show ?thesis by simp
  qed
  then show ?thesis using t by blast
qed

lemma copy_runs:
  "\<exists>s'. runs copy_bytes s s' \<and> agree s' (s\<lparr>mem := copy_up (unat (regs s 8)) (regs s 10) (regs s 11) (mem s)\<rparr>)"
proof (induction "unat (regs s 8)" arbitrary: s)
  case 0
  then have z: "regs s 8 = 0" by (simp add: unat_eq_0)
  obtain t where t: "regs t = regs s" "mem t = mem s" "\<And>sys c ip. code_at c ip copy_bytes \<Longrightarrow> steps sys c (ip, s) (ip + 23, t)"
    using copy_start [of s] z by auto
  then have "runs copy_bytes s t" by (intro runs_fixed [OF copy_length])
  then show ?case using t(1,2) z by (intro exI [of _ t]) (simp add: agree_def)
next
  case (Suc n)
  have nz: "regs s 8 \<noteq> 0" using Suc.hyps(2) by auto
  obtain t where t: "regs t = regs s" "mem t = mem s"
    "\<And>sys c ip. code_at c ip copy_bytes \<Longrightarrow> steps sys c (ip, s) (ip + 5, t)"
    using copy_start [of s] nz by auto
  obtain u where u: "\<And>sys c ip. code_at c ip copy_bytes \<Longrightarrow> steps sys c (ip + 5, t) (ip + 21, u)"
    "regs u = (regs s)(0 := ucast (mem s (regs s 11)), 10 := regs s 10 + 1, 11 := regs s 11 + 1, 8 := regs s 8 - 1)"
    "mem u = (mem s)(regs s 10 := mem s (regs s 11))" "zf u \<longleftrightarrow> regs u 8 = 0"
    using copy_round [of t] unfolding t(1,2) by blast
  have n: "unat (regs u 8) = n" using Suc.hyps(2) nz by (simp add: u unat_minus_one)
  have copy: "copy_up (unat (regs s 8)) (regs s 10) (regs s 11) (mem s) = copy_up n (regs u 10) (regs u 11) (mem u)"
    by (simp add: u flip: Suc.hyps(2))
  have kept: "\<forall>r\<in>kept. regs u r = regs s r" by (auto simp: u(2) kept_iff)
  obtain s' where s': "runs copy_bytes u s'" "agree s' (u\<lparr>mem := copy_up n (regs u 10) (regs u 11) (mem u)\<rparr>)"
    using Suc.hyps(1) [of u] n by auto
  define s'' where "s'' = (if n = 0 then u else s')"
  have "steps sys c (ip, s) (ip + 23, s'')" if c: "code_at c ip copy_bytes" for sys c ip
  proof -
    have "step sys c (ip + 21, u) = Some (Next (if n = 0 then ip + 23 else ip), u)"
      using code_at_step [OF c, where fuel = 8, unfolded copy_listing, of 21 "Jcc 5 (- 23)" 2 sys u] u(4) n
      by (auto simp: copy_list_def cond_def jump_to_def unat_eq_0)
    moreover have "steps sys c (ip, u) (ip + 23, s')" using s'(1) c by (simp add: runs_def copy_bytes_def numeral_eq_Suc)
    ultimately have "steps sys c (ip + 21, u) (ip + 23, s'')"
      by (cases "n = 0") (auto simp: s''_def intro: steps_next steps_refl)
    then show ?thesis by (rule steps_trans [OF steps_trans [OF t(3) [OF c] u(1) [OF c]]])
  qed
  then have "runs copy_bytes s s''" by (rule runs_fixed [OF copy_length])
  then show ?case using s'(2) kept copy by (intro exI [of _ s'']) (auto simp: s''_def agree_def)
qed

lemma changes_memcpy:
  "changes (emit_memcpy dl al nl) (\<lambda>s. Some (s\<lparr>mem := copy_up (unat (home nl s)) (home dl s) (home al s) (mem s)\<rparr>))"
proof -
  have "changes (\<lambda>e. emit copy_bytes (seq [get R10b dl, get R11b al, get 8 nl] e))
      (\<lambda>s. Some (s\<lparr>mem := copy_up (unat (home nl s)) (home dl s) (home al s) (mem s)\<rparr>))"
  proof (rule changes_after [OF acts3_total [OF acts_get acts_get acts_get]])
    fix s t assume t: "Some (s\<lparr>mem := copy_up (unat (home nl s)) (home dl s) (home al s) (mem s)\<rparr>) = Some t"
    let ?s = "set_reg 8 (home nl (set_reg R11b (home al (set_reg R10b (home dl s) s)) (set_reg R10b (home dl s) s)))
       (set_reg R11b (home al (set_reg R10b (home dl s) s)) (set_reg R10b (home dl s) s))"
    show "\<exists>s'. runs copy_bytes ?s s' \<and> agree s' t"
      using copy_runs [of ?s] t by (auto simp: R10b_def R11b_def)
  qed (simp_all add: R10b_def R11b_def)
  moreover have "emit_memcpy dl al nl = (\<lambda>e. emit copy_bytes (seq [get R10b dl, get R11b al, get 8 nl] e))"
    by (simp add: emit_memcpy_def memcpy_loop_bytes fun_eq_iff)
  ultimately show ?thesis by simp
qed

section \<open>Comparing memory\<close>

definition same_code :: bytes where
  "same_code = [0x4D, 0x85, 0xC0, 0x74, 0x14, 0x49, 0x0F, 0xB6, 0x03, 0x49, 0x38, 0x02, 0x75, 0x12, 0x49, 0xFF, 0xC2,
     0x49, 0xFF, 0xC3, 0x49, 0xFF, 0xC8, 0x75, 0xE7, 0xB8, 0x01, 0x00, 0x00, 0x00, 0xEB, 0x05, 0xB8, 0x00, 0x00, 0x00, 0x00]"

lemma memcmp_loop_bytes: "memcmp_loop = emit same_code"
  by (simp add: memcmp_loop_def same_code_def fun_eq_iff)

lemma same_length: "length same_code = 37" by (simp add: same_code_def)

definition same_list :: "(nat \<times> x86 \<times> nat) list" where
  "same_list = [(0, Alu Test (Reg 8) (Reg 8), 3), (3, Jcc 4 20, 2), (5, Movzx8 0 (Mem 11 None 0), 4),
     (9, Alu8 Cmp (Mem 10 None 0) (Reg 0), 3), (12, Jcc 5 18, 2), (14, Inc (Reg 10), 3), (17, Inc (Reg 11), 3),
     (20, Dec (Reg 8), 3), (23, Jcc 5 (- 25), 2), (25, MovImm32 (Reg 0) 1, 5), (30, Jmp 5, 2), (32, MovImm32 (Reg 0) 0, 5)]"

lemma same_listing: "disassemble 12 0 same_code = same_list"
  by (simp add: same_code_def same_list_def decode_simps)

lemma same_bytes_Suc: "same_bytes (Suc n) a b m \<longleftrightarrow> m a = m b \<and> same_bytes n (a + 1) (b + 1) m"
  by (auto simp: same_bytes_def less_Suc_eq_0_disj algebra_simps)

text \<open>From the loop head: to the equal exit when nothing is left, else a byte is compared.\<close>

lemma same_head:
  "\<exists>t. regs t = (if regs s 8 = 0 then regs s else (regs s)(0 := ucast (mem s (regs s 11)))) \<and> mem t = mem s \<and>
     (\<forall>sys c ip. code_at c ip same_code \<longrightarrow> steps sys c (ip, s)
       (if regs s 8 = 0 then ip + 25 else if mem s (regs s 10) = mem s (regs s 11) then ip + 14 else ip + 32, t))"
proof -
  define t where "t = alu_flags Test (regs s 8) (regs s 8) s"
  have t: "regs t = regs s" "mem t = mem s" "zf t \<longleftrightarrow> regs s 8 = 0" by (simp_all add: t_def alu_flags_def flags_of_def)
  have head: "steps sys c (ip, s) (if regs s 8 = 0 then ip + 25 else ip + 5, t)" if c: "code_at c ip same_code" for sys c ip
  proof -
    note at = code_at_step [OF c, where fuel = 12, unfolded same_listing]
    have 1: "step sys c (ip, s) = Some (Next (ip + 3), t)"
      using at [of 0 "Alu Test (Reg 8) (Reg 8)" 3 sys s] by (simp add: same_list_def t_def writes_back_def)
    have "step sys c (ip + 3, t) = Some (Next (if regs s 8 = 0 then ip + 25 else ip + 5), t)"
      using at [of 3 "Jcc 4 20" 2 sys t] t(3) by (simp add: same_list_def cond_def)
    from steps_next [OF 1 steps_next [OF this steps_refl]] show ?thesis by simp
  qed
  show ?thesis
  proof (cases "regs s 8 = 0")
    case True
    then show ?thesis using head t by (intro exI [of _ t]) auto
  next
    case False
    define u where "u = set_reg 0 (ucast (mem s (regs s 11))) t"
    define v where "v = alu_flags Cmp (mem s (regs s 10)) (mem s (regs s 11)) u"
    have v: "regs v = (regs s)(0 := ucast (mem s (regs s 11)))" "mem v = mem s" "zf v \<longleftrightarrow> mem s (regs s 10) = mem s (regs s 11)"
      by (simp_all add: v_def u_def t alu_flags_def flags_of_def)
    have "steps sys c (ip, s) (if mem s (regs s 10) = mem s (regs s 11) then ip + 14 else ip + 32, v)"
      if c: "code_at c ip same_code" for sys c ip
    proof -
      note at = code_at_step [OF c, where fuel = 12, unfolded same_listing]
      have 1: "step sys c (ip + 5, t) = Some (Next (ip + 9), u)"
        using at [of 5 "Movzx8 0 (Mem 11 None 0)" 4 sys t] by (simp add: same_list_def u_def t)
      have 2: "step sys c (ip + 9, u) = Some (Next (ip + 12), v)"
        using at [of 9 "Alu8 Cmp (Mem 10 None 0) (Reg 0)" 3 sys u] by (simp add: same_list_def u_def t v_def writes_back_def)
      have 3: "step sys c (ip + 12, v) = Some (Next (if mem s (regs s 10) = mem s (regs s 11) then ip + 14 else ip + 32), v)"
        using at [of 12 "Jcc 5 18" 2 sys v] v(3) by (simp add: same_list_def cond_def)
      show ?thesis
        using steps_trans [OF head [OF c] ] steps_next [OF 1 steps_next [OF 2 steps_next [OF 3 steps_refl]]] False by simp
    qed
    then show ?thesis using v False by (intro exI [of _ v]) auto
  qed
qed

text \<open>The tail of a round: both pointers up, the count down, and back to the head or to the equal exit.\<close>

lemma same_tail:
  "\<exists>u. (\<forall>sys c ip. code_at c ip same_code \<longrightarrow> steps sys c (ip + 14, s) (if regs s 8 = 1 then ip + 25 else ip, u)) \<and>
     regs u = (regs s)(10 := regs s 10 + 1, 11 := regs s 11 + 1, 8 := regs s 8 - 1) \<and> mem u = mem s"
proof -
  have "\<exists>u. (\<forall>sys c ip. code_at c ip same_code \<longrightarrow> steps sys c (ip + 14, s) (ip + 23, u)) \<and>
     regs u = (regs s)(10 := regs s 10 + 1, 11 := regs s 11 + 1, 8 := regs s 8 - 1) \<and> mem u = mem s \<and> (zf u \<longleftrightarrow> regs s 8 = 1)"
    apply (intro exI conjI allI impI)
       apply (rule steps_listed [where k = 14 and n = 3 and k' = 17 and i = "Inc (Reg 10)", OF _ same_listing],
         assumption, simp add: same_list_def, simp add: Let_def, simp)
       apply (rule steps_listed [where k = 17 and n = 3 and k' = 20 and i = "Inc (Reg 11)", OF _ same_listing],
         assumption, simp add: same_list_def, simp add: Let_def, simp)
       apply (rule steps_listed [where k = 20 and n = 3 and k' = 23 and i = "Dec (Reg 8)", OF _ same_listing],
         assumption, simp add: same_list_def, simp add: Let_def, simp)
       apply (rule steps_refl)
      apply (auto simp: fun_eq_iff)
    done
  then obtain u where u: "\<And>sys c ip. code_at c ip same_code \<Longrightarrow> steps sys c (ip + 14, s) (ip + 23, u)"
    "regs u = (regs s)(10 := regs s 10 + 1, 11 := regs s 11 + 1, 8 := regs s 8 - 1)" "mem u = mem s" "zf u \<longleftrightarrow> regs s 8 = 1"
    by blast
  have "steps sys c (ip + 14, s) (if regs s 8 = 1 then ip + 25 else ip, u)" if c: "code_at c ip same_code" for sys c ip
  proof -
    have "step sys c (ip + 23, u) = Some (Next (if regs s 8 = 1 then ip + 25 else ip), u)"
      using code_at_step [OF c, where fuel = 12, unfolded same_listing, of 23 "Jcc 5 (- 25)" 2 sys u] u(4)
      by (auto simp: same_list_def cond_def jump_to_def)
    then show ?thesis by (rule steps_trans [OF u(1) [OF c] steps_next [OF _ steps_refl]])
  qed
  then show ?thesis using u(2,3) by blast
qed

lemma same_exit:
  assumes "code_at c ip same_code"
  shows "steps sys c (ip + 25, s) (ip + 37, set_reg 0 1 s)" "steps sys c (ip + 32, s) (ip + 37, set_reg 0 0 s)"
proof -
  note at = code_at_step [OF assms, where fuel = 12, unfolded same_listing]
  have 1: "step sys c (ip + 25, s) = Some (Next (ip + 30), set_reg 0 1 s)"
    using at [of 25 "MovImm32 (Reg 0) 1" 5 sys s] by (simp add: same_list_def set_reg_def)
  have 2: "step sys c (ip + 30, set_reg 0 1 s) = Some (Next (ip + 37), set_reg 0 1 s)"
    using at [of 30 "Jmp 5" 2 sys "set_reg 0 1 s"] by (simp add: same_list_def)
  have 3: "step sys c (ip + 32, s) = Some (Next (ip + 37), set_reg 0 0 s)"
    using at [of 32 "MovImm32 (Reg 0) 0" 5 sys s] by (simp add: same_list_def set_reg_def)
  show "steps sys c (ip + 25, s) (ip + 37, set_reg 0 1 s)" by (rule steps_next [OF 1 steps_next [OF 2 steps_refl]])
  show "steps sys c (ip + 32, s) (ip + 37, set_reg 0 0 s)" by (rule steps_next [OF 3 steps_refl])
qed

lemma same_runs:
  "\<exists>s'. runs same_code s s' \<and> agree s' s \<and> regs s' 0 = truth (same_bytes (unat (regs s 8)) (regs s 10) (regs s 11) (mem s))"
proof (induction "unat (regs s 8)" arbitrary: s)
  case 0
  then have z: "regs s 8 = 0" by (simp add: unat_eq_0)
  obtain t where t: "regs t = regs s" "mem t = mem s" "\<And>sys c ip. code_at c ip same_code \<Longrightarrow> steps sys c (ip, s) (ip + 25, t)"
    using same_head [of s] z by auto
  have "runs same_code s (set_reg 0 1 t)" by (rule runs_fixed [OF same_length], rule steps_trans [OF t(3) same_exit(1)])
  moreover have "agree (set_reg 0 1 t) s" using t(1,2) by (simp add: agree_set_scratch) (simp add: agree_def)
  ultimately show ?case using z by (intro exI [of _ "set_reg 0 1 t"]) (simp add: same_bytes_def truth_def)
next
  case (Suc n)
  have nz: "regs s 8 \<noteq> 0" using Suc.hyps(2) by auto
  let ?eq = "mem s (regs s 10) = mem s (regs s 11)"
  obtain t where t: "regs t = (regs s)(0 := ucast (mem s (regs s 11)))" "mem t = mem s"
    "\<And>sys c ip. code_at c ip same_code \<Longrightarrow> steps sys c (ip, s) (if ?eq then ip + 14 else ip + 32, t)"
    using same_head [of s] nz by auto
  have ts: "agree t s" using t(1,2) by (auto simp: agree_def kept_iff)
  have split: "same_bytes (unat (regs s 8)) (regs s 10) (regs s 11) (mem s) \<longleftrightarrow>
      ?eq \<and> same_bytes n (regs s 10 + 1) (regs s 11 + 1) (mem s)"
    by (simp add: same_bytes_Suc flip: Suc.hyps(2))
  show ?case
  proof (cases ?eq)
    case False
    then have "runs same_code s (set_reg 0 0 t)"
      by (intro runs_fixed [OF same_length]) (rule steps_trans [OF t(3) [simplified False if_False] same_exit(2)])
    then show ?thesis using ts False split by (intro exI [of _ "set_reg 0 0 t"]) (simp add: agree_set_scratch truth_def)
  next
    case True
    obtain u where u: "\<And>sys c ip. code_at c ip same_code \<Longrightarrow> steps sys c (ip + 14, t) (if regs t 8 = 1 then ip + 25 else ip, u)"
      "regs u = (regs t)(10 := regs t 10 + 1, 11 := regs t 11 + 1, 8 := regs t 8 - 1)" "mem u = mem t"
      using same_tail [of t] by blast
    have us: "agree u s" using ts by (auto simp: u(2,3) agree_def kept_iff)
    have n: "unat (regs u 8) = n" using Suc.hyps(2) nz by (simp add: u t unat_minus_one)
    have rest: "same_bytes n (regs s 10 + 1) (regs s 11 + 1) (mem s) = same_bytes n (regs u 10) (regs u 11) (mem u)"
      by (simp add: u t)
    show ?thesis
    proof (cases "n = 0")
      case n0: True
      then have one: "regs t 8 = 1" using n by (simp add: u(2) unat_eq_0)
      have "runs same_code s (set_reg 0 1 u)"
      proof (rule runs_fixed [OF same_length])
        fix sys c ip assume c: "code_at c ip same_code"
        have "steps sys c (ip, s) (ip + 14, t)" using t(3) [OF c] True by simp
        moreover have "steps sys c (ip + 14, t) (ip + 25, u)" using u(1) [OF c] one by simp
        ultimately show "steps sys c (ip, s) (ip + 37, set_reg 0 1 u)" by (blast intro: steps_trans same_exit(1) [OF c])
      qed
      then show ?thesis using us True split n0
        by (intro exI [of _ "set_reg 0 1 u"]) (simp add: agree_set_scratch truth_def same_bytes_def)
    next
      case False
      then have one: "regs t 8 \<noteq> 1" using n by (auto simp: u(2))
      obtain s' where s': "runs same_code u s'" "agree s' u" "regs s' 0 = truth (same_bytes n (regs u 10) (regs u 11) (mem u))"
        using Suc.hyps(1) [of u] n by auto
      have "runs same_code s s'"
      proof (rule runs_fixed [OF same_length])
        fix sys c ip assume c: "code_at c ip same_code"
        have "steps sys c (ip, s) (ip + 14, t)" using t(3) [OF c] True by simp
        moreover have "steps sys c (ip + 14, t) (ip, u)" using u(1) [OF c] one by simp
        moreover have "steps sys c (ip, u) (ip + 37, s')" using s'(1) c by (simp add: runs_def same_length)
        ultimately show "steps sys c (ip, s) (ip + 37, s')" by (blast intro: steps_trans)
      qed
      then show ?thesis using agree_trans [OF s'(2) us] s'(3) split rest True by (intro exI [of _ s']) simp
    qed
  qed
qed

lemma changes_memcmp:
  "changes (emit_memcmp dl al bl nl) (\<lambda>s. Some (set_home dl (truth (same_bytes (unat (home nl s)) (home al s) (home bl s) (mem s))) s))"
proof -
  let ?v = "\<lambda>s. truth (same_bytes (unat (home nl s)) (home al s) (home bl s) (mem s))"
  have "yields (\<lambda>e. emit same_code (seq [get R10b al, get R11b bl, get 8 nl] e)) (\<lambda>s. Some (?v s))"
  proof (rule yields_after [OF acts3_total [OF acts_get acts_get acts_get]])
    fix s x assume x: "Some (?v s) = Some x"
    let ?s = "set_reg 8 (home nl (set_reg R11b (home bl (set_reg R10b (home al s) s)) (set_reg R10b (home al s) s)))
       (set_reg R11b (home bl (set_reg R10b (home al s) s)) (set_reg R10b (home al s) s))"
    obtain s' where "runs same_code ?s s'" "agree s' ?s" "regs s' 0 = ?v s"
      using same_runs [of ?s] by (auto simp: R10b_def R11b_def)
    then show "\<exists>s'. runs same_code ?s s' \<and> agree s' s \<and> regs s' 0 = x"
      using x by (auto simp: R10b_def R11b_def agree_set_scratch)
  qed (simp_all add: R10b_def R11b_def)
  from changes_some [OF changes_then [OF this]] have "changes (\<lambda>e. put RAX dl (emit same_code (seq [get R10b al, get R11b bl, get 8 nl] e)))
      (\<lambda>s. Some (set_home dl (?v s) s))" .
  moreover have "emit_memcmp dl al bl nl = (\<lambda>e. put RAX dl (emit same_code (seq [get R10b al, get R11b bl, get 8 nl] e)))"
    by (simp add: emit_memcmp_def memcmp_loop_bytes fun_eq_iff)
  ultimately show ?thesis by simp
qed

end
