(* ===== verification/Instr_Correct.thy ===== *)
theory Instr_Correct
  imports Select_Loops Regalloc_Correct
begin

text \<open>
  One instruction of the intermediate representation: the code \<open>instr\<close> emits for it changes the homes of the
  virtual registers and the memory as its meaning in \<open>Ir_Semantics\<close> says, when the homes are as the
  register allocator leaves them.
\<close>

section \<open>The effect in terms of homes\<close>

definition abstract_state :: "allocation \<Rightarrow> mstate \<Rightarrow> ir_state" where
  "abstract_state al s = \<lparr>vals = (\<lambda>v. home (al_loc al ! v) s), store = mem s\<rparr>"

lemma abstract_simps [simp]: "vals (abstract_state al s) v = home (al_loc al ! v) s" "store (abstract_state al s) = mem s"
  by (simp_all add: abstract_state_def)

lemma vals_set_val [simp]: "vals (set_val d x st) v = (if v = d then x else vals st v)" "store (set_val d x st) = store st"
  by (simp_all add: set_val_def)

definition result_of :: "instr \<Rightarrow> vreg option" where "result_of i = fst (raw_uses_and_defs i)"

lemma defs_result: "defs i = set_option (result_of i)"
  by (cases "raw_uses_and_defs i") (simp add: defs_def result_of_def uses_and_defs_def)

lemma uses_raw: "uses i = set (snd (raw_uses_and_defs i))"
  by (cases "raw_uses_and_defs i") (simp add: uses_def uses_and_defs_def)

definition put_result :: "allocation \<Rightarrow> instr \<Rightarrow> ir_state \<Rightarrow> mstate \<Rightarrow> mstate" where
  "put_result al i st s = (case result_of i of Some d \<Rightarrow> set_home (al_loc al ! d) (vals st d) s | None \<Rightarrow> s\<lparr>mem := store st\<rparr>)"

definition mach_instr :: "allocation \<Rightarrow> instr \<Rightarrow> mstate \<Rightarrow> mstate option" where
  "mach_instr al i s = map_option (\<lambda>st. put_result al i st s) (ir_instr (\<lambda>_. False) i (abstract_state al s))"

text \<open>The instructions with a meaning.\<close>

fun plain :: "instr \<Rightarrow> bool" where
  "plain (I_Const _ _) = True"
| "plain (I_FConst _ _) = True"
| "plain (I_Mov _ _) = True"
| "plain (I_Neg _ _) = True"
| "plain (I_FNeg _ _) = True"
| "plain (I_Bin op _ _ _) = (op \<noteq> Op_Is)"
| "plain (I_Cmp _ _ _ _) = True"
| "plain (I_LoadField _ _ _) = True"
| "plain (I_LoadByte _ _ _) = True"
| "plain (I_StoreField _ _ _) = True"
| "plain (I_MemCpy _ _ _) = True"
| "plain (I_MemCmp _ _ _ _) = True"
| "plain (I_Suspend _) = True"
| "plain (I_CoroutineResume _ _) = True"
| "plain _ = False"

lemma open_to_all [simp]: "open_to (\<lambda>_. False) a n"
  by (simp add: open_to_def)

lemma instr_changes:
  assumes "plain i" and "\<And>v. v \<in> uses i \<union> defs i \<Longrightarrow> v < length (al_loc al)"
  shows "\<exists>f. (\<forall>e. instr nr al i e = Inr (f e)) \<and> changes f (mach_instr al i)"
proof -
  have l: "v \<in> uses i \<union> defs i \<Longrightarrow> loc_of al v = Inr (al_loc al ! v)" for v
    using assms(2) by (simp add: loc_of_def)
  note d = result_of_def with1_def with2_def with3_def mach_instr_def put_result_def store_to_def Let_def
  have emits: "\<exists>f. (\<forall>e. instr nr al i e = Inr (f e)) \<and> changes f (mach_instr al i)"
    if "\<And>e. instr nr al i e = Inr (f e)" "changes f g" "\<And>s. mach_instr al i s = g s" for f g
    using that by (auto simp: changes_def)
  show ?thesis
  proof (cases i)
    case (I_Const dst imm)
    show ?thesis by (rule emits [OF _ changes_const]) (simp_all add: I_Const l uses_raw defs_result d)
  next
    case (I_FConst dst bits)
    show ?thesis by (rule emits [OF _ changes_const]) (simp_all add: I_FConst l uses_raw defs_result d)
  next
    case (I_Mov dst a)
    show ?thesis by (rule emits [OF _ changes_mov]) (simp_all add: I_Mov l uses_raw defs_result d)
  next
    case (I_Neg dst a)
    show ?thesis by (rule emits [OF _ changes_neg]) (simp_all add: I_Neg l uses_raw defs_result d)
  next
    case (I_FNeg dst a)
    show ?thesis by (rule emits [OF _ changes_fneg]) (simp_all add: I_FNeg l uses_raw defs_result d)
  next
    case (I_Cmp op dst a b)
    show ?thesis by (rule emits [OF _ changes_cmp]) (simp_all add: I_Cmp l uses_raw defs_result d)
  next
    case (I_LoadField dst a off)
    show ?thesis by (rule emits [OF _ changes_load_field]) (simp_all add: I_LoadField l uses_raw defs_result d)
  next
    case (I_LoadByte dst a off)
    show ?thesis by (rule emits [OF _ changes_load_byte]) (simp_all add: I_LoadByte l uses_raw defs_result d)
  next
    case (I_StoreField a off b)
    show ?thesis by (rule emits [OF _ changes_store_field]) (simp_all add: I_StoreField l uses_raw defs_result d)
  next
    case (I_MemCpy dst a n)
    show ?thesis by (rule emits [OF _ changes_memcpy]) (simp_all add: I_MemCpy l uses_raw defs_result d)
  next
    case (I_MemCmp dst a b n)
    show ?thesis by (rule emits [OF _ changes_memcmp]) (simp_all add: I_MemCmp l uses_raw defs_result d)
  next
    case (I_Suspend a)
    show ?thesis by (rule emits [OF _ changes_nop]) (simp_all add: I_Suspend l uses_raw defs_result d)
  next
    case (I_CoroutineResume task dst)
    show ?thesis by (rule emits [OF _ changes_resume]) (simp_all add: I_CoroutineResume l uses_raw defs_result d)
  next
    case (I_Bin op dst a b)
    then have "op \<noteq> Op_Is" using assms(1) by simp
    then obtain f where f: "\<And>e. bin op (al_loc al ! dst) (al_loc al ! a) (al_loc al ! b) e = Inr (f e)"
      "changes f (\<lambda>s. store_to (al_loc al ! dst) (bin_val op (home (al_loc al ! a) s) (home (al_loc al ! b) s)) s)"
      using bin_changes [of op] by blast
    show ?thesis
      by (rule emits [OF _ f(2)]) (simp_all add: I_Bin l uses_raw defs_result d f(1) option.map_comp comp_def)
  qed (use assms(1) in simp_all)
qed

section \<open>Memory outside the frame\<close>

text \<open>Two memories that agree where the program may look.\<close>

definition same_open :: "(u64 \<Rightarrow> bool) \<Rightarrow> (u64 \<Rightarrow> u8) \<Rightarrow> (u64 \<Rightarrow> u8) \<Rightarrow> bool" where
  "same_open G m m' \<longleftrightarrow> (\<forall>a. \<not> G a \<longrightarrow> m a = m' a)"

lemma same_openD: "same_open G m m' \<Longrightarrow> open_to G a n \<Longrightarrow> i < n \<Longrightarrow> m (a + of_nat i) = m' (a + of_nat i)"
  by (simp add: same_open_def open_to_def)

lemma ld64_open: "same_open G m m' \<Longrightarrow> open_to G a 8 \<Longrightarrow> ld64 m a = ld64 m' a"
  by (rule ld64_cong) (rule same_openD)

lemma open_to_Suc: "open_to G a (Suc n) \<longleftrightarrow> \<not> G a \<and> open_to G (a + 1) n"
  by (simp add: open_to_def All_less_Suc2 add.assoc)

text \<open>Writes to open bytes keep the agreement, and keep what is guarded.\<close>

lemma st_bytes_open:
  assumes "same_open G m m'" and "open_to G a (length bs)"
  shows "same_open G (st_bytes m a bs) (st_bytes m' a bs) \<and> (\<forall>x. G x \<longrightarrow> st_bytes m a bs x = m x)"
  using assms
proof (induction bs arbitrary: m m' a)
  case (Cons b bs)
  have o: "\<not> G a" "open_to G (a + 1) (length bs)"
    using Cons.prems(2) by (simp_all add: open_to_Suc)
  have "same_open G (m(a := b)) (m'(a := b))" using Cons.prems(1) by (simp add: same_open_def)
  then have "same_open G (st_bytes (m(a := b)) (a + 1) bs) (st_bytes (m'(a := b)) (a + 1) bs) \<and>
      (\<forall>x. G x \<longrightarrow> st_bytes (m(a := b)) (a + 1) bs x = (m(a := b)) x)"
    using o(2) by (rule Cons.IH)
  then show ?case using o(1) by (auto simp del: fun_upd_apply) (metis fun_upd_other)
qed simp

lemma copy_up_open:
  assumes "same_open G m m'" and "open_to G d n" and "open_to G a n"
  shows "same_open G (copy_up n d a m) (copy_up n d a m') \<and> (\<forall>x. G x \<longrightarrow> copy_up n d a m x = m x)"
  using assms
proof (induction n arbitrary: m m' d a)
  case (Suc n)
  note oa = Suc.prems(3) [unfolded open_to_Suc] and od = Suc.prems(2) [unfolded open_to_Suc]
  have "m a = m' a" using Suc.prems(1) oa by (simp add: same_open_def)
  then have "same_open G (m(d := m a)) (m'(d := m' a))" using Suc.prems(1) by (simp add: same_open_def)
  then have "same_open G (copy_up n (d + 1) (a + 1) (m(d := m a))) (copy_up n (d + 1) (a + 1) (m'(d := m' a))) \<and>
      (\<forall>x. G x \<longrightarrow> copy_up n (d + 1) (a + 1) (m(d := m a)) x = (m(d := m a)) x)"
    by (rule Suc.IH [OF _ conjunct2 [OF od] conjunct2 [OF oa]])
  then show ?case using od by (auto simp del: fun_upd_apply) (metis fun_upd_other)
qed simp

lemma same_bytes_open:
  "same_open G m m' \<Longrightarrow> open_to G a n \<Longrightarrow> open_to G b n \<Longrightarrow> same_bytes n a b m = same_bytes n a b m'"
  by (simp add: same_bytes_def same_openD)

text \<open>
  The same instruction in two states that agree on what it reads: the results agree, and the guarded memory of
  the second is kept.
\<close>

definition agrees_after :: "(u64 \<Rightarrow> bool) \<Rightarrow> instr \<Rightarrow> ir_state \<Rightarrow> ir_state \<Rightarrow> ir_state \<Rightarrow> ir_state \<Rightarrow> bool" where
  "agrees_after G i st st' sa sa' \<longleftrightarrow> (case result_of i of
     Some d \<Rightarrow> vals st' = (vals st)(d := vals sa' d) \<and> store st' = store st
   | None \<Rightarrow> vals st' = vals st \<and> same_open G (store sa') (store st') \<and> (\<forall>x. G x \<longrightarrow> store sa' x = store sa x))"

lemma ir_instr_agrees:
  assumes run: "ir_instr G i st = Some st'" and v: "\<And>v. v \<in> uses i \<Longrightarrow> vals sa v = vals st v"
    and m: "same_open G (store sa) (store st)"
  shows "\<exists>sa'. ir_instr (\<lambda>_. False) i sa = Some sa' \<and> agrees_after G i st st' sa sa'"
proof -
  note d = agrees_after_def result_of_def uses_raw Let_def set_val_def fun_eq_iff
  show ?thesis
  proof (cases i)
    case (I_LoadField dst a off)
    then show ?thesis using run v ld64_open [OF m] by (auto simp: d split: if_splits)
  next
    case (I_LoadByte dst a off)
    then show ?thesis using run v same_openD [OF m, where n = 1 and i = 0] by (auto simp: d split: if_splits)
  next
    case (I_StoreField a off b)
    then show ?thesis using run v st_bytes_open [OF m] by (auto simp: d st64_def split: if_splits)
  next
    case (I_MemCpy a b n)
    then show ?thesis using run v copy_up_open [OF m] by (auto simp: d split: if_splits)
  next
    case (I_MemCmp dst a b n)
    then show ?thesis using run v same_bytes_open [OF m] by (auto simp: d split: if_splits)
  next
    case (I_Suspend a)
    then show ?thesis using run m by (auto simp: d)
  qed (use run v in \<open>auto simp: d\<close>)
qed

section \<open>The frame\<close>

text \<open>
  The value of \<open>rbp\<close>, the number of spill slots below it, and the size of the frame below it: the slots, the
  padding and the saved registers. Above \<open>rbp\<close> stand the caller's \<open>rbp\<close> and the return address.
\<close>

record frame =
  fr_base :: u64
  fr_slots :: nat
  fr_size :: nat

definition frame_ok :: "frame \<Rightarrow> bool" where
  "frame_ok fr \<longleftrightarrow> 8 * fr_slots fr \<le> fr_size fr \<and> fr_slots fr < 2 ^ 24 \<and> fr_size fr < 2 ^ 32"

definition slots_start :: "frame \<Rightarrow> u64" where "slots_start fr = fr_base fr - of_nat (8 * fr_slots fr)"

definition in_slots :: "frame \<Rightarrow> u64 \<Rightarrow> bool" where
  "in_slots fr a \<longleftrightarrow> unat (a - slots_start fr) < 8 * fr_slots fr"

definition in_frame :: "frame \<Rightarrow> u64 \<Rightarrow> bool" where
  "in_frame fr a \<longleftrightarrow> unat (a - (fr_base fr - of_nat (fr_size fr))) < fr_size fr + 16"

definition frame_holds :: "frame \<Rightarrow> (u64 \<Rightarrow> u8) \<Rightarrow> mstate \<Rightarrow> bool" where
  "frame_holds fr m0 s \<longleftrightarrow> regs s 5 = fr_base fr \<and> regs s 4 = fr_base fr - of_nat (fr_size fr) \<and>
     (\<forall>a. in_frame fr a \<and> \<not> in_slots fr a \<longrightarrow> mem s a = m0 a)"

text \<open>The homes a function uses: registers, and slots of its frame.\<close>

fun home_in :: "frame \<Rightarrow> loc \<Rightarrow> bool" where
  "home_in fr (In_Reg r) = True"
| "home_in fr (In_Slot k) = (unat k < fr_slots fr)"

lemma scast_slot_disp:
  assumes "unat k < 2 ^ 24"
  shows "(scast (slot_disp k) :: u64) = - of_nat (8 * (unat k + 1))"
proof -
  obtain m where m: "unat k = m" by simp
  have k: "k + 1 = of_nat (m + 1)" by (simp flip: m)
  define z where "z = - int (8 * (m + 1))"
  have "slot_disp k = of_int z" unfolding slot_disp_def k z_def by simp
  moreover have "signed_take_bit 31 z = z" using assms by (intro signed_take_bit_int_eq_self) (simp_all add: z_def m)
  ultimately have "sint (slot_disp k) = z" by (simp add: signed_of_int)
  then have "(of_int (sint (slot_disp k)) :: u64) = of_int z" by (rule arg_cong)
  then show ?thesis by (simp only: of_int_sint z_def m of_int_minus of_int_of_nat_eq)
qed

lemma slot_offset:
  assumes "frame_ok fr" and "unat k < fr_slots fr" and "regs s 5 = fr_base fr"
  shows "slot_at k s = slots_start fr + of_nat (8 * (fr_slots fr - unat k - 1))"
proof -
  have k: "unat k < 2 ^ 24" using assms by (simp add: frame_ok_def)
  have "of_nat (8 * fr_slots fr) = (of_nat (8 * (unat k + 1)) + of_nat (8 * (fr_slots fr - unat k - 1)) :: u64)"
    using assms(2) by (simp flip: of_nat_add add: algebra_simps)
  then show ?thesis by (simp add: slot_at_def assms(3) scast_slot_disp [OF k] slots_start_def del: of_nat_mult)
qed

lemma slot_bytes_in:
  assumes "frame_ok fr" and "unat k < fr_slots fr" and "regs s 5 = fr_base fr" and "j < 8"
  shows "in_slots fr (slot_at k s + of_nat j)"
proof -
  let ?o = "8 * (fr_slots fr - unat k - 1) + j"
  have e: "slot_at k s + of_nat j - slots_start fr = of_nat ?o" using slot_offset [OF assms(1-3)] by simp
  have o: "?o < 8 * fr_slots fr" using assms(2,4) by linarith
  also have "\<dots> < 2 ^ 64" using assms(1) by (simp add: frame_ok_def)
  finally have "unat (of_nat ?o :: u64) = ?o" by (rule unat_of_nat_u64)
  then show ?thesis unfolding in_slots_def e using o by simp
qed

lemma slots_in_frame: "frame_ok fr \<Longrightarrow> in_slots fr a \<Longrightarrow> in_frame fr a"
proof -
  assume fr: "frame_ok fr" and a: "in_slots fr a"
  let ?d = "fr_size fr - 8 * fr_slots fr"
  have "of_nat (fr_size fr) = (of_nat (8 * fr_slots fr) + of_nat ?d :: u64)"
    using fr by (simp add: frame_ok_def flip: of_nat_add)
  then have "a - (fr_base fr - of_nat (fr_size fr)) = (a - slots_start fr) + of_nat ?d" by (simp add: slots_start_def)
  moreover have "unat (of_nat ?d :: u64) = ?d" 
    by (rule unat_of_nat_u64, rule le_less_trans [OF diff_le_self]) (use fr in \<open>simp add: frame_ok_def\<close>)
  ultimately have "unat (a - (fr_base fr - of_nat (fr_size fr))) \<le> unat (a - slots_start fr) + ?d"
    by (metis unat_plus_if' le_eq_less_or_eq diff_le_self)
  then show "in_frame fr a" using a fr by (simp add: in_frame_def in_slots_def frame_ok_def)
qed

lemma home_set_same:
  assumes "regs s 5 = fr_base fr"
  shows "home l (set_home l v s) = v"
  by (cases l) (simp_all add: slot_at_def)

lemma slots_apart:
  assumes "frame_ok fr" and "unat k < fr_slots fr" and "unat k' < fr_slots fr" and "k \<noteq> k'" and "regs s 5 = fr_base fr"
  shows "apart8 (slot_at k s) (slot_at k' s)"
proof -
  define i where "i = fr_slots fr - unat k - 1"
  define j where "j = fr_slots fr - unat k' - 1"
  have ij: "i \<noteq> j" using assms(2-4) by (auto simp: i_def j_def word_unat_eq_iff)
  have b: "i < 2 ^ 24" "j < 2 ^ 24" using assms(1) unfolding i_def j_def frame_ok_def by linarith+
  have e: "slot_at k s = slots_start fr + of_nat (8 * i)" "slot_at k' s = slots_start fr + of_nat (8 * j)"
    using slot_offset [OF assms(1,2,5)] slot_offset [OF assms(1,3,5)] by (simp_all add: i_def j_def)
  have far: "8 \<le> unat (of_nat (8 * x) - of_nat (8 * y) :: u64)" if "x \<noteq> y" "x < 2 ^ 24" "y < 2 ^ 24" for x y :: nat
  proof -
    have u: "unat (of_nat (8 * x) :: u64) = 8 * x" "unat (of_nat (8 * y) :: u64) = 8 * y"
      using that by (simp_all add: unat_of_nat_u64 del: of_nat_mult)
    have "x < y \<or> y + 1 \<le> x" using that(1) by linarith
    then show ?thesis using that(2,3) by (auto simp: unat_sub64 u simp del: of_nat_mult)
  qed
  show ?thesis using far [of i j] far [of j i] ij b by (simp add: apart8_def e del: of_nat_mult)
qed

lemma home_set_other:
  assumes "frame_ok fr" and "home_in fr l" and "home_in fr l'" and "l \<noteq> l'" and "regs s 5 = fr_base fr"
  shows "home l' (set_home l v s) = home l' s"
proof (cases l)
  case (In_Reg r)
  then show ?thesis using assms(4) home_set_reg [of l' r] by auto
next
  case (In_Slot k)
  show ?thesis
  proof (cases l')
    case (In_Slot k')
    then have "apart8 (slot_at k s) (slot_at k' s)" using slots_apart [OF assms(1)] assms(2-5) \<open>l = In_Slot k\<close> by simp
    then show ?thesis by (simp add: \<open>l = In_Slot k\<close> In_Slot slot_at_def ld64_st64_apart)
  qed (simp add: In_Slot)
qed

lemma set_home_mem:
  assumes "frame_ok fr" and "home_in fr l" and "regs s 5 = fr_base fr" and "\<not> in_slots fr a"
  shows "mem (set_home l v s) a = mem s a"
proof (cases l)
  case (In_Slot k)
  have "a \<noteq> slot_at k s + of_nat j" if "j < 8" for j
    using slot_bytes_in [OF assms(1) _ assms(3) that, of k] assms(2,4) In_Slot by auto
  then show ?thesis by (simp add: In_Slot st64_other)
qed simp

lemma set_home_frame: "regs (set_home l v s) 5 = regs s 5" "regs (set_home l v s) 4 = regs s 4"
  by (cases l; simp)+

end
