(* ===== verification/Code_Layout.thy ===== *)
theory Code_Layout
  imports Instr_Correct
begin

text \<open>
  Where the code of a function stands: the bytes of a block and the bytes of a function, with the
  displacements of its branches as a parameter. The emitter writes them with zero displacements and patches
  them when every block has its place; the result is the same bytes with the final displacements.
\<close>

section \<open>The bytes of an emission\<close>

definition no_code :: emitter where
  "no_code = \<lparr>e_code = [], e_vtable_offsets = [], e_static_offsets = [], e_fn_starts = [],
     e_fn_takes_receiver = [], e_relocs = [], e_call_sites = [],
     e_uses_int = False, e_uses_int_err = False, e_uses_scan = False, e_uses_retain = False,
     e_uses_release = False, e_uses_alloc = False, e_uses_exc = False, e_uses_argv = False\<rparr>"

definition bytes_of :: "(emitter \<Rightarrow> emitter) \<Rightarrow> bytes" where "bytes_of f = e_code (f no_code)"

lemma bytes_of_emit [simp]: "bytes_of (emit bs) = bs"
  by (simp add: bytes_of_def emit_def no_code_def)

lemma acts_bytes: "acts f g \<Longrightarrow> f = emit (bytes_of f) \<and> (\<forall>s s'. g s = Some s' \<longrightarrow> runs (bytes_of f) s s')"
  by (auto elim!: actsE)

definition instr_bytes :: "bool \<Rightarrow> allocation \<Rightarrow> instr \<Rightarrow> bytes" where
  "instr_bytes nr al i = (case instr nr al i no_code of Inl _ \<Rightarrow> [] | Inr e \<Rightarrow> e_code e)"

text \<open>The registers of an instruction have homes.\<close>

definition housed :: "allocation \<Rightarrow> instr \<Rightarrow> bool" where
  "housed al i \<longleftrightarrow> plain i \<and> (\<forall>v\<in>uses i \<union> defs i. v < length (al_loc al))"

lemma instr_emits:
  assumes "housed al i"
  shows "instr nr al i e = Inr (emit (instr_bytes nr al i) e)"
    and "mach_instr al i s = Some t \<Longrightarrow> \<exists>s'. runs (instr_bytes nr al i) s s' \<and> agree s' t"
proof -
  obtain f where f: "\<And>e. instr nr al i e = Inr (f e)" "changes f (mach_instr al i)"
    using instr_changes [of i al nr] assms by (auto simp: housed_def)
  then obtain bs where bs: "f = emit bs" "\<And>s t. mach_instr al i s = Some t \<Longrightarrow> \<exists>s'. runs bs s s' \<and> agree s' t"
    by (auto simp: changes_def)
  have "instr_bytes nr al i = bs" by (simp add: instr_bytes_def f(1) bs(1) emit_def no_code_def)
  then show "instr nr al i e = Inr (emit (instr_bytes nr al i) e)"
    "mach_instr al i s = Some t \<Longrightarrow> \<exists>s'. runs (instr_bytes nr al i) s s' \<and> agree s' t"
    using f(1) bs by auto
qed

definition instrs_bytes :: "bool \<Rightarrow> allocation \<Rightarrow> instr list \<Rightarrow> bytes" where
  "instrs_bytes nr al is = concat (map (instr_bytes nr al) is)"

lemma instrs_emits: "\<forall>i\<in>set is. housed al i \<Longrightarrow> instrs nr al is e = Inr (emit (instrs_bytes nr al is) e)"
  by (induction "is" arbitrary: e) (simp_all add: instrs_bytes_def emit_Nil instr_emits(1))

section \<open>Terminators\<close>

fun closed_term :: "terminator \<Rightarrow> bool" where
  "closed_term (T_Ret _) = True"
| "closed_term (T_Branch _ _ _) = True"
| "closed_term _ = False"

definition get_rax :: "allocation \<Rightarrow> vreg \<Rightarrow> bytes" where "get_rax al v = bytes_of (get RAX (al_loc al ! v))"

text \<open>\<open>w site target\<close> is the displacement written at \<open>site\<close> for a branch to \<open>target\<close>; \<open>p\<close> is the offset of the code.\<close>

definition test_rax :: bytes where "test_rax = [0x48, 0x85, 0xC0]"

fun term_bytes :: "(nat \<Rightarrow> block_id \<Rightarrow> i32) \<Rightarrow> allocation \<Rightarrow> phys list \<Rightarrow> nat \<Rightarrow> terminator \<Rightarrow> bytes" where
  "term_bytes w al sv p (T_Ret (Some v)) = get_rax al v @ bytes_of (restore_ret sv)"
| "term_bytes w al sv p (T_Ret None) = (0xB8 # le32 0) @ bytes_of (restore_ret sv)"
| "term_bytes w al sv p (T_Branch None t u) = 0xE9 # le32 (w (p + 1) t)"
| "term_bytes w al sv p (T_Branch (Some v) t u) =
     (let q = p + length (get_rax al v) + 3 in
      get_rax al v @ test_rax @ (0x0F # 0x85 # le32 (w (q + 2) t)) @ (0xE9 # le32 (w (q + 7) u)))"
| "term_bytes w al sv p _ = []"

fun term_jumps :: "allocation \<Rightarrow> nat \<Rightarrow> terminator \<Rightarrow> (nat \<times> block_id) list" where
  "term_jumps al p (T_Branch None t u) = [(p + 1, t)]"
| "term_jumps al p (T_Branch (Some v) t u) =
     (let q = p + length (get_rax al v) + 3 in [(q + 2, t), (q + 7, u)])"
| "term_jumps al p _ = []"

lemma length_term_bytes: "length (term_bytes w al sv p t) = length (term_bytes w' al sv p' t)"
proof (cases t)
  case (T_Ret r)
  then show ?thesis by (cases r) simp_all
next
  case (T_Branch c x y)
  then show ?thesis by (cases c) (simp_all add: Let_def)
qed simp_all

lemma acts_pushes: "\<exists>bs. pop_savers rs = emit bs" "\<exists>bs. push_savers rs = emit bs"
  by (induction rs) (auto simp: fun_eq_iff emit_Nil [symmetric] intro: exI [of _ "[]"])

lemma restore_emits: "restore_ret sv = emit (bytes_of (restore_ret sv))"
proof -
  obtain bs where "pop_savers (rev sv) = emit bs" using acts_pushes by blast
  then have "restore_ret sv = emit (bs @ [0xC9, 0xC3])" by (simp add: restore_ret_def fun_eq_iff)
  then show ?thesis by simp
qed

lemma get_rax_emits: "get RAX (al_loc al ! v) = emit (get_rax al v)"
  using acts_bytes [OF acts_get [of RAX "al_loc al ! v"]] by (simp add: get_rax_def RAX_def)

lemma term_emits:
  assumes "closed_term t" and "\<forall>v\<in>term_uses t. v < length (al_loc al)"
  shows "emit_term al sv t s = Inr (s\<lparr>fn_em := emit (term_bytes (\<lambda>_ _. 0) al sv (here (fn_em s)) t) (fn_em s),
    fn_jumps := fn_jumps s @ term_jumps al (here (fn_em s)) t\<rparr>)"
proof -
  have l: "loc_of al v = Inr (al_loc al ! v)" if "v \<in> term_uses t" for v
    using assms(2) that by (simp add: loc_of_def)
  show ?thesis
  proof (cases t)
    case (T_Ret r)
    then show ?thesis
    proof (cases r)
      case None
      have "seq [emit [0xB8], imm32 0, restore_ret sv] e = emit ((0xB8 # le32 0) @ bytes_of (restore_ret sv)) e" for e
        by (subst restore_emits) (simp add: imm32_def)
      then show ?thesis by (simp add: T_Ret None fn_emit_def)
    next
      case (Some v)
      have "seq [get RAX (al_loc al ! v), restore_ret sv] e = emit (get_rax al v @ bytes_of (restore_ret sv)) e" for e
        by (subst restore_emits) (simp add: get_rax_emits)
      then show ?thesis using l [of v] by (simp add: T_Ret Some fn_emit_def term_uses_def term_touches_def)
    qed
  next
    case (T_Branch c x y)
    then show ?thesis
    proof (cases c)
      case None
      then show ?thesis by (simp add: T_Branch fn_emit_def jump_window_def imm32_def here_def emit_def)
    next
      case (Some v)
      have "get 0 (al_loc al ! v) e = emit (get_rax al v) e" for e
        using get_rax_emits [of al v] by (simp add: RAX_def)
      then show ?thesis using l [of v]
        by (simp add: T_Branch Some fn_emit_def term_uses_def term_touches_def jump_window_def imm32_def here_def
            emit_def Let_def test_rax_def rex_def modrm_def RAX_def)
    qed
  qed (use assms(1) in simp_all)
qed

section \<open>Blocks\<close>

definition block_bytes :: "(nat \<Rightarrow> block_id \<Rightarrow> i32) \<Rightarrow> bool \<Rightarrow> allocation \<Rightarrow> phys list \<Rightarrow> nat \<Rightarrow> block \<Rightarrow> bytes" where
  "block_bytes w nr al sv p b = instrs_bytes nr al (b_instrs b) @
     term_bytes w al sv (p + length (instrs_bytes nr al (b_instrs b))) (b_term b)"

definition block_jumps :: "bool \<Rightarrow> allocation \<Rightarrow> nat \<Rightarrow> block \<Rightarrow> (nat \<times> block_id) list" where
  "block_jumps nr al p b = term_jumps al (p + length (instrs_bytes nr al (b_instrs b))) (b_term b)"

definition block_len :: "bool \<Rightarrow> allocation \<Rightarrow> phys list \<Rightarrow> block \<Rightarrow> nat" where
  "block_len nr al sv b = length (block_bytes (\<lambda>_ _. 0) nr al sv 0 b)"

lemma length_block_bytes [simp]: "length (block_bytes w nr al sv p b) = block_len nr al sv b"
  unfolding block_len_def block_bytes_def length_append add_left_cancel by (rule length_term_bytes)

fun blocks_bytes :: "(nat \<Rightarrow> block_id \<Rightarrow> i32) \<Rightarrow> bool \<Rightarrow> allocation \<Rightarrow> phys list \<Rightarrow> nat \<Rightarrow> block list \<Rightarrow> bytes" where
  "blocks_bytes w nr al sv p [] = []"
| "blocks_bytes w nr al sv p (b # bs) = block_bytes w nr al sv p b @ blocks_bytes w nr al sv (p + block_len nr al sv b) bs"

fun blocks_starts :: "bool \<Rightarrow> allocation \<Rightarrow> phys list \<Rightarrow> nat \<Rightarrow> block list \<Rightarrow> nat list" where
  "blocks_starts nr al sv p [] = []"
| "blocks_starts nr al sv p (b # bs) = p # blocks_starts nr al sv (p + block_len nr al sv b) bs"

fun blocks_jumps :: "bool \<Rightarrow> allocation \<Rightarrow> phys list \<Rightarrow> nat \<Rightarrow> block list \<Rightarrow> (nat \<times> block_id) list" where
  "blocks_jumps nr al sv p [] = []"
| "blocks_jumps nr al sv p (b # bs) = block_jumps nr al p b @ blocks_jumps nr al sv (p + block_len nr al sv b) bs"

text \<open>A block of the part of the language with a meaning, its registers with homes.\<close>

definition housed_block :: "allocation \<Rightarrow> block \<Rightarrow> bool" where
  "housed_block al b \<longleftrightarrow> (\<forall>i\<in>set (b_instrs b). housed al i) \<and> closed_term (b_term b) \<and>
     (\<forall>v\<in>term_uses (b_term b). v < length (al_loc al))"

lemma block_emits:
  assumes "housed_block al b"
  shows "emit_block nr al sv b s = Inr (s\<lparr>fn_em := emit (block_bytes (\<lambda>_ _. 0) nr al sv (here (fn_em s)) b) (fn_em s),
    fn_starts := fn_starts s @ [here (fn_em s)], fn_jumps := fn_jumps s @ block_jumps nr al (here (fn_em s)) b\<rparr>)"
  using assms by (simp add: housed_block_def emit_block_def instrs_emits term_emits block_bytes_def block_jumps_def here_def)
    (simp add: emit_def)

lemma blocks_emits:
  assumes "\<forall>b\<in>set bs. housed_block al b"
  shows "emit_blocks nr al sv bs s = Inr (s\<lparr>fn_em := emit (blocks_bytes (\<lambda>_ _. 0) nr al sv (here (fn_em s)) bs) (fn_em s),
    fn_starts := fn_starts s @ blocks_starts nr al sv (here (fn_em s)) bs,
    fn_jumps := fn_jumps s @ blocks_jumps nr al sv (here (fn_em s)) bs\<rparr>)"
  using assms
proof (induction bs arbitrary: s)
  case Nil
  then show ?case by (simp add: emit_Nil)
next
  case (Cons b bs)
  have h: "here (emit bs e) = here e + length bs" for bs e by (simp add: here_def emit_def)
  show ?case using Cons by (simp add: block_emits h)
qed

section \<open>Patching\<close>

text \<open>The displacement the patches write.\<close>

definition branch_to :: "nat list \<Rightarrow> nat \<Rightarrow> block_id \<Rightarrow> i32" where
  "branch_to starts site t = rel32_to site (starts ! t)"

lemma patch32_at:
  "e_code e = pre @ le32 x @ post \<Longrightarrow> length pre = n \<Longrightarrow> patch32 n v e = Inr (e\<lparr>e_code := pre @ le32 v @ post\<rparr>)"
  by (auto simp: patch32_def put_slice_def splice_def)

lemma keep_code: "e_code e = c \<Longrightarrow> e\<lparr>e_code := c\<rparr> = e"
  by auto

lemma patch_term:
  assumes "e_code e = pre @ term_bytes (\<lambda>_ _. 0) al sv (length pre) t @ post"
    and "\<forall>(site, x)\<in>set (term_jumps al (length pre) t). x < length starts"
  shows "patch_jumps starts (term_jumps al (length pre) t @ js) e =
    patch_jumps starts js (e\<lparr>e_code := pre @ term_bytes (branch_to starts) al sv (length pre) t @ post\<rparr>)"
proof (cases t)
  case (T_Ret r)
  have "e\<lparr>e_code := pre @ term_bytes (branch_to starts) al sv (length pre) t @ post\<rparr> = e"
    by (rule keep_code) (use assms(1) in \<open>cases r; simp add: T_Ret\<close>)
  then show ?thesis by (simp add: T_Ret)
next
  case (T_Branch c x y)
  show ?thesis
  proof (cases c)
    case None
    have "patch32 (length (pre @ [0xE9])) v e = Inr (e\<lparr>e_code := (pre @ [0xE9]) @ le32 v @ post\<rparr>)" for v
      by (rule patch32_at [where x = 0]) (use assms(1) in \<open>simp_all add: T_Branch None\<close>)
    then show ?thesis using assms(2) by (simp add: T_Branch None branch_to_def)
  next
    case (Some v)
    let ?q = "pre @ get_rax al v @ test_rax @ [0x0F, 0x85]"
    define s1 where "s1 = length ?q"
    have 1: "patch32 s1 d e = Inr (e\<lparr>e_code := ?q @ le32 d @ [0xE9] @ le32 0 @ post\<rparr>)" for d
      by (rule patch32_at [where x = 0]) (use assms(1) in \<open>simp_all add: T_Branch Some Let_def s1_def\<close>)
    have 2: "patch32 (s1 + 5) d' (e\<lparr>e_code := ?q @ le32 d @ [0xE9] @ le32 0 @ post\<rparr>) =
        Inr (e\<lparr>e_code := (?q @ le32 d @ [0xE9]) @ le32 d' @ post\<rparr>)" for d d'
      by (subst patch32_at [where x = 0 and pre = "?q @ le32 d @ [0xE9]"]) (simp_all add: s1_def)
    have q: "length pre + length (get_rax al v) + 3 + 2 = s1" "length pre + length (get_rax al v) + 3 + 7 = s1 + 5"
      by (simp_all add: s1_def test_rax_def)
    show ?thesis using assms(2) 1 2 by (simp add: T_Branch Some Let_def q [simplified] q branch_to_def del: append_assoc) simp
  qed
qed (use keep_code [OF assms(1)] in simp_all)

lemma patch_blocks:
  assumes "e_code e = pre @ blocks_bytes (\<lambda>_ _. 0) nr al sv (length pre) bs"
    and "\<forall>(site, x)\<in>set (blocks_jumps nr al sv (length pre) bs). x < length starts"
  shows "patch_jumps starts (blocks_jumps nr al sv (length pre) bs) e =
    Inr (e\<lparr>e_code := pre @ blocks_bytes (branch_to starts) nr al sv (length pre) bs\<rparr>)"
  using assms
proof (induction bs arbitrary: pre e)
  case Nil
  then show ?case using keep_code by simp
next
  case (Cons b bs)
  let ?is = "instrs_bytes nr al (b_instrs b)"
  let ?r = "\<lambda>w. blocks_bytes w nr al sv (length pre + block_len nr al sv b) bs"
  let ?t = "\<lambda>w. term_bytes w al sv (length (pre @ ?is)) (b_term b)"
  let ?p = "pre @ block_bytes (branch_to starts) nr al sv (length pre) b"
  have len: "length ?p = length pre + block_len nr al sv b" by simp
  have "patch_jumps starts (term_jumps al (length (pre @ ?is)) (b_term b) @ blocks_jumps nr al sv (length ?p) bs) e =
      patch_jumps starts (blocks_jumps nr al sv (length ?p) bs)
        (e\<lparr>e_code := (pre @ ?is) @ ?t (branch_to starts) @ ?r (\<lambda>_ _. 0)\<rparr>)"
    by (rule patch_term) (use Cons.prems in \<open>auto simp: block_bytes_def block_jumps_def\<close>)
  also have "(pre @ ?is) @ ?t (branch_to starts) @ ?r (\<lambda>_ _. 0) = ?p @ ?r (\<lambda>_ _. 0)" by (simp add: block_bytes_def)
  also have "patch_jumps starts (blocks_jumps nr al sv (length ?p) bs) (e\<lparr>e_code := ?p @ ?r (\<lambda>_ _. 0)\<rparr>) =
      Inr (e\<lparr>e_code := ?p @ ?r (branch_to starts)\<rparr>)"
    by (subst Cons.IH) (use Cons.prems(2) in auto)
  finally show ?case by (simp add: block_jumps_def)
qed

section \<open>Finding the code of an instruction\<close>

definition at_instr :: "bool \<Rightarrow> allocation \<Rightarrow> nat \<Rightarrow> block \<Rightarrow> nat \<Rightarrow> nat" where
  "at_instr nr al p b i = p + length (instrs_bytes nr al (take i (b_instrs b)))"

lemma blocks_at:
  "code_at c p (blocks_bytes w nr al sv p bs) \<Longrightarrow> k < length bs \<Longrightarrow>
   code_at c (blocks_starts nr al sv p bs ! k) (block_bytes w nr al sv (blocks_starts nr al sv p bs ! k) (bs ! k))"
proof (induction bs arbitrary: p k)
  case (Cons b bs)
  then show ?case by (cases k) (simp_all add: code_at_append)
qed simp

lemma length_starts [simp]: "length (blocks_starts nr al sv p bs) = length bs"
  by (induction bs arbitrary: p) simp_all

lemma instrs_split:
  "i < length is \<Longrightarrow> instrs_bytes nr al is =
   instrs_bytes nr al (take i is) @ instr_bytes nr al (is ! i) @ instrs_bytes nr al (drop (Suc i) is)"
  by (subst id_take_nth_drop [of i "is"]) (simp_all add: instrs_bytes_def)

lemma instr_at:
  assumes "code_at c p (block_bytes w nr al sv p b)" and "i < length (b_instrs b)"
  shows "code_at c (at_instr nr al p b i) (instr_bytes nr al (b_instrs b ! i))"
    and "at_instr nr al p b (Suc i) = at_instr nr al p b i + length (instr_bytes nr al (b_instrs b ! i))"
proof -
  have "code_at c p (instrs_bytes nr al (b_instrs b))" using assms(1) by (simp add: block_bytes_def code_at_append)
  then show "code_at c (at_instr nr al p b i) (instr_bytes nr al (b_instrs b ! i))"
    by (subst (asm) instrs_split [OF assms(2)]) (simp add: code_at_append at_instr_def)
  show "at_instr nr al p b (Suc i) = at_instr nr al p b i + length (instr_bytes nr al (b_instrs b ! i))"
    using assms(2) by (simp add: at_instr_def instrs_bytes_def take_Suc_conv_app_nth)
qed

lemma term_at:
  assumes "code_at c p (block_bytes w nr al sv p b)"
  shows "code_at c (at_instr nr al p b (length (b_instrs b)))
    (term_bytes w al sv (at_instr nr al p b (length (b_instrs b))) (b_term b))"
  using assms by (simp add: block_bytes_def code_at_append at_instr_def)

end
