(* ===== verification/Function_Correct.thy ===== *)
theory Function_Correct
  imports Code_Layout
begin

text \<open>
  A compiled function against the meaning of its blocks: one step of the intermediate representation is a run of
  the emitted code, and the homes, the memory and the frame stay related. What the code generator
  needs of the register allocator is a locale; the allocator of \<open>Regalloc\<close> is its interpretation.
\<close>

section \<open>Simulations\<close>

locale forward_simulation =
  fixes astep :: "'a \<Rightarrow> 'a \<Rightarrow> bool"
    and crun :: "'c \<Rightarrow> 'c \<Rightarrow> bool"
    and related :: "'a \<Rightarrow> 'c \<Rightarrow> bool"
  assumes crun_refl: "crun c c"
    and crun_trans: "crun c c' \<Longrightarrow> crun c' c'' \<Longrightarrow> crun c c''"
    and simulated: "related a c \<Longrightarrow> astep a a' \<Longrightarrow> \<exists>c'. crun c c' \<and> related a' c'"
begin

lemma runs_simulated: "astep\<^sup>*\<^sup>* a a' \<Longrightarrow> related a c \<Longrightarrow> \<exists>c'. crun c c' \<and> related a' c'"
proof (induction rule: rtranclp_induct)
  case base
  then show ?case using crun_refl by blast
next
  case (step a' a'')
  then show ?case using simulated crun_trans by meson
qed

end

section \<open>A running function\<close>

text \<open>
  The blocks, their allocation, the frame, the memory when the prologue ended, and the values on entry of the
  registers the caller keeps.
\<close>

record activation =
  ac_blocks :: "block list"
  ac_alloc :: allocation
  ac_frame :: frame
  ac_mem :: "u64 \<Rightarrow> u8"
  ac_keep :: "phys \<Rightarrow> u64"

abbreviation home_of :: "activation \<Rightarrow> vreg \<Rightarrow> loc" where "home_of A v \<equiv> al_loc (ac_alloc A) ! v"

text \<open>The state of the processor that stands for a state of the intermediate representation at a point.\<close>

definition matches :: "activation \<Rightarrow> block_id \<Rightarrow> nat \<Rightarrow> ir_state \<Rightarrow> mstate \<Rightarrow> bool" where
  "matches A b i st s \<longleftrightarrow> frame_holds (ac_frame A) (ac_mem A) s \<and>
     (\<forall>v. live (ac_blocks A) v b i \<longrightarrow> home (home_of A v) s = vals st v) \<and>
     (\<forall>a. \<not> in_frame (ac_frame A) a \<longrightarrow> mem s a = store st a) \<and>
     (\<forall>r. r \<notin> set (savers (ac_alloc A)) \<longrightarrow> regs s (phys_id r) = ac_keep A r)"

text \<open>What the code relies on: the promises of the allocator.\<close>

locale home_discipline =
  fixes allocated :: "block list \<Rightarrow> allocation \<Rightarrow> frame \<Rightarrow> bool"
  assumes frame_fits: "allocated bs al fr \<Longrightarrow> frame_ok fr"
    and live_housed: "allocated bs al fr \<Longrightarrow> live bs v b i \<Longrightarrow> v < length (al_loc al) \<and> home_in fr (al_loc al ! v)"
    and result_housed: "allocated bs al fr \<Longrightarrow> b < length bs \<Longrightarrow> i < length (b_instrs (bs ! b)) \<Longrightarrow>
      d \<in> defs (b_instrs (bs ! b) ! i) \<Longrightarrow> d < length (al_loc al) \<and> home_in fr (al_loc al ! d)"
    and result_spares: "allocated bs al fr \<Longrightarrow> b < length bs \<Longrightarrow> i < length (b_instrs (bs ! b)) \<Longrightarrow>
      d \<in> defs (b_instrs (bs ! b) ! i) \<Longrightarrow> live bs w b (Suc i) \<Longrightarrow> w \<noteq> d \<Longrightarrow> al_loc al ! d \<noteq> al_loc al ! w"
begin

lemma live_home:
  "allocated bs al fr \<Longrightarrow> live bs v b i \<Longrightarrow> v < length (al_loc al)"
  "allocated bs al fr \<Longrightarrow> live bs v b i \<Longrightarrow> home_in fr (al_loc al ! v)"
  using live_housed by blast+

end

lemma saver_home: "v < length (al_loc al) \<Longrightarrow> al_loc al ! v = In_Reg r \<Longrightarrow> r \<in> set (savers al)"
proof -
  assume "v < length (al_loc al)" "al_loc al ! v = In_Reg r"
  then have "In_Reg r \<in> set (al_loc al)" by (metis nth_mem)
  then show ?thesis by (force simp: savers_def List.map_filter_def)
qed

lemma set_home_other_reg: "l \<noteq> In_Reg r \<Longrightarrow> regs (set_home l x s) (phys_id r) = regs s (phys_id r)"
  by (cases l) auto

lemma agree_matches: "agree s' s \<Longrightarrow> matches A b i st s \<Longrightarrow> matches A b i st s'"
proof -
  assume a: "agree s' s" and m: "matches A b i st s"
  have "home l s' = home l s" for l by (rule home_agree [OF a])
  moreover have "regs s' 5 = regs s 5" "regs s' 4 = regs s 4" "mem s' = mem s" "regs s' (phys_id r) = regs s (phys_id r)" for r
    using a by (auto simp: agree_def kept_iff)
  ultimately show ?thesis using m by (simp add: matches_def frame_holds_def)
qed

section \<open>One instruction\<close>

lemma frame_holds_same:
  "frame_holds fr m0 s \<Longrightarrow> regs s' 5 = regs s 5 \<Longrightarrow> regs s' 4 = regs s 4 \<Longrightarrow>
   (\<And>a. in_frame fr a \<Longrightarrow> \<not> in_slots fr a \<Longrightarrow> mem s' a = mem s a) \<Longrightarrow> frame_holds fr m0 s'"
  by (simp add: frame_holds_def)

lemma matches_open: "matches A b i st s \<Longrightarrow> same_open (in_frame (ac_frame A)) (mem s) (store st)"
  by (simp add: matches_def same_open_def)

lemma set_home_keeps:
  assumes "frame_ok fr" and "home_in fr l" and "frame_holds fr m0 s"
  shows "frame_holds fr m0 (set_home l x s)" and "\<not> in_frame fr a \<Longrightarrow> mem (set_home l x s) a = mem s a"
proof -
  have bp: "regs s 5 = fr_base fr" using assms(3) by (simp add: frame_holds_def)
  have mem: "\<not> in_slots fr a \<Longrightarrow> mem (set_home l x s) a = mem s a" for a by (rule set_home_mem [OF assms(1,2) bp])
  show "frame_holds fr m0 (set_home l x s)"
    by (rule frame_holds_same [OF assms(3)]) (use mem in \<open>simp_all add: set_home_frame\<close>)
  show "\<not> in_frame fr a \<Longrightarrow> mem (set_home l x s) a = mem s a"
    using mem [of a] slots_in_frame [OF assms(1), of a] by blast
qed

text \<open>A result goes to a home of its own.\<close>

lemma matches_set_home:
  assumes m: "matches A b i st s" and fr: "frame_ok (ac_frame A)"
    and d: "d < length (al_loc (ac_alloc A))" "home_in (ac_frame A) (home_of A d)"
    and others: "\<And>w. live (ac_blocks A) w b' j \<Longrightarrow> w \<noteq> d \<Longrightarrow>
      live (ac_blocks A) w b i \<and> home_in (ac_frame A) (home_of A w) \<and> home_of A d \<noteq> home_of A w"
    and st': "vals st' = (vals st)(d := x)" "store st' = store st"
  shows "matches A b' j st' (set_home (home_of A d) x s)"
proof -
  let ?fr = "ac_frame A" and ?s = "set_home (home_of A d) x s"
  note mm = m [unfolded matches_def]
  have bp: "regs s 5 = fr_base ?fr" using mm by (simp add: frame_holds_def)
  have holds: "frame_holds ?fr (ac_mem A) s" using mm by simp
  have "frame_holds ?fr (ac_mem A) ?s" by (rule set_home_keeps(1) [OF fr d(2) holds])
  moreover have "home (home_of A w) ?s = vals st' w" if w: "live (ac_blocks A) w b' j" for w
  proof (cases "w = d")
    case True
    then show ?thesis by (simp add: st' home_set_same [OF bp])
  next
    case False
    then show ?thesis using others [OF w] home_set_other [OF fr d(2) _ _ bp] mm st' by simp
  qed
  moreover have "mem ?s a = store st' a" if "\<not> in_frame ?fr a" for a
    using set_home_keeps(2) [OF fr d(2) holds that] that mm st' by simp
  moreover have "regs ?s (phys_id r) = ac_keep A r" if "r \<notin> set (savers (ac_alloc A))" for r
  proof -
    have "home_of A d \<noteq> In_Reg r" using that saver_home [OF d(1), of r] by blast
    then show ?thesis using that mm by (simp add: set_home_other_reg)
  qed
  ultimately show ?thesis by (simp add: matches_def)
qed

lemma home_open:
  assumes "frame_ok fr" and "home_in fr l" and "regs s 5 = fr_base fr" and "\<And>a. in_frame fr a \<Longrightarrow> m a = mem s a"
  shows "home l (s\<lparr>mem := m\<rparr>) = home l s"
proof (cases l)
  case (In_Slot k)
  have "m (slot_at k s + of_nat j) = mem s (slot_at k s + of_nat j)" if "j < 8" for j
    using slot_bytes_in [OF assms(1) _ assms(3) that, of k] slots_in_frame [OF assms(1)] assms(2,4) In_Slot by simp
  then have "ld64 m (slot_at k s) = ld64 (mem s) (slot_at k s)" by (rule ld64_cong)
  then show ?thesis by (simp add: In_Slot slot_at_def)
qed simp

text \<open>A write to open memory leaves the frame alone.\<close>

lemma matches_set_mem:
  assumes m: "matches A b i st s" and fr: "frame_ok (ac_frame A)"
    and others: "\<And>w. live (ac_blocks A) w b' j \<Longrightarrow> live (ac_blocks A) w b i \<and> home_in (ac_frame A) (home_of A w)"
    and st': "vals st' = vals st" and op: "same_open (in_frame (ac_frame A)) mm (store st')"
    and gd: "\<And>a. in_frame (ac_frame A) a \<Longrightarrow> mm a = mem s a"
  shows "matches A b' j st' (s\<lparr>mem := mm\<rparr>)"
proof -
  let ?fr = "ac_frame A"
  note mt = m [unfolded matches_def]
  have bp: "regs s 5 = fr_base ?fr" using mt by (simp add: frame_holds_def)
  have "frame_holds ?fr (ac_mem A) (s\<lparr>mem := mm\<rparr>)"
    by (rule frame_holds_same [of _ _ s]) (use mt gd in simp_all)
  moreover have "home (home_of A w) (s\<lparr>mem := mm\<rparr>) = vals st' w" if w: "live (ac_blocks A) w b' j" for w
    using others [OF w] mt home_open [OF fr _ bp gd] by (simp add: st')
  ultimately show ?thesis using mt op by (simp add: matches_def same_open_def)
qed

context home_discipline
begin

lemma instr_matches:
  assumes al: "allocated (ac_blocks A) (ac_alloc A) (ac_frame A)"
    and m: "matches A b i st s" and b: "b < length (ac_blocks A)" "i < length (b_instrs (ac_blocks A ! b))"
    and run: "ir_instr (in_frame (ac_frame A)) (b_instrs (ac_blocks A ! b) ! i) st = Some st'"
  shows "\<exists>t. mach_instr (ac_alloc A) (b_instrs (ac_blocks A ! b) ! i) s = Some t \<and> matches A b (Suc i) st' t"
proof -
  let ?i = "b_instrs (ac_blocks A ! b) ! i" and ?sa = "abstract_state (ac_alloc A) s"
  have fr: "frame_ok (ac_frame A)" by (rule frame_fits [OF al])
  have v: "vals ?sa v = vals st v" if "v \<in> uses ?i" for v
    using live_use [OF b that] m by (simp add: matches_def)
  obtain sa' where sa': "ir_instr (\<lambda>_. False) ?i ?sa = Some sa'" "agrees_after (in_frame (ac_frame A)) ?i st st' ?sa sa'"
    using ir_instr_agrees [OF run, where sa = ?sa] v matches_open [OF m] by auto
  have before: "live (ac_blocks A) w b i" if "live (ac_blocks A) w b (Suc i)" "w \<notin> defs ?i" for w
    using live_skip [OF b that(2,1)] .
  have "matches A b (Suc i) st' (put_result (ac_alloc A) ?i sa' s)"
  proof (cases "result_of ?i")
    case (Some d)
    then have d: "d \<in> defs ?i" by (simp add: defs_result)
    have "matches A b (Suc i) st' (set_home (home_of A d) (vals sa' d) s)"
    proof (rule matches_set_home [OF m fr])
      show "d < length (al_loc (ac_alloc A))" "home_in (ac_frame A) (home_of A d)"
        using result_housed [OF al b d] by simp_all
      show "live (ac_blocks A) w b i \<and> home_in (ac_frame A) (home_of A w) \<and> home_of A d \<noteq> home_of A w"
        if "live (ac_blocks A) w b (Suc i)" "w \<noteq> d" for w
        using before [OF that(1)] live_home [OF al that(1)] result_spares [OF al b d that] that(2) Some
        by (simp add: defs_result)
    qed (use sa'(2) Some in \<open>simp_all add: agrees_after_def\<close>)
    then show ?thesis by (simp add: put_result_def Some)
  next
    case None
    have "matches A b (Suc i) st' (s\<lparr>mem := store sa'\<rparr>)"
    proof (rule matches_set_mem [OF m fr])
      show "live (ac_blocks A) w b i \<and> home_in (ac_frame A) (home_of A w)" if "live (ac_blocks A) w b (Suc i)" for w
        using before [OF that] live_home [OF al that] None by (simp add: defs_result)
    qed (use sa'(2) None in \<open>simp_all add: agrees_after_def\<close>)
    then show ?thesis by (simp add: put_result_def None)
  qed
  then show ?thesis by (simp add: mach_instr_def sa'(1))
qed

end

section \<open>The allocator keeps the discipline\<close>

definition allocator_promise :: "block list \<Rightarrow> allocation \<Rightarrow> frame \<Rightarrow> bool" where
  "allocator_promise bs al fr \<longleftrightarrow> frame_ok fr \<and> fr_slots fr = unat (al_spills al) \<and>
     (\<exists>f. wf_function f \<and> allocate f = Inr al \<and> f_blocks f = bs)"

lemma wf_vregs: "wf_function f \<Longrightarrow> f_vregs f < 2 ^ 32"
  by (simp add: wf_function_def)

lemma live_bounded:
  assumes wf: "wf_function f"
  shows "live (f_blocks f) v b i \<Longrightarrow> v < f_vregs f"
proof (induction rule: live.induct)
  case (live_use b i)
  then have "uses (b_instrs (f_blocks f ! b) ! i) \<union> defs (b_instrs (f_blocks f ! b) ! i) \<subseteq> {..<f_vregs f}"
    using wf nth_mem [OF live_use(1)] nth_mem [OF live_use(2)] unfolding wf_function_def by blast
  then show ?case using live_use(3) by auto
next
  case (live_term b i)
  then have "term_uses (b_term (f_blocks f ! b)) \<subseteq> {..<f_vregs f}"
    using wf nth_mem [OF live_term(1)] unfolding wf_function_def by blast
  then show ?case using live_term(3) by auto
qed simp_all

lemma result_bounded:
  assumes wf: "wf_function f" and b: "b < length (f_blocks f)" "i < length (b_instrs (f_blocks f ! b))"
    and v: "v \<in> uses (b_instrs (f_blocks f ! b) ! i) \<union> defs (b_instrs (f_blocks f ! b) ! i)"
  shows "v < f_vregs f"
  using wf nth_mem [OF b(1)] nth_mem [OF b(2)] v unfolding wf_function_def by blast

lemma allocated_home:
  assumes "allocate f = Inr al" and "wf_function f" and "fr_slots fr = unat (al_spills al)" and "v < f_vregs f"
  shows "v < length (al_loc al) \<and> home_in fr (al_loc al ! v)"
  using allocate_homes [OF assms(1) wf_vregs [OF assms(2)] assms(4)] assms(3,4)
  by (cases "al_loc al ! v") (simp_all add: word_less_nat_alt)

interpretation home_discipline allocator_promise
proof
  fix bs al fr v b i d w
  assume p: "allocator_promise bs al fr"
  then obtain f where f: "wf_function f" "allocate f = Inr al" "bs = f_blocks f" and s: "fr_slots fr = unat (al_spills al)"
    by (auto simp: allocator_promise_def)
  show "frame_ok fr" using p by (simp add: allocator_promise_def)
  show "v < length (al_loc al) \<and> home_in fr (al_loc al ! v)" if "live bs v b i"
    using live_bounded [OF f(1)] that f(3) allocated_home [OF f(2,1) s] by simp
  assume b: "b < length bs" "i < length (b_instrs (bs ! b))" and d: "d \<in> defs (b_instrs (bs ! b) ! i)"
  show "d < length (al_loc al) \<and> home_in fr (al_loc al ! d)"
    using allocated_home [OF f(2,1) s] result_bounded [OF f(1)] b d by (simp add: f(3))
  show "al_loc al ! d \<noteq> al_loc al ! w" if "live bs w b (Suc i)" "w \<noteq> d"
    using result_spares_homes [OF f(2) wf_vregs [OF f(1)]] b d that by (simp add: f(3))
qed

section \<open>Branches\<close>

lemma rel32_jump:
  assumes "site + 4 < 2 ^ 31" and "q < 2 ^ 31"
  shows "jump_to (site + 4) (sint (rel32_to site q)) = Some (Next q)"
proof -
  let ?z = "int q - int (site + 4)"
  have "signed_take_bit 31 ?z = ?z" using assms by (intro signed_take_bit_int_eq_self) simp_all
  moreover have "sint (of_int z :: i32) = signed_take_bit 31 z" for z by (simp add: signed_of_int)
  ultimately have "sint (rel32_to site q) = ?z" by (simp only: rel32_to_def)
  then show ?thesis by (simp only: jump_to_def) simp
qed

lemma code_at_step_first: "code_at c p bs \<Longrightarrow> decode_x86 bs = Some (i, n) \<Longrightarrow> step sys c (p, s) = step_at sys i (p + n) s"
  using decode_append by (auto simp: code_at_def step_def)

lemma decode_branch:
  "decode_x86 (0xE9 # le32 d) = Some (Jmp (sint d), 5)"
  "decode_x86 (0x0F # 0x85 # le32 d) = Some (Jcc 5 (sint d), 6)"
  "decode_x86 test_rax = Some (Alu Test (Reg 0) (Reg 0), 3)"
  by (simp_all add: decode_simps imm32_op_def test_rax_def)

lemma cond_nonzero: "cond 5 s \<longleftrightarrow> \<not> zf s"
  by (simp add: cond_def)

lemma step_goto:
  assumes "code_at c p (0xE9 # le32 (rel32_to (p + 1) q))" and "p + 5 < 2 ^ 31" and "q < 2 ^ 31"
  shows "step sys c (p, s) = Some (Next q, s)"
  using code_at_step_first [OF assms(1) decode_branch(1)] rel32_jump [of "p + 1" q] assms(2,3) by (simp add: add.commute)

lemma step_jnz:
  assumes "code_at c p (0x0F # 0x85 # le32 (rel32_to (p + 2) q))" and "p + 6 < 2 ^ 31" and "q < 2 ^ 31"
  shows "step sys c (p, s) = Some (Next (if zf s then p + 6 else q), s)"
  using code_at_step_first [OF assms(1) decode_branch(2)] rel32_jump [of "p + 2" q] assms(2,3) by (simp add: cond_nonzero add.commute)

section \<open>The code of a function in place\<close>

text \<open>The offsets of the blocks when the first one stands at \<open>p\<close>, and the offset of a point.\<close>

definition starts_of :: "bool \<Rightarrow> activation \<Rightarrow> nat \<Rightarrow> nat list" where
  "starts_of nr A p = blocks_starts nr (ac_alloc A) (savers (ac_alloc A)) p (ac_blocks A)"

definition body_bytes :: "bool \<Rightarrow> activation \<Rightarrow> nat \<Rightarrow> bytes" where
  "body_bytes nr A p = blocks_bytes (branch_to (starts_of nr A p)) nr (ac_alloc A) (savers (ac_alloc A)) p (ac_blocks A)"

definition offset_of :: "bool \<Rightarrow> activation \<Rightarrow> nat \<Rightarrow> block_id \<Rightarrow> nat \<Rightarrow> nat" where
  "offset_of nr A p b i = at_instr nr (ac_alloc A) (starts_of nr A p ! b) (ac_blocks A ! b) i"

definition fn_placed :: "bool \<Rightarrow> activation \<Rightarrow> bytes \<Rightarrow> nat \<Rightarrow> bool" where
  "fn_placed nr A c p \<longleftrightarrow> allocator_promise (ac_blocks A) (ac_alloc A) (ac_frame A) \<and> code_at c p (body_bytes nr A p) \<and>
     p + length (body_bytes nr A p) < 2 ^ 31 \<and>
     (\<forall>b\<in>set (ac_blocks A). housed_block (ac_alloc A) b \<and> (\<forall>t\<in>set (succs b). t < length (ac_blocks A)))"

lemma body_lookup:
  assumes "fn_placed nr A c p" and "b < length (ac_blocks A)"
  shows "code_at c (starts_of nr A p ! b) (block_bytes (branch_to (starts_of nr A p)) nr (ac_alloc A) (savers (ac_alloc A))
    (starts_of nr A p ! b) (ac_blocks A ! b))"
  using assms blocks_at by (simp add: fn_placed_def body_bytes_def starts_of_def)

lemma starts_bound:
  "k < length bs \<Longrightarrow> blocks_starts nr al sv p bs ! k + block_len nr al sv (bs ! k) \<le> p + length (blocks_bytes w nr al sv p bs)"
proof (induction bs arbitrary: p k)
  case (Cons b bs)
  show ?case
  proof (cases k)
    case (Suc j)
    then have "j < length bs" using Cons.prems by simp
    from Cons.IH [OF this, of "p + block_len nr al sv b"] show ?thesis by (simp add: Suc add.assoc)
  qed simp
qed simp

lemma offset_next:
  assumes "fn_placed nr A c p" and "b < length (ac_blocks A)" and "i < length (b_instrs (ac_blocks A ! b))"
  shows "code_at c (offset_of nr A p b i) (instr_bytes nr (ac_alloc A) (b_instrs (ac_blocks A ! b) ! i))"
    and "offset_of nr A p b (Suc i) = offset_of nr A p b i + length (instr_bytes nr (ac_alloc A) (b_instrs (ac_blocks A ! b) ! i))"
  using instr_at [OF body_lookup [OF assms(1,2)] assms(3)] by (simp_all add: offset_of_def)

lemma offset_term:
  assumes "fn_placed nr A c p" and "b < length (ac_blocks A)"
  shows "code_at c (offset_of nr A p b (length (b_instrs (ac_blocks A ! b))))
    (term_bytes (branch_to (starts_of nr A p)) (ac_alloc A) (savers (ac_alloc A))
      (offset_of nr A p b (length (b_instrs (ac_blocks A ! b)))) (b_term (ac_blocks A ! b)))"
  using term_at [OF body_lookup [OF assms]] by (simp add: offset_of_def)

lemma offset_term_bound:
  assumes "fn_placed nr A c p" and "b < length (ac_blocks A)"
  shows "offset_of nr A p b (length (b_instrs (ac_blocks A ! b))) +
    length (term_bytes w (ac_alloc A) (savers (ac_alloc A)) q (b_term (ac_blocks A ! b))) < 2 ^ 31"
proof -
  let ?b = "ac_blocks A ! b" and ?al = "ac_alloc A"
  have "offset_of nr A p b (length (b_instrs ?b)) + length (term_bytes w ?al (savers ?al) q (b_term ?b)) =
      starts_of nr A p ! b + block_len nr ?al (savers ?al) ?b"
    by (simp add: offset_of_def at_instr_def block_len_def block_bytes_def length_term_bytes [of w _ _ q _ "\<lambda>_ _. 0"
        "length (instrs_bytes nr ?al (b_instrs ?b))"])
  also have "\<dots> \<le> p + length (body_bytes nr A p)"
    using starts_bound [OF assms(2)] by (simp add: starts_of_def body_bytes_def)
  finally show ?thesis using assms(1) by (simp add: fn_placed_def)
qed

lemma start_bound:
  assumes "fn_placed nr A c p" and "b < length (ac_blocks A)"
  shows "starts_of nr A p ! b < 2 ^ 31"
  using starts_bound [OF assms(2), of nr "ac_alloc A" "savers (ac_alloc A)" p "branch_to (starts_of nr A p)"] assms(1)
  by (simp add: fn_placed_def starts_of_def body_bytes_def)

section \<open>The relation\<close>

text \<open>At the epilogue: the result is in \<open>rax\<close>, the frame still stands.\<close>

definition at_epilogue :: "activation \<Rightarrow> bytes \<Rightarrow> u64 \<Rightarrow> ir_state \<Rightarrow> nat \<times> mstate \<Rightarrow> bool" where
  "at_epilogue A c x st cfg \<longleftrightarrow> code_at c (fst cfg) (bytes_of (restore_ret (savers (ac_alloc A)))) \<and>
     regs (snd cfg) 0 = x \<and> frame_holds (ac_frame A) (ac_mem A) (snd cfg) \<and>
     (\<forall>a. \<not> in_frame (ac_frame A) a \<longrightarrow> mem (snd cfg) a = store st a) \<and>
     (\<forall>r. r \<notin> set (savers (ac_alloc A)) \<longrightarrow> regs (snd cfg) (phys_id r) = ac_keep A r)"

definition fn_related :: "bool \<Rightarrow> activation \<Rightarrow> bytes \<Rightarrow> nat \<Rightarrow> ir_point \<times> ir_state \<Rightarrow> nat \<times> mstate \<Rightarrow> bool" where
  "fn_related nr A c p conf cfg \<longleftrightarrow> fn_placed nr A c p \<and> (case fst conf of
     At b i \<Rightarrow> b < length (ac_blocks A) \<and> i \<le> length (b_instrs (ac_blocks A ! b)) \<and> fst cfg = offset_of nr A p b i \<and>
       matches A b i (snd conf) (snd cfg)
   | Returned x \<Rightarrow> at_epilogue A c x (snd conf) cfg)"

lemma fn_related_simps:
  "fn_related nr A c p (At b i, st) (ip, s) \<longleftrightarrow> fn_placed nr A c p \<and> b < length (ac_blocks A) \<and>
     i \<le> length (b_instrs (ac_blocks A ! b)) \<and> ip = offset_of nr A p b i \<and> matches A b i st s"
  "fn_related nr A c p (Returned x, st) cfg \<longleftrightarrow> fn_placed nr A c p \<and> at_epilogue A c x st cfg"
  by (simp_all add: fn_related_def)

lemma sim_instr:
  assumes r: "fn_related nr A c p (At b i, st) (ip, s)" and i: "i < length (b_instrs (ac_blocks A ! b))"
    and run: "ir_instr (in_frame (ac_frame A)) (b_instrs (ac_blocks A ! b) ! i) st = Some st'"
  shows "\<exists>cfg. steps sys c (ip, s) cfg \<and> fn_related nr A c p (At b (Suc i), st') cfg"
proof -
  let ?i = "b_instrs (ac_blocks A ! b) ! i"
  note rr = r [unfolded fn_related_simps]
  have al: "allocator_promise (ac_blocks A) (ac_alloc A) (ac_frame A)" using rr by (simp add: fn_placed_def)
  have b: "b < length (ac_blocks A)" using rr by simp
  have "housed (ac_alloc A) ?i" using rr nth_mem [OF b] nth_mem [OF i] by (auto simp: fn_placed_def housed_block_def)
  moreover obtain t where t: "mach_instr (ac_alloc A) ?i s = Some t" "matches A b (Suc i) st' t"
    using instr_matches [OF al _ b i run] rr by blast
  ultimately obtain s' where s': "runs (instr_bytes nr (ac_alloc A) ?i) s s'" "agree s' t" using instr_emits(2) by blast
  have "steps sys c (ip, s) (offset_of nr A p b (Suc i), s')"
    using s'(1) offset_next [of nr A c p b i] rr i by (simp add: runs_def)
  moreover have "fn_related nr A c p (At b (Suc i), st') (offset_of nr A p b (Suc i), s')"
    using rr i agree_matches [OF s'(2) t(2)] by (simp add: fn_related_simps)
  ultimately show ?thesis by blast
qed

section \<open>Terminators\<close>

lemma runs_get_rax: "runs (get_rax al v) s (set_reg 0 (home (al_loc al ! v) s) s)"
  using acts_bytes [OF acts_get [of RAX "al_loc al ! v"]] by (simp add: get_rax_def RAX_def)

lemma runs_zero_rax: "runs (0xB8 # le32 0) s (set_reg 0 0 s)"
  by (rule runs_instr [where i = "MovImm32 (Reg 0) 0"]) (simp_all add: decode_simps set_reg_def)

lemma length_test: "length test_rax = 3"
  by (simp add: test_rax_def)

lemma runs_test_rax: "runs test_rax s (alu_flags Test (regs s 0) (regs s 0) s)"
  by (rule runs_instr [where i = "Alu Test (Reg 0) (Reg 0)"], simp add: decode_branch(3), simp add: test_rax_def)
    (simp add: writes_back_def Let_def)

lemma runs_steps: "runs bs s s' \<Longrightarrow> code_at c p bs \<Longrightarrow> steps sys c (p, s) (p + length bs, s')"
  by (simp add: runs_def)

lemma matches_succ:
  assumes "matches A b (length (b_instrs (ac_blocks A ! b))) st s" and "b < length (ac_blocks A)"
    and "t \<in> set (succs (ac_blocks A ! b))" and "agree s' s"
  shows "matches A t 0 st s'"
proof -
  have "live (ac_blocks A) v b (length (b_instrs (ac_blocks A ! b)))" if "live (ac_blocks A) v t 0" for v
    using live_succ [OF assms(2) refl assms(3) that] .
  then have "matches A t 0 st s" using assms(1) by (simp add: matches_def)
  then show ?thesis by (rule agree_matches [OF assms(4)])
qed

lemma matches_term_use:
  "matches A b (length (b_instrs (ac_blocks A ! b))) st s \<Longrightarrow> b < length (ac_blocks A) \<Longrightarrow>
   v \<in> term_uses (b_term (ac_blocks A ! b)) \<Longrightarrow> home (home_of A v) s = vals st v"
  using live_term [of b "ac_blocks A" "length (b_instrs (ac_blocks A ! b))" v] by (simp add: matches_def)

lemma agree_rax: "agree (set_reg 0 x s) s"
  by (simp add: agree_set_scratch)

lemma epilogue_reached:
  assumes "matches A b i st s" and "agree s' s" and "regs s' 0 = x"
    and "code_at c q (bytes_of (restore_ret (savers (ac_alloc A))))"
  shows "at_epilogue A c x st (q, s')"
  using agree_matches [OF assms(2,1)] assms(3,4) by (simp add: at_epilogue_def matches_def)

lemma related_start:
  assumes "fn_placed nr A c p" and "b < length (ac_blocks A)" and "t \<in> set (succs (ac_blocks A ! b))"
    and "matches A t 0 st s"
  shows "fn_related nr A c p (At t 0, st) (starts_of nr A p ! t, s)"
proof -
  have "t < length (ac_blocks A)" using assms(1,3) nth_mem [OF assms(2)] by (auto simp: fn_placed_def)
  then show ?thesis using assms by (simp add: fn_related_simps offset_of_def at_instr_def instrs_bytes_def)
qed

lemma sim_ret:
  assumes r: "fn_related nr A c p (At b (length (b_instrs (ac_blocks A ! b))), st) (ip, s)"
    and t: "b_term (ac_blocks A ! b) = T_Ret r" and x: "x = (case r of Some v \<Rightarrow> vals st v | None \<Rightarrow> 0)"
  shows "\<exists>cfg. steps sys c (ip, s) cfg \<and> fn_related nr A c p (Returned x, st) cfg"
proof -
  note rr = r [unfolded fn_related_simps]
  let ?m = "case r of Some v \<Rightarrow> get_rax (ac_alloc A) v | None \<Rightarrow> 0xB8 # le32 0"
  have c: "code_at c ip (?m @ bytes_of (restore_ret (savers (ac_alloc A))))"
    using offset_term [of nr A c p b] rr by (cases r) (simp_all add: t)
  have "runs ?m s (set_reg 0 x s)"
  proof (cases r)
    case (Some v)
    have "home (home_of A v) s = vals st v"
      using rr by (intro matches_term_use [of A b]) (simp_all add: t Some term_uses_def term_touches_def)
    then show ?thesis using runs_get_rax [of "ac_alloc A" v s] by (simp add: Some x)
  qed (simp add: x runs_zero_rax)
  then have "steps sys c (ip, s) (ip + length ?m, set_reg 0 x s)" using c by (intro runs_steps) (simp_all add: code_at_append)
  moreover have "at_epilogue A c x st (ip + length ?m, set_reg 0 x s)"
    using rr c by (intro epilogue_reached [of A b "length (b_instrs (ac_blocks A ! b))", OF _ agree_rax]) (simp_all add: code_at_append)
  ultimately show ?thesis using rr fn_related_simps(2) by blast
qed

lemma sim_goto:
  assumes r: "fn_related nr A c p (At b (length (b_instrs (ac_blocks A ! b))), st) (ip, s)"
    and t: "b_term (ac_blocks A ! b) = T_Branch None x y"
  shows "\<exists>cfg. steps sys c (ip, s) cfg \<and> fn_related nr A c p (At x 0, st) cfg"
proof -
  note rr = r [unfolded fn_related_simps]
  have b: "b < length (ac_blocks A)" and pl: "fn_placed nr A c p" and s: "x \<in> set (succs (ac_blocks A ! b))"
    using rr by (simp_all add: succs_def t)
  have "x < length (ac_blocks A)" using pl s nth_mem [OF b] by (auto simp: fn_placed_def)
  then have q: "starts_of nr A p ! x < 2 ^ 31" by (rule start_bound [OF pl])
  have "ip + 5 < 2 ^ 31" using offset_term_bound [OF pl b] rr by (simp add: t)
  then have "step sys c (ip, s) = Some (Next (starts_of nr A p ! x), s)"
    using offset_term [OF pl b] rr q by (intro step_goto) (simp_all add: t branch_to_def)
  then have "steps sys c (ip, s) (starts_of nr A p ! x, s)" by (rule steps_step) (rule steps_refl)
  moreover have "matches A x 0 st s" using rr s by (intro matches_succ [of A b st s x, OF _ _ _ agree_refl]) simp_all
  ultimately show ?thesis using related_start [OF pl b s] by blast
qed

lemma agree_alu_flags: "agree (alu_flags f a b s) t \<longleftrightarrow> agree s t"
  by (simp add: alu_flags_def flags_of_def)

lemma sim_branch:
  assumes r: "fn_related nr A c p (At b (length (b_instrs (ac_blocks A ! b))), st) (ip, s)"
    and t: "b_term (ac_blocks A ! b) = T_Branch (Some v) x y"
  shows "\<exists>cfg. steps sys c (ip, s) cfg \<and> fn_related nr A c p (At (if vals st v \<noteq> 0 then x else y) 0, st) cfg"
proof -
  note rr = r [unfolded fn_related_simps]
  let ?g = "get_rax (ac_alloc A) v" and ?w = "branch_to (starts_of nr A p)"
  let ?q = "ip + length ?g + 3"
  have b: "b < length (ac_blocks A)" and pl: "fn_placed nr A c p" and s: "set (succs (ac_blocks A ! b)) = {x, y}"
    using rr by (simp_all add: succs_def t)
  have "x < length (ac_blocks A)" "y < length (ac_blocks A)" using pl s nth_mem [OF b] by (auto simp: fn_placed_def)
  then have q: "starts_of nr A p ! x < 2 ^ 31" "starts_of nr A p ! y < 2 ^ 31" using start_bound [OF pl] by blast+
  have len: "?q + 11 < 2 ^ 31" using offset_term_bound [OF pl b] rr by (simp add: t Let_def test_rax_def)
  have c: "code_at c ip (?g @ test_rax @ (0x0F # 0x85 # le32 (?w (?q + 2) x)) @ (0xE9 # le32 (?w (?q + 7) y)))"
    using offset_term [OF pl b] rr by (simp add: t Let_def)
  have home: "home (home_of A v) s = vals st v"
    using rr by (intro matches_term_use [of A b]) (simp_all add: t term_uses_def term_touches_def)
  define s1 where "s1 = set_reg 0 (vals st v) s"
  define s2 where "s2 = alu_flags Test (vals st v) (vals st v) s1"
  have 1: "runs (?g @ test_rax) s s2"
    using runs_append [OF runs_get_rax [of "ac_alloc A" v s] runs_test_rax] by (simp add: home s1_def s2_def)
  have at: "code_at c ip (?g @ test_rax)" "code_at c ?q (0x0F # 0x85 # le32 (rel32_to (?q + 2) (starts_of nr A p ! x)))"
    "code_at c (?q + 6) (0xE9 # le32 (rel32_to (?q + 6 + 1) (starts_of nr A p ! y)))"
    using c [unfolded code_at_append] by (simp_all add: code_at_append branch_to_def length_test ac_simps)
  have 2: "steps sys c (ip, s) (?q, s2)" using runs_steps [OF 1 at(1)] by (simp add: length_test add.assoc)
  have z: "zf s2 \<longleftrightarrow> vals st v = 0" by (simp add: s2_def alu_flags_def flags_of_def)
  have 3: "step sys c (?q, s2) = Some (Next (if vals st v = 0 then ?q + 6 else starts_of nr A p ! x), s2)"
    using step_jnz [OF at(2) _ q(1)] len z by simp
  have 4: "step sys c (?q + 6, s2) = Some (Next (starts_of nr A p ! y), s2)"
    using step_goto [OF at(3) _ q(2)] len by simp
  let ?t = "if vals st v \<noteq> 0 then x else y"
  have "steps sys c (?q, s2) (starts_of nr A p ! ?t, s2)"
  proof (cases "vals st v = 0")
    case True
    show ?thesis using steps_step [OF 3 [unfolded if_P [OF True]] steps_step [OF 4 steps_refl]] by (simp add: True)
  next
    case False
    show ?thesis using steps_step [OF 3 [unfolded if_not_P [OF False]] steps_refl] by (simp add: False)
  qed
  then have "steps sys c (ip, s) (starts_of nr A p ! ?t, s2)" by (rule steps_trans [OF 2])
  moreover have "matches A ?t 0 st s2"
    using rr s agree_rax by (intro matches_succ [of A b st s]) (simp_all add: s2_def s1_def agree_alu_flags)
  moreover have "?t \<in> set (succs (ac_blocks A ! b))" using s by simp
  ultimately show ?thesis using related_start [OF pl b] by blast
qed

section \<open>The simulation\<close>

interpretation compiled: forward_simulation "ir_step (in_frame (ac_frame A)) (ac_blocks A)" "steps sys c" "fn_related nr A c p"
  for A sys c nr p
proof
  show "steps sys c cfg cfg" for cfg by (rule steps_refl)
  show "steps sys c a b \<Longrightarrow> steps sys c b d \<Longrightarrow> steps sys c a d" for a b d by (rule steps_trans)
  show "\<exists>cfg'. steps sys c cfg cfg' \<and> fn_related nr A c p conf' cfg'"
    if r: "fn_related nr A c p conf cfg" and st: "ir_step (in_frame (ac_frame A)) (ac_blocks A) conf conf'" for conf conf' cfg
    using st
  proof cases
    case (ir_next b i st st')
    then show ?thesis using r sim_instr [of nr A c p b i st "fst cfg" "snd cfg" st'] by simp
  next
    case (ir_ret b i v st)
    then show ?thesis using r sim_ret [of nr A c p b st "fst cfg" "snd cfg" "Some v"] by simp
  next
    case (ir_ret_void b i st)
    then show ?thesis using r sim_ret [of nr A c p b st "fst cfg" "snd cfg" None] by simp
  next
    case (ir_goto b i t u st)
    then show ?thesis using r sim_goto [of nr A c p b st "fst cfg" "snd cfg"] by simp
  next
    case (ir_branch b i v t u st)
    then show ?thesis using r sim_branch [of nr A c p b st "fst cfg" "snd cfg"] by simp
  qed
qed

end
