(* ===== verification/Function_Frame.thy ===== *)
theory Function_Frame
  imports Function_Correct
begin

text \<open>
  The prologue and the epilogue of a function: the frame below the return address, the saved registers,
  the parameters in their homes, and the way back to the caller.
\<close>

section \<open>Pushes and pops\<close>

lemma decode_push_pop:
  "decode_x86 [rex True False (needs_rex r), 0x50 OR (phys_id r AND 7)] = Some (Push (phys_id r), 2)"
  "decode_x86 [rex True False (needs_rex r), 0x58 OR (phys_id r AND 7)] = Some (Pop (phys_id r), 2)"
  by (cases r; simp add: decode_simps rex_def needs_rex_def)+

fun pops :: "phys list \<Rightarrow> mstate \<Rightarrow> mstate" where
  "pops [] s = s"
| "pops (r # rs) s = pops rs (set_reg (phys_id r) (ld64 (mem s) (regs s 4)) (set_reg 4 (regs s 4 + 8) s))"

fun pushes :: "phys list \<Rightarrow> mstate \<Rightarrow> mstate" where
  "pushes [] s = s"
| "pushes (r # rs) s = pushes rs (push_val (regs s (phys_id r)) s)"

lemma acts_push: "acts (emit [rex True False (needs_rex r), 0x50 OR (phys_id r AND 7)]) (\<lambda>s. Some (push_val (regs s (phys_id r)) s))"
  by (rule acts_emitI [OF refl, where i = "Push (phys_id r)"]) (simp_all add: decode_push_pop)

lemma acts_pop: "acts (emit [rex True False (needs_rex r), 0x58 OR (phys_id r AND 7)])
    (\<lambda>s. Some (set_reg (phys_id r) (ld64 (mem s) (regs s 4)) (set_reg 4 (regs s 4 + 8) s)))"
  by (rule acts_emitI [OF refl, where i = "Pop (phys_id r)"]) (simp_all add: decode_push_pop)

lemma acts_pushes_all: "acts (push_savers rs) (\<lambda>s. Some (pushes rs s))"
proof (induction rs)
  case (Cons r rs)
  show ?case
    unfolding push_savers.simps
    by (rule acts_merge) (use acts2_total [OF acts_push [of r] Cons] in simp)
qed (simp add: acts_id [unfolded id_def])

lemma acts_pops_all: "acts (pop_savers rs) (\<lambda>s. Some (pops rs s))"
proof (induction rs)
  case (Cons r rs)
  show ?case
    unfolding pop_savers.simps
    by (rule acts_merge) (use acts2_total [OF acts_pop [of r] Cons] in simp)
qed (simp add: acts_id [unfolded id_def])

lemma pops_regs:
  "mem (pops rs s) = mem s"
  "regs (pops rs s) 4 = regs s 4 + of_nat (8 * length rs)"
  "x \<noteq> 4 \<Longrightarrow> x \<notin> phys_id ` set rs \<Longrightarrow> regs (pops rs s) x = regs s x"
  by (induction rs arbitrary: s) (auto simp: algebra_simps)

lemma pops_nth:
  "distinct rs \<Longrightarrow> i < length rs \<Longrightarrow> regs (pops rs s) (phys_id (rs ! i)) = ld64 (mem s) (regs s 4 + of_nat (8 * i))"
proof (induction rs arbitrary: s i)
  case (Cons r rs)
  show ?case
  proof (cases i)
    case 0
    then show ?thesis using Cons.prems by (auto simp: pops_regs image_iff)
  next
    case (Suc j)
    then show ?thesis using Cons by (simp add: algebra_simps)
  qed
qed simp

lemma pushes_snoc: "pushes (rs @ [r]) s = push_val (regs (pushes rs s) (phys_id r)) (pushes rs s)"
  by (induction rs arbitrary: s) simp_all

lemma push_regs: "regs (push_val v s) = (regs s)(4 := regs s 4 - 8)" "mem (push_val v s) = st64 (mem s) (regs s 4 - 8) v"
  by (simp_all add: push_val_def)

lemma pushes_regs:
  "regs (pushes rs s) 4 = regs s 4 - of_nat (8 * length rs)"
  "x \<noteq> 4 \<Longrightarrow> regs (pushes rs s) x = regs s x"
  by (induction rs arbitrary: s) (auto simp: push_regs diff_diff_eq)

text \<open>Memory below the stack pointer by its distance.\<close>

lemma below_far:
  fixes sp :: u64
  assumes "x < 2 ^ 32" and "y < 2 ^ 32" and "x < y"
  shows "apart8 (sp - of_nat (8 * x)) (sp - of_nat (8 * y))"
proof -
  have e: "(sp - of_nat (8 * x)) - (sp - of_nat (8 * y)) = (of_nat (8 * (y - x)) :: u64)"
    "(sp - of_nat (8 * y)) - (sp - of_nat (8 * x)) = - (of_nat (8 * (y - x)) :: u64)"
    using assms(3) by (simp_all add: of_nat_diff algebra_simps)
  define n where "n = 8 * (y - x)"
  have n: "8 \<le> n" "n < 2 ^ 40" using assms by (simp_all add: n_def)
  have u: "unat (of_nat n :: u64) = n" using n by (intro unat_of_nat_u64) simp
  have "unat (- of_nat n :: u64) = 2 ^ 64 - n"
    using n u unat_sub64 [of 0 "of_nat n"] by simp
  then show ?thesis unfolding apart8_def e n_def [symmetric] using n u by simp
qed

lemma pushes_saved:
  assumes "j < length rs" and "length rs < 2 ^ 31"
  shows "ld64 (mem (pushes rs s)) (regs s 4 - of_nat (8 * (j + 1))) = regs s (phys_id (rs ! j))"
  using assms
proof (induction rs rule: rev_induct)
  case (snoc r rs)
  let ?t = "pushes rs s"
  have sp: "regs ?t 4 - 8 = regs s 4 - of_nat (8 * (length rs + 1))" by (simp add: pushes_regs)
  have top: "mem (pushes (rs @ [r]) s) = st64 (mem ?t) (regs s 4 - of_nat (8 * (length rs + 1))) (regs s (phys_id r))"
    by (simp only: pushes_snoc push_regs sp) (simp add: pushes_regs)
  show ?case
  proof (cases "j = length rs")
    case True
    then show ?thesis unfolding top by simp
  next
    case False
    then have j: "j < length rs" using snoc.prems(1) by simp
    have "apart8 (regs s 4 - of_nat (8 * (j + 1))) (regs s 4 - of_nat (8 * (length rs + 1)))"
      using j snoc.prems(2) by (intro below_far) simp_all
    then have "ld64 (mem (pushes (rs @ [r]) s)) (regs s 4 - of_nat (8 * (j + 1))) = ld64 (mem ?t) (regs s 4 - of_nat (8 * (j + 1)))"
      unfolding top by (subst (asm) apart8_sym) (rule ld64_st64_apart)
    then show ?thesis using snoc.IH j snoc.prems(2) by (simp add: nth_append)
  qed
qed simp

text \<open>Bytes outside the pushed words stay.\<close>

lemma pushes_other:
  "(\<And>k. k < 8 * length rs \<Longrightarrow> a \<noteq> regs s 4 - of_nat (8 * length rs) + of_nat k) \<Longrightarrow> mem (pushes rs s) a = mem s a"
proof (induction rs rule: rev_induct)
  case (snoc r rs)
  let ?t = "pushes rs s"
  have sp: "regs ?t 4 - 8 = regs s 4 - of_nat (8 * length (rs @ [r]))" by (simp add: pushes_regs)
  have "mem ?t a = mem s a"
  proof (rule snoc.IH)
    fix k assume k: "k < 8 * length rs"
    have "regs s 4 - of_nat (8 * length rs) + of_nat k = regs s 4 - of_nat (8 * length (rs @ [r])) + of_nat (k + 8)" by simp
    then show "a \<noteq> regs s 4 - of_nat (8 * length rs) + of_nat k" using snoc.prems [of "k + 8"] k by (simp only: length_append) simp
  qed
  moreover have "a \<noteq> regs ?t 4 - 8 + of_nat j" if "j < 8" for j
    unfolding sp using snoc.prems [of j] that by simp
  ultimately show ?case by (simp add: pushes_snoc push_regs st64_other)
qed simp

section \<open>The frame\<close>

definition frame_of :: "allocation \<Rightarrow> u64 \<Rightarrow> frame" where
  "frame_of al sp = \<lparr>fr_base = sp - 8, fr_slots = unat (al_spills al),
     fr_size = frame_bytes (al_spills al) (length (savers al)) + 8 * length (savers al)\<rparr>"

lemma savers_few: "distinct (savers al)" "length (savers al) \<le> 5"
proof -
  show d: "distinct (savers al)" by (simp add: savers_def)
  have "set (savers al) \<subseteq> {Rbx, R12, R13, R14, R15}"
  proof
    fix r show "r \<in> {Rbx, R12, R13, R14, R15}" by (cases r) simp_all
  qed
  then have "card (set (savers al)) \<le> card {Rbx, R12, R13, R14, R15}" by (rule card_mono [rotated]) simp
  then show "length (savers al) \<le> 5" using distinct_card [OF d] by simp
qed

lemma frame_bytes_bounds: "8 * unat k \<le> frame_bytes k n" "frame_bytes k n \<le> 8 * unat k + 24"
  by (auto simp: frame_bytes_def div_ceil_def)

lemma frame_of_ok:
  assumes "unat (al_spills al) < 2 ^ 24"
  shows "frame_ok (frame_of al sp)"
  using frame_bytes_bounds [of "al_spills al" "length (savers al)"] savers_few(2) [of al] assms
  by (simp add: frame_ok_def frame_of_def)

text \<open>Places in the frame by their distance from its lowest byte.\<close>

definition frame_at :: "frame \<Rightarrow> nat \<Rightarrow> u64" where "frame_at fr k = fr_base fr - of_nat (fr_size fr) + of_nat k"

lemma frame_at_inj:
  assumes "frame_at fr x = frame_at fr y" and "x < 2 ^ 64" and "y < 2 ^ 64"
  shows "x = y"
proof -
  have "(of_nat x :: u64) = of_nat y" using assms(1) by (simp add: frame_at_def)
  then have "unat (of_nat x :: u64) = unat (of_nat y :: u64)" by simp
  then show ?thesis using assms(2,3) by (simp add: unat_of_nat_u64)
qed

lemma in_frame_at: "k < 2 ^ 64 \<Longrightarrow> in_frame fr (frame_at fr k) \<longleftrightarrow> k < fr_size fr + 16"
  by (simp add: in_frame_def frame_at_def unat_of_nat_u64)

lemma in_slots_at:
  assumes "frame_ok fr" and "k < 2 ^ 64"
  shows "in_slots fr (frame_at fr k) \<longleftrightarrow> fr_size fr - 8 * fr_slots fr \<le> k \<and> k < fr_size fr"
proof -
  let ?d = "fr_size fr - 8 * fr_slots fr"
  have fr: "8 * fr_slots fr \<le> fr_size fr" "fr_size fr < 2 ^ 32" using assms(1) by (simp_all add: frame_ok_def)
  have "(of_nat (fr_size fr) :: u64) = of_nat (8 * fr_slots fr) + of_nat ?d" using fr(1) by (simp flip: of_nat_add)
  then have e: "frame_at fr k - slots_start fr = of_nat k - of_nat ?d" by (simp add: frame_at_def slots_start_def)
  have u: "unat (of_nat k :: u64) = k" "unat (of_nat ?d :: u64) = ?d"
    using fr(2) assms(2) by (intro unat_of_nat_u64; simp)+
  show ?thesis unfolding in_slots_def e unat_sub64 u using fr assms(2) by auto
qed

lemma frame_at_base: "fr_base fr + of_nat j = frame_at fr (fr_size fr + j)"
  by (simp add: frame_at_def)

lemma frame_at_add: "frame_at fr k + of_nat j = frame_at fr (k + j)"
  by (simp add: frame_at_def)

section \<open>Entering\<close>

definition reserve :: "nat \<Rightarrow> mstate \<Rightarrow> mstate" where
  "reserve n s = (if n = 0 then s else alu_flags Sub (regs s 4) (of_nat n) (set_reg 4 (regs s 4 - of_nat n) s))"

definition enter_frame :: "allocation \<Rightarrow> mstate \<Rightarrow> mstate" where
  "enter_frame al s = (let s1 = push_val (regs s 5) s; s2 = set_reg 5 (regs s1 4) s1
     in pushes (savers al) (reserve (frame_bytes (al_spills al) (length (savers al))) s2))"

lemma small_imm: "n \<le> 127 \<Longrightarrow> sx8 (of_nat n) = of_nat n" "n < 2 ^ 31 \<Longrightarrow> scast (of_nat n :: i32) = (of_nat n :: u64)"
proof -
  have 8: "sint (of_nat n :: u8) = signed_take_bit 7 (int n)" and 32: "sint (of_nat n :: i32) = signed_take_bit 31 (int n)"
  proof -
    have "sint (of_int z :: u8) = signed_take_bit 7 z" "sint (of_int z :: i32) = signed_take_bit 31 z" for z
      by (simp_all add: signed_of_int)
    from this [of "int n"] show "sint (of_nat n :: u8) = signed_take_bit 7 (int n)"
      "sint (of_nat n :: i32) = signed_take_bit 31 (int n)" by (simp_all only: of_int_of_nat_eq)
  qed
  show "n \<le> 127 \<Longrightarrow> sx8 (of_nat n) = of_nat n"
  proof -
    assume "n \<le> 127"
    then have "signed_take_bit 7 (int n) = int n" by (intro signed_take_bit_int_eq_self) simp_all
    then have "(of_int (sint (of_nat n :: u8)) :: u64) = of_int (int n)" using 8 by simp
    then show ?thesis by (simp only: sx8_def of_int_sint of_int_of_nat_eq)
  qed
  show "n < 2 ^ 31 \<Longrightarrow> scast (of_nat n :: i32) = (of_nat n :: u64)"
  proof -
    assume "n < 2 ^ 31"
    then have "signed_take_bit 31 (int n) = int n" by (intro signed_take_bit_int_eq_self) simp_all
    then have "(of_int (sint (of_nat n :: i32)) :: u64) = of_int (int n)" using 32 by simp
    then show ?thesis by (simp only: of_int_sint of_int_of_nat_eq)
  qed
qed

lemma acts_reserve:
  assumes "n < 2 ^ 31"
  shows "acts (reserve_frame n) (\<lambda>s. Some (reserve n s))"
proof -
  consider "n = 0" | "0 < n" "n \<le> 120" | "120 < n" by linarith
  then show ?thesis
  proof cases
    case 1
    then show ?thesis using acts_id by (simp add: reserve_frame_def reserve_def)
  next
    case 2
    have d: "decode_x86 [0x48, 0x83, 0xEC, of_nat n] = Some (AluImm Sub (Reg 4) (of_nat n), length [0x48, 0x83, 0xEC, of_nat n :: u8])"
      using small_imm(1) [of n] 2(2) by (simp add: decode_simps)
    show ?thesis by (rule acts_emitI [OF _ d]) (use 2 in \<open>simp_all add: reserve_frame_def reserve_def writes_back_def Let_def set_reg_def\<close>)
  next
    case 3
    have r: "reserve_frame n = emit (0x48 # 0x81 # 0xEC # le32 (of_nat n))"
      using 3 by (simp add: reserve_frame_def imm32_def fun_eq_iff)
    have d: "decode_x86 (0x48 # 0x81 # 0xEC # le32 (of_nat n)) =
        Some (AluImm Sub (Reg 4) (of_nat n), length (0x48 # 0x81 # 0xEC # le32 (of_nat n)))"
      using small_imm(2) [OF assms] by (simp add: decode_simps)
    show ?thesis by (rule acts_emitI [OF r d]) (use 3 in \<open>simp add: reserve_def writes_back_def Let_def set_reg_def\<close>)
  qed
qed

lemma reserve_state: "regs (reserve n s) = (regs s)(4 := regs s 4 - of_nat n)" "mem (reserve n s) = mem s"
  by (auto simp: reserve_def alu_flags_def flags_of_def)

text \<open>What the frame holds once it is entered.\<close>

lemma enter_frame_state:
  fixes al s
  defines "fr \<equiv> frame_of al (regs s 4)" and "t \<equiv> enter_frame al s"
  assumes spills: "unat (al_spills al) < 2 ^ 24"
  shows "regs t 5 = fr_base fr" and "regs t 4 = fr_base fr - of_nat (fr_size fr)"
    and "x \<noteq> 4 \<Longrightarrow> x \<noteq> 5 \<Longrightarrow> regs t x = regs s x"
    and "\<not> in_frame fr a \<Longrightarrow> mem t a = mem s a"
    and "ld64 (mem t) (frame_at fr (fr_size fr)) = regs s 5"
    and "ld64 (mem t) (frame_at fr (fr_size fr + 8)) = ld64 (mem s) (regs s 4)"
    and "i < length (savers al) \<Longrightarrow> ld64 (mem t) (frame_at fr (8 * i)) = regs s (phys_id (rev (savers al) ! i))"
proof -
  let ?sv = "savers al" and ?n = "frame_bytes (al_spills al) (length (savers al))"
  define u where "u = reserve ?n (set_reg 5 (regs s 4 - 8) (push_val (regs s 5) s))"
  have t: "t = pushes ?sv u" by (simp add: t_def enter_frame_def Let_def u_def push_regs)
  have ur: "regs u 4 = fr_base fr - of_nat ?n" "regs u 5 = fr_base fr" "mem u = st64 (mem s) (fr_base fr) (regs s 5)"
    "x \<noteq> 4 \<Longrightarrow> x \<noteq> 5 \<Longrightarrow> regs u x = regs s x" for x
    by (simp_all add: u_def reserve_state push_regs fr_def frame_of_def)
  have len: "length ?sv \<le> 5" "fr_size fr = ?n + 8 * length ?sv" by (simp_all add: savers_few fr_def frame_of_def)
  have small: "fr_size fr < 2 ^ 32" using frame_of_ok [OF spills] by (simp add: fr_def frame_ok_def)
  have low: "regs u 4 - of_nat (8 * length ?sv) + of_nat k = frame_at fr k" for k
    by (simp add: ur frame_at_def len(2))
  have base: "fr_base fr = frame_at fr (fr_size fr)" by (simp add: frame_at_def)
  show "regs t 5 = fr_base fr" by (simp add: t pushes_regs ur)
  show "regs t 4 = fr_base fr - of_nat (fr_size fr)" using low [of 0] by (simp add: t pushes_regs frame_at_def)
  show "x \<noteq> 4 \<Longrightarrow> x \<noteq> 5 \<Longrightarrow> regs t x = regs s x" by (simp add: t pushes_regs ur)
  have out: "mem t a = mem u a" if "\<And>k. k < 8 * length ?sv \<Longrightarrow> a \<noteq> frame_at fr k" for a
    unfolding t by (rule pushes_other) (use that in \<open>simp only: low not_False_eq_True\<close>)
  have away: "frame_at fr (fr_size fr + j) \<noteq> frame_at fr k" if "k < 8 * length ?sv" "j < 16" for j k
    using frame_at_inj [of fr "fr_size fr + j" k] that small len by auto
  have high: "mem t (frame_at fr (fr_size fr + j)) = mem u (frame_at fr (fr_size fr + j))" if "j < 16" for j
    using away that by (intro out) simp
  show "ld64 (mem t) (frame_at fr (fr_size fr)) = regs s 5"
  proof -
    have "ld64 (mem t) (frame_at fr (fr_size fr)) = ld64 (mem u) (frame_at fr (fr_size fr))"
      by (rule ld64_cong) (simp add: frame_at_add high)
    then show ?thesis by (simp add: ur base)
  qed
  show "ld64 (mem t) (frame_at fr (fr_size fr + 8)) = ld64 (mem s) (regs s 4)"
  proof -
    have "mem u (frame_at fr (fr_size fr + 8 + j)) = mem s (frame_at fr (fr_size fr + 8 + j))" if "j < 8" for j
      unfolding ur(3)
    proof (rule st64_other)
      fix k :: nat assume "k < 8"
      then show "frame_at fr (fr_size fr + 8 + j) \<noteq> fr_base fr + of_nat k"
        using frame_at_inj [of fr "fr_size fr + 8 + j" "fr_size fr + k"] that small by (auto simp: base frame_at_add)
    qed
    then have "ld64 (mem t) (frame_at fr (fr_size fr + 8)) = ld64 (mem s) (frame_at fr (fr_size fr + 8))"
      by (intro ld64_cong) (simp add: frame_at_add high add.assoc)
    moreover have "frame_at fr (fr_size fr + 8) = regs s 4" by (simp add: frame_at_def fr_def frame_of_def)
    ultimately show ?thesis by simp
  qed
  show "mem t a = mem s a" if "\<not> in_frame fr a"
  proof -
    have ne: "a \<noteq> frame_at fr k" if "k < fr_size fr + 16" for k
      using in_frame_at [of k fr] small \<open>\<not> in_frame fr a\<close> that by auto
    have "mem t a = mem u a" by (rule out) (use ne len in auto)
    also have "\<dots> = mem s a" unfolding ur(3) by (rule st64_other) (use ne in \<open>auto simp: base frame_at_add\<close>)
    finally show ?thesis .
  qed
  assume i: "i < length ?sv"
  define j where "j = length ?sv - 1 - i"
  have j: "j < length ?sv" "rev ?sv ! i = ?sv ! j" "j + 1 + i = length ?sv" using i by (simp_all add: j_def rev_nth)
  have "(of_nat (8 * length ?sv) :: u64) = of_nat (8 * (j + 1)) + of_nat (8 * i)" by (simp flip: j(3) add: algebra_simps)
  then have "regs u 4 - of_nat (8 * (j + 1)) = frame_at fr (8 * i)" using low [of "8 * i"] by (simp add: algebra_simps)
  then show "ld64 (mem t) (frame_at fr (8 * i)) = regs s (phys_id (rev ?sv ! i))"
    using pushes_saved [OF j(1), of u] len ur(4) by (simp add: t j(2))
qed

lemma acts_enter: "unat (al_spills al) < 2 ^ 24 \<Longrightarrow>
    acts (seq [emit [0x55], emit [0x48, 0x89, 0xE5], reserve_frame (frame_bytes (al_spills al) (length (savers al))), push_savers (savers al)])
      (\<lambda>s. Some (enter_frame al s))"
proof -
  assume spills: "unat (al_spills al) < 2 ^ 24"
  let ?n = "frame_bytes (al_spills al) (length (savers al))"
  have n: "?n < 2 ^ 31" using frame_bytes_bounds(2) [of "al_spills al" "length (savers al)"] spills by simp
  have 1: "acts (emit [0x55]) (\<lambda>s. Some (push_val (regs s 5) s))"
    by (rule acts_emitI [OF refl, where i = "Push 5"]) (simp_all add: decode_simps)
  have 2: "acts (emit [0x48, 0x89, 0xE5]) (\<lambda>s. Some (set_reg 5 (regs s 4) s))"
    by (rule acts_emitI [OF refl, where i = "Mov (Reg 5) (Reg 4)"]) (simp_all add: decode_simps set_reg_def)
  have "acts (seq [emit [0x55], emit [0x48, 0x89, 0xE5], reserve_frame ?n, push_savers (savers al)])
      (\<lambda>s. Option.bind (Some (push_val (regs s 5) s)) (\<lambda>s. Some (pushes (savers al) (reserve ?n (set_reg 5 (regs s 4) s)))))"
    by (rule acts_seq [OF 1 acts3_total [OF 2 acts_reserve [OF n] acts_pushes_all]])
  then show ?thesis by (rule acts_cong) (simp add: enter_frame_def Let_def)
qed

section \<open>Leaving\<close>

definition leave_frame :: "phys list \<Rightarrow> mstate \<Rightarrow> mstate" where
  "leave_frame sv s = (let t = pops (rev sv) s in
     set_reg 5 (ld64 (mem t) (regs t 5)) (set_reg 4 (regs t 5 + 8) t))"

lemma set_reg_twice [simp]: "set_reg r x (set_reg r y s) = set_reg r x s"
  by (simp add: set_reg_def)

lemma leave_code:
  assumes "code_at c ip (bytes_of (restore_ret sv))"
  shows "leaves sys c (ip, s) (ld64 (mem s) (regs (leave_frame sv s) 4), set_reg 4 (regs (leave_frame sv s) 4 + 8) (leave_frame sv s))"
proof -
  let ?b = "bytes_of (pop_savers (rev sv))" and ?t = "pops (rev sv) s"
  have 1: "pop_savers (rev sv) = emit ?b" "runs ?b s ?t" using acts_bytes [OF acts_pops_all [of "rev sv"]] by simp_all
  have "bytes_of (restore_ret sv) = ?b @ [0xC9] @ [0xC3]"
    by (simp add: restore_ret_def bytes_of_def) (subst 1(1), simp add: emit_def no_code_def bytes_of_def)
  then have at: "code_at c ip ?b" "code_at c (ip + length ?b) [0xC9]" "code_at c (ip + length ?b + 1) [0xC3]"
    using assms by (simp_all add: code_at_append code_at_append [of c _ "[0xC9]" "[0xC3]", simplified])
  have d: "decode_x86 [0xC9] = Some (Leave, 1)" "decode_x86 [0xC3] = Some (Ret, 1)" by (simp_all add: decode_simps)
  have "step sys c (ip + length ?b, ?t) = Some (Next (ip + length ?b + 1), leave_frame sv s)"
    using code_at_step_first [OF at(2) d(1)] by (simp add: leave_frame_def Let_def)
  then have 2: "steps sys c (ip, s) (ip + length ?b + 1, leave_frame sv s)"
    using runs_steps [OF 1(2) at(1)] by (blast intro: steps_trans steps_step steps_refl)
  have "mem (leave_frame sv s) = mem s" by (simp add: leave_frame_def Let_def pops_regs)
  then have "step sys c (ip + length ?b + 1, leave_frame sv s) = Some (Leave_to (ld64 (mem s) (regs (leave_frame sv s) 4)),
      set_reg 4 (regs (leave_frame sv s) 4 + 8) (leave_frame sv s))"
    using code_at_step_first [OF at(3) d(2)] by simp
  then show ?thesis by (rule steps_leaves [OF 2 leaves_last])
qed

lemma saved_word:
  assumes "frame_ok fr" and "frame_holds fr m0 s" and "k + 8 \<le> fr_size fr - 8 * fr_slots fr \<or> fr_size fr \<le> k \<and> k \<le> fr_size fr + 8"
  shows "ld64 (mem s) (frame_at fr k) = ld64 m0 (frame_at fr k)"
proof (rule ld64_cong)
  fix j :: nat assume j: "j < 8"
  have fr: "fr_size fr < 2 ^ 32" using assms(1) by (simp add: frame_ok_def)
  then have small: "k + j < 2 ^ 64" using assms(3) j by auto
  have "in_frame fr (frame_at fr (k + j))" using assms(3) j by (auto simp: in_frame_at [OF small])
  moreover have "\<not> in_slots fr (frame_at fr (k + j))" using assms(3) j by (auto simp: in_slots_at [OF assms(1) small])
  ultimately show "mem s (frame_at fr k + of_nat j) = m0 (frame_at fr k + of_nat j)"
    using assms(2) by (simp add: frame_holds_def frame_at_add)
qed

lemma leave_frame_state:
  fixes al s0
  defines "fr \<equiv> frame_of al (regs s0 4)"
  assumes spills: "unat (al_spills al) < 2 ^ 24" and holds: "frame_holds fr (mem (enter_frame al s0)) s"
    and others: "\<And>r. r \<notin> set (savers al) \<Longrightarrow> regs s (phys_id r) = regs s0 (phys_id r)"
  shows "regs (leave_frame (savers al) s) 4 = regs s0 4" and "regs (leave_frame (savers al) s) 5 = regs s0 5"
    and "regs (leave_frame (savers al) s) (phys_id r) = regs s0 (phys_id r)" and "regs (leave_frame (savers al) s) 0 = regs s 0"
    and "mem (leave_frame (savers al) s) = mem s" and "ld64 (mem s) (regs s0 4) = ld64 (mem s0) (regs s0 4)"
proof -
  let ?sv = "savers al" and ?m0 = "mem (enter_frame al s0)"
  have ok: "frame_ok fr" unfolding fr_def by (rule frame_of_ok [OF spills])
  note en = enter_frame_state [OF spills, where s = s0, folded fr_def] and saved = saved_word [OF ok holds]
  have regs: "regs s 5 = fr_base fr" "regs s 4 = fr_base fr - of_nat (fr_size fr)" using holds by (simp_all add: frame_holds_def)
  have room: "8 * length ?sv \<le> fr_size fr - 8 * fr_slots fr"
    using frame_bytes_bounds(1) [of "al_spills al" "length ?sv"] by (simp add: fr_def frame_of_def)
  have bp: "regs (pops (rev ?sv) s) 5 = fr_base fr" using regs by (subst pops_regs) auto
  have base: "frame_at fr (fr_size fr) = fr_base fr" by (simp add: frame_at_def)
  have old: "ld64 (mem s) (fr_base fr) = regs s0 5" using saved [of "fr_size fr"] en(5) by (simp add: base)
  show "regs (leave_frame ?sv s) 4 = regs s0 4" by (simp add: leave_frame_def Let_def bp) (simp add: fr_def frame_of_def)
  show "regs (leave_frame ?sv s) 5 = regs s0 5" by (simp add: leave_frame_def Let_def bp pops_regs old)
  show "regs (leave_frame ?sv s) 0 = regs s 0" by (auto simp: leave_frame_def Let_def pops_regs image_iff)
  show "mem (leave_frame ?sv s) = mem s" by (simp add: leave_frame_def Let_def pops_regs)
  show "ld64 (mem s) (regs s0 4) = ld64 (mem s0) (regs s0 4)"
  proof -
    have "frame_at fr (fr_size fr + 8) = regs s0 4" by (simp add: frame_at_def fr_def frame_of_def)
    then show ?thesis using saved [of "fr_size fr + 8"] en(6) by simp
  qed
  show "regs (leave_frame ?sv s) (phys_id r) = regs s0 (phys_id r)"
  proof (cases "r \<in> set ?sv")
    case True
    then obtain i where i: "i < length (rev ?sv)" "r = rev ?sv ! i" by (metis in_set_conv_nth set_rev)
    have "regs (pops (rev ?sv) s) (phys_id r) = ld64 (mem s) (frame_at fr (8 * i))"
      using pops_nth [of "rev ?sv" i s] i savers_few(1) [of al] by (simp add: regs frame_at_def)
    also have "\<dots> = ld64 ?m0 (frame_at fr (8 * i))" using i room by (intro saved) simp
    also have "\<dots> = regs s0 (phys_id r)" using en(7) [of i] i by simp
    finally show ?thesis by (simp add: leave_frame_def Let_def)
  next
    case False
    then have "regs (pops (rev ?sv) s) (phys_id r) = regs s (phys_id r)" by (intro pops_regs(3)) auto
    then show ?thesis using others [OF False] by (simp add: leave_frame_def Let_def)
  qed
qed

end
