(* ===== verification/Compiled_Function.thy ===== *)
theory Compiled_Function
  imports Function_Frame
begin

text \<open>
  The contract of code generation for one function: called with its arguments where the calling convention puts
  them, the code of a function without calls and system calls returns to its caller with the result its blocks
  compute.
\<close>

section \<open>Arguments\<close>

text \<open>The registers of the parameters, and the value the caller passes for one of them.\<close>

definition params_of :: "ir_function \<Rightarrow> vreg list" where
  "params_of f = (if f_receiver f then [0] else []) @ map Suc [0..<f_arity f]"

definition arg_place :: "bool \<Rightarrow> vreg \<Rightarrow> nat" where "arg_place recv v = (if recv then v else v - 1)"

definition arg_val :: "bool \<Rightarrow> vreg \<Rightarrow> mstate \<Rightarrow> u64" where
  "arg_val recv v s = (let k = arg_place recv v in
     if k < 6 then regs s (ARG ! k) else ld64 (mem s) (regs s 4 + of_nat (8 + 8 * (k - 6))))"

definition bind_code :: "bool \<Rightarrow> allocation \<Rightarrow> vreg \<Rightarrow> emitter \<Rightarrow> emitter" where
  "bind_code recv al v = (let k = arg_place recv v in
     if k < 6 then put (ARG ! k) (al_loc al ! v) else load_stack_arg (16 + 8 * (k - 6)) (al_loc al ! v))"

definition bind_val :: "bool \<Rightarrow> allocation \<Rightarrow> vreg \<Rightarrow> mstate \<Rightarrow> mstate" where
  "bind_val recv al v s = (let k = arg_place recv v in
     if k < 6 then set_home (al_loc al ! v) (regs s (ARG ! k)) s
     else let x = ld64 (mem s) (regs s 5 + of_nat (16 + 8 * (k - 6))) in set_home (al_loc al ! v) x (set_reg 0 x s))"

lemma bind_param_code:
  "Suc p < length (al_loc al) \<Longrightarrow> bind_param recv al p e = Inr (bind_code recv al (Suc p) e)"
  by (auto simp: bind_param_def bind_code_def arg_place_def Let_def ARG_def idx_def)

lemma bind_params_code:
  "\<forall>p\<in>set ps. Suc p < length (al_loc al) \<Longrightarrow> bind_params recv al ps e = Inr (seq (map (bind_code recv al) (map Suc ps)) e)"
  by (induction ps arbitrary: e) (simp_all add: bind_param_code)

lemma ARG_bounds: "k < 6 \<Longrightarrow> ARG ! k < 16 \<and> ARG ! k \<notin> kept \<and> ARG ! k \<noteq> 0 \<and> ARG ! k \<noteq> 4 \<and> ARG ! k \<noteq> 5"
proof -
  assume "k < 6"
  then have "k \<in> {0, 1, 2, 3, 4, 5}" by auto
  then show ?thesis by (auto simp: ARG_def)
qed

lemma acts_load_stack:
  assumes "d < 2 ^ 31"
  shows "acts (load_stack_arg d l) (\<lambda>s. let x = ld64 (mem s) (regs s 5 + of_nat d) in Some (set_home l x (set_reg 0 x s)))"
proof -
  let ?b = "if d \<le> 127 then [0x48, 0x8B, modrm 1 RAX 5, of_nat d] else 0x48 # 0x8B # modrm 2 RAX 5 # le32 (of_nat d)"
  have e: "load_stack_arg d l = seq [emit ?b, put RAX l]" by (simp add: load_stack_arg_def imm32_def fun_eq_iff)
  have d: "decode_x86 ?b = Some (Mov (Reg 0) (Mem 5 None (of_nat d)), length ?b)"
    using small_imm(2) [OF assms] small_imm(1) [of d] sx32_le32 [of _ "[]"] by (simp add: decode_simps modrm_def RAX_def)
  have 1: "acts (emit ?b) (\<lambda>s. Some (set_reg 0 (ld64 (mem s) (regs s 5 + of_nat d)) s))"
    by (rule acts_emitI [OF refl d]) (simp add: set_reg_def)
  have 2: "acts (put RAX l) (\<lambda>s. Some (set_home l (regs s 0) s))" using acts_put [of RAX l] by (simp add: RAX_def)
  show ?thesis unfolding e by (rule acts_cong [OF acts2_total [OF 1 2]]) (simp add: Let_def)
qed

lemma acts_bind:
  assumes "arg_place recv v < 2 ^ 27"
  shows "acts (bind_code recv al v) (\<lambda>s. Some (bind_val recv al v s))"
proof (cases "arg_place recv v < 6")
  case True
  then show ?thesis using acts_put [of "ARG ! arg_place recv v"] ARG_bounds by (simp add: bind_code_def bind_val_def Let_def)
next
  case False
  then show ?thesis using assms acts_load_stack [of "16 + 8 * (arg_place recv v - 6)" "al_loc al ! v"]
    by (simp add: bind_code_def bind_val_def Let_def)
qed

lemma acts_map: "\<forall>v\<in>set vs. acts (f v) (\<lambda>s. Some (g v s)) \<Longrightarrow> acts (seq (map f vs)) (\<lambda>s. Some (fold g vs s))"
proof (induction vs)
  case (Cons v vs)
  then have "acts (seq (f v # map f vs)) (\<lambda>s. Option.bind (Some (g v s)) (\<lambda>s. Some (fold g vs s)))"
    by (intro acts_seq) simp_all
  then show ?case by (simp del: seq_simps)
qed (use acts_seq_Nil in simp)

section \<open>Functions within reach\<close>

text \<open>
  Every instruction has a meaning, only parameters are read before they are written, and the last parameter of a
  function without receiver is read: the allocator does not reserve a home for it on entry otherwise
  (\<open>incoming\<close> counts one register too few for such functions).
\<close>

definition compilable :: "ir_function \<Rightarrow> bool" where
  "compilable f \<longleftrightarrow> wf_function f \<and> f_vregs f < 2 ^ 24 \<and> f_name f \<noteq> ''@start'' \<and> f_blocks f \<noteq> [] \<and>
     (\<forall>b\<in>set (f_blocks f). (\<forall>i\<in>set (b_instrs b). plain i) \<and> closed_term (b_term b)) \<and>
     (\<forall>v. live (f_blocks f) v 0 0 \<longrightarrow> v \<in> set (params_of f)) \<and>
     (f_receiver f \<or> f_arity f = 0 \<or> live (f_blocks f) (f_arity f) 0 0)"

lemma compilable_wf: "compilable f \<Longrightarrow> wf_function f"
  by (simp add: compilable_def)

lemma spills_bound:
  assumes "wf_function f" and "allocate f = Inr al"
  shows "unat (al_spills al) \<le> f_vregs f"
proof -
  obtain lv cur st where i: "scan_inv cur (rev (ordered_ranges f lv)) st" "al_spills al = sc_spills st"
    "fst ` set (build_ranges f lv) = {..<f_vregs f}"
    using allocate_inv [OF assms(2) wf_vregs [OF assms(1)]] by metis
  have "rg_vreg ` set (ordered_ranges f lv) = {..<f_vregs f}"
    unfolding i(3) [symmetric]
  proof
    show "rg_vreg ` set (ordered_ranges f lv) \<subseteq> fst ` set (build_ranges f lv)" by (force simp: set_ordered_ranges)
    show "fst ` set (build_ranges f lv) \<subseteq> rg_vreg ` set (ordered_ranges f lv)"
    proof
      fix v assume "v \<in> fst ` set (build_ranges f lv)"
      then obtain s e where "(v, s, e) \<in> set (build_ranges f lv)" by force
      then have "\<lparr>rg_vreg = v, rg_start = s, rg_end = e\<rparr> \<in> set (ordered_ranges f lv)" by (simp add: set_ordered_ranges)
      then show "v \<in> rg_vreg ` set (ordered_ranges f lv)" by force
    qed
  qed
  then have "length (ordered_ranges f lv) = f_vregs f"
    using distinct_card [OF distinct_ordered_ranges [of f lv]] by simp
  then show ?thesis using i(1,2) by (simp add: scan_inv_def)
qed

lemma compilable_spills: "compilable f \<Longrightarrow> allocate f = Inr al \<Longrightarrow> unat (al_spills al) < 2 ^ 24"
  using spills_bound [of f al] by (simp add: compilable_def)

lemma params_bounded:
  assumes "compilable f" and "v \<in> set (params_of f)"
  shows "v < f_vregs f" and "arg_place (f_receiver f) v < 2 ^ 24"
proof -
  have wf: "incoming f \<le> f_vregs f" "f_vregs f < 2 ^ 24" using assms(1) by (simp_all add: compilable_def wf_function_def)
  have last: "f_arity f < f_vregs f" if "\<not> f_receiver f" "f_arity f \<noteq> 0"
    using assms(1) that live_bounded [of f "f_arity f" 0 0] by (simp add: compilable_def)
  show "v < f_vregs f" using assms(2) wf last by (auto simp: params_of_def incoming_def split: if_splits)
  then show "arg_place (f_receiver f) v < 2 ^ 24" using wf by (auto simp: arg_place_def)
qed

lemma params_apart:
  assumes c: "compilable f" and al: "allocate f = Inr al" and "v \<in> set (params_of f)" "w \<in> set (params_of f)" "v \<noteq> w"
  shows "al_loc al ! v \<noteq> al_loc al ! w"
proof -
  obtain lv where l: "liveness (f_blocks f) = Inr lv" using allocate_live [OF al] by blast
  have start: "point f 0 0 = 0" using c by (cases "f_blocks f") (simp_all add: compilable_def point_def)
  have cov: "covers (build_ranges f lv) x 0" if "x \<in> set (params_of f)" for x
  proof (cases "x < incoming f")
    case True
    then show ?thesis by (intro covers_build_ranges) (auto simp: all_touches_def)
  next
    case False
    then have "x = f_arity f" "\<not> f_receiver f" "f_arity f \<noteq> 0"
      using that by (auto simp: params_of_def incoming_def split: if_splits)
    then have "live (f_blocks f) x 0 0" using c by (simp add: compilable_def)
    from live_covered [OF l this] show ?thesis by (simp add: start)
  qed
  show ?thesis by (rule allocate_apart [OF al wf_vregs [OF compilable_wf [OF c]] l assms(5) cov cov]) fact+
qed

lemma param_home:
  assumes c: "compilable f" and al: "allocate f = Inr al" and v: "v \<in> set (params_of f)"
  shows "v < length (al_loc al)" and "home_in (frame_of al sp) (al_loc al ! v)"
  using allocated_home [OF al compilable_wf [OF c] _ params_bounded(1) [OF c v], of "frame_of al sp"]
  by (simp_all add: frame_of_def)

section \<open>Binding the parameters\<close>

definition bound :: "ir_function \<Rightarrow> allocation \<Rightarrow> mstate \<Rightarrow> vreg list \<Rightarrow> mstate \<Rightarrow> bool" where
  "bound f al s0 vs s \<longleftrightarrow> frame_holds (frame_of al (regs s0 4)) (mem (enter_frame al s0)) s \<and>
     (\<forall>a. \<not> in_frame (frame_of al (regs s0 4)) a \<longrightarrow> mem s a = mem s0 a) \<and>
     (\<forall>k<6. regs s (ARG ! k) = regs s0 (ARG ! k)) \<and>
     (\<forall>r. r \<notin> set (savers al) \<longrightarrow> regs s (phys_id r) = regs s0 (phys_id r)) \<and>
     (\<forall>v\<in>set vs. home (al_loc al ! v) s = arg_val (f_receiver f) v s0)"

lemma bound_rax: "bound f al s0 vs (set_reg 0 x s) \<longleftrightarrow> bound f al s0 vs s"
proof -
  have "home l (set_reg 0 x s) = home l s" for l by (rule home_agree) (rule agree_rax)
  then show ?thesis using ARG_bounds by (auto simp: bound_def frame_holds_def)
qed

lemma set_home_scratch: "r \<notin> kept \<Longrightarrow> regs (set_home l x s) r = regs s r"
  by (cases l) (auto simp: kept_iff)

lemma bound_set:
  assumes c: "compilable f" and al: "allocate f = Inr al" and b: "bound f al s0 vs s"
    and w: "w \<in> set (params_of f)" "w \<notin> set vs" and vs: "set vs \<subseteq> set (params_of f)"
  shows "bound f al s0 (vs @ [w]) (set_home (al_loc al ! w) (arg_val (f_receiver f) w s0) s)"
proof -
  let ?fr = "frame_of al (regs s0 4)" and ?l = "al_loc al ! w"
  note bb = b [unfolded bound_def]
  have ok: "frame_ok ?fr" by (rule frame_of_ok [OF compilable_spills [OF c al]])
  have h: "home_in ?fr (al_loc al ! v)" if "v \<in> set (params_of f)" for v by (rule param_home(2) [OF c al that])
  have bp: "regs s 5 = fr_base ?fr" using bb by (simp add: frame_holds_def)
  have holds: "frame_holds ?fr (mem (enter_frame al s0)) s" using bb by simp
  note keeps = set_home_keeps [OF ok h [OF w(1)] holds]
  have "home (al_loc al ! v) (set_home ?l x s) = home (al_loc al ! v) s" if "v \<in> set vs" for v x
  proof (rule home_set_other [OF ok h [OF w(1)] _ _ bp])
    show "home_in ?fr (al_loc al ! v)" "?l \<noteq> al_loc al ! v" using h params_apart [OF c al w(1)] that w vs by auto
  qed
  moreover have "regs (set_home ?l x s) (phys_id r) = regs s (phys_id r)" if "r \<notin> set (savers al)" for r x
    using that saver_home [OF param_home(1) [OF c al w(1)]] by (intro set_home_other_reg) auto
  ultimately show ?thesis using bb keeps home_set_same [OF bp] ARG_bounds by (simp add: bound_def set_home_scratch)
qed

lemma bind_val_is:
  assumes c: "compilable f" and al: "allocate f = Inr al" and b: "bound f al s0 vs s" and w: "w \<in> set (params_of f)"
  shows "bind_val (f_receiver f) al w s = set_home (al_loc al ! w) (arg_val (f_receiver f) w s0) s \<or>
    bind_val (f_receiver f) al w s = set_home (al_loc al ! w) (arg_val (f_receiver f) w s0) (set_reg 0 (arg_val (f_receiver f) w s0) s)"
proof (cases "arg_place (f_receiver f) w < 6")
  case True
  then show ?thesis using b by (simp add: bind_val_def arg_val_def bound_def)
next
  case False
  let ?fr = "frame_of al (regs s0 4)" and ?k = "arg_place (f_receiver f) w"
  have k: "?k < 2 ^ 24" by (rule params_bounded(2) [OF c w])
  have small: "fr_size ?fr < 2 ^ 32" using frame_of_ok [OF compilable_spills [OF c al]] by (simp add: frame_ok_def)
  have at: "regs s0 4 + of_nat (8 + 8 * (?k - 6)) = frame_at ?fr (fr_size ?fr + 16 + 8 * (?k - 6))"
    by (simp add: frame_at_def frame_of_def)
  have "regs s 5 = fr_base ?fr" using b by (simp add: bound_def frame_holds_def)
  then have at': "regs s 5 + of_nat (16 + 8 * (?k - 6)) = frame_at ?fr (fr_size ?fr + 16 + 8 * (?k - 6))"
    by (simp only: frame_at_base add.assoc)
  have "ld64 (mem s) (frame_at ?fr (fr_size ?fr + 16 + 8 * (?k - 6))) = ld64 (mem s0) (frame_at ?fr (fr_size ?fr + 16 + 8 * (?k - 6)))"
  proof (rule ld64_cong)
    fix j :: nat assume "j < 8"
    then have "\<not> in_frame ?fr (frame_at ?fr (fr_size ?fr + 16 + 8 * (?k - 6) + j))"
      using k small by (subst in_frame_at) auto
    then show "mem s (frame_at ?fr (fr_size ?fr + 16 + 8 * (?k - 6)) + of_nat j) =
        mem s0 (frame_at ?fr (fr_size ?fr + 16 + 8 * (?k - 6)) + of_nat j)"
      using b by (simp add: frame_at_add bound_def)
  qed
  then show ?thesis using False unfolding bind_val_def arg_val_def Let_def at at' by simp
qed

lemma bound_fold:
  assumes c: "compilable f" and al: "allocate f = Inr al"
  shows "bound f al s0 vs s \<Longrightarrow> distinct (vs @ ws) \<Longrightarrow> set (vs @ ws) \<subseteq> set (params_of f) \<Longrightarrow>
    bound f al s0 (vs @ ws) (fold (bind_val (f_receiver f) al) ws s)"
proof (induction ws arbitrary: vs s)
  case (Cons w ws)
  have w: "w \<in> set (params_of f)" "w \<notin> set vs" "set vs \<subseteq> set (params_of f)" using Cons.prems by auto
  have "bound f al s0 (vs @ [w]) (bind_val (f_receiver f) al w s)"
    using bind_val_is [OF c al Cons.prems(1) w(1)] bound_set [OF c al _ w] Cons.prems(1) bound_rax by metis
  then have "bound f al s0 ((vs @ [w]) @ ws) (fold (bind_val (f_receiver f) al) ws (bind_val (f_receiver f) al w s))"
    using Cons.prems(2,3) by (intro Cons.IH) simp_all
  then show ?case by simp
qed simp

section \<open>The code of the function\<close>

definition entered :: "ir_function \<Rightarrow> allocation \<Rightarrow> mstate \<Rightarrow> mstate" where
  "entered f al s = fold (bind_val (f_receiver f) al) (params_of f) (enter_frame al s)"

definition note_start :: "emitter \<Rightarrow> emitter" where
  "note_start e = e\<lparr>e_fn_starts := e_fn_starts e @ [of_nat (here e)]\<rparr>"

lemma note_start_code [simp]: "e_code (note_start e) = e_code e" "here (note_start e) = here e"
  by (simp_all add: note_start_def here_def)

lemma prologue_code:
  assumes c: "compilable f" and al: "allocate f = Inr al"
  shows "\<exists>pro. (\<forall>e. prologue f al e = Inr (emit pro (note_start e))) \<and> (\<forall>s. runs pro s (entered f al s))"
proof -
  let ?enter = "seq [emit [0x55], emit [0x48, 0x89, 0xE5], reserve_frame (frame_bytes (al_spills al) (length (savers al))), push_savers (savers al)]"
  let ?binds = "seq (map (bind_code (f_receiver f) al) (params_of f))"
  have len: "v < length (al_loc al)" if "v \<in> set (params_of f)" for v by (rule param_home(1) [OF c al that])
  have stub: "argv_stub f e = e" for e using c by (simp add: argv_stub_def compilable_def)
  have p: "prologue f al e = Inr (?binds (?enter (note_start e)))" for e
  proof -
    have l: "\<forall>p\<in>set [0..<f_arity f]. Suc p < length (al_loc al)" using len by (auto simp: params_of_def)
    show ?thesis
    proof (cases "f_receiver f")
      case True
      then have "0 < length (al_loc al)" by (intro len) (simp add: params_of_def)
      then show ?thesis using True bind_params_code [OF l]
        by (simp add: prologue_def note_start_def stub loc_of_def params_of_def bind_code_def arg_place_def)
    next
      case False
      then show ?thesis using bind_params_code [OF l] by (simp add: prologue_def note_start_def stub params_of_def)
    qed
  qed
  have "acts ?enter (\<lambda>s. Some (enter_frame al s))" by (rule acts_enter [OF compilable_spills [OF c al]])
  moreover have "acts ?binds (\<lambda>s. Some (fold (bind_val (f_receiver f) al) (params_of f) s))"
    by (rule acts_map) (use params_bounded(2) [OF c] in \<open>fastforce intro!: acts_bind\<close>)
  ultimately have "acts (\<lambda>e. ?binds (?enter e)) (\<lambda>s. Option.bind (Some (enter_frame al s))
      (\<lambda>s. Some (fold (bind_val (f_receiver f) al) (params_of f) s)))" by (rule acts_comp)
  then have "acts (\<lambda>e. ?binds (?enter e)) (\<lambda>s. Some (entered f al s))" by (simp only: Option.bind.bind_lunit entered_def)
  then obtain pro where pro: "(\<lambda>e. ?binds (?enter e)) = emit pro" "\<forall>s. runs pro s (entered f al s)"
    unfolding acts_def by blast
  have "prologue f al e = Inr (emit pro (note_start e))" for e unfolding p using fun_cong [OF pro(1)] by simp
  then show ?thesis using pro(2) by blast
qed

definition activation_of :: "ir_function \<Rightarrow> allocation \<Rightarrow> mstate \<Rightarrow> activation" where
  "activation_of f al s = \<lparr>ac_blocks = f_blocks f, ac_alloc = al, ac_frame = frame_of al (regs s 4),
     ac_mem = mem (enter_frame al s), ac_keep = (\<lambda>r. regs s (phys_id r))\<rparr>"

lemma compilable_housed:
  assumes c: "compilable f" and al: "allocate f = Inr al" and b: "b \<in> set (f_blocks f)"
  shows "housed_block al b" and "\<forall>t\<in>set (succs b). t < length (f_blocks f)"
proof -
  have wf: "wf_function f" by (rule compilable_wf [OF c])
  have "length (al_loc al) = f_vregs f" using allocate_inv [OF al wf_vregs [OF wf]] by metis
  moreover have "(\<forall>i\<in>set (b_instrs b). uses i \<union> defs i \<subseteq> {..<f_vregs f}) \<and> term_uses (b_term b) \<subseteq> {..<f_vregs f}"
    using wf b by (simp add: wf_function_def)
  moreover have "(\<forall>i\<in>set (b_instrs b). plain i) \<and> closed_term (b_term b)" using c b by (simp add: compilable_def)
  ultimately show "housed_block al b" unfolding housed_block_def housed_def by (metis lessThan_iff subsetD)
  show "\<forall>t\<in>set (succs b). t < length (f_blocks f)" using wf b by (simp add: wf_function_def)
qed

lemma term_jumps_succs: "(site, t) \<in> set (term_jumps al p (b_term b)) \<Longrightarrow> t \<in> set (succs b)"
proof (cases "b_term b")
  case (T_Branch v x y)
  then show "(site, t) \<in> set (term_jumps al p (b_term b)) \<Longrightarrow> t \<in> set (succs b)"
    by (cases v) (auto simp: succs_def Let_def)
qed simp_all

lemma blocks_jumps_succs: "(site, t) \<in> set (blocks_jumps nr al sv p bs) \<Longrightarrow> \<exists>b\<in>set bs. t \<in> set (succs b)"
  by (induction bs arbitrary: p) (auto simp: block_jumps_def dest!: term_jumps_succs)

lemma emit_function_code:
  assumes c: "compilable f" and al: "allocate f = Inr al"
  shows "\<exists>pro. (\<forall>s. runs pro s (entered f al s)) \<and> (\<forall>e s. emit_function nr f e =
    Inr (emit (pro @ body_bytes nr (activation_of f al s) (here e + length pro)) (note_start e)))"
proof -
  obtain pro where pro: "\<And>e. prologue f al e = Inr (emit pro (note_start e))" "\<And>s. runs pro s (entered f al s)"
    using prologue_code [OF c al] by blast
  have "emit_function nr f e = Inr (emit (pro @ body_bytes nr (activation_of f al s) (here e + length pro)) (note_start e))" for e s
  proof -
    let ?sv = "savers al" and ?bs = "f_blocks f" and ?pre = "e_code e @ pro"
    let ?e1 = "emit pro (note_start e)" and ?p = "here e + length pro"
    have p: "length ?pre = ?p" "here ?e1 = ?p" "e_code ?e1 = ?pre" by (simp_all add: here_def emit_def)
    have housed: "\<forall>b\<in>set ?bs. housed_block al b" using compilable_housed(1) [OF c al] by blast
    let ?w = "branch_to (blocks_starts nr al ?sv ?p ?bs)"
    let ?e2 = "emit (blocks_bytes (\<lambda>_ _. 0) nr al ?sv ?p ?bs) ?e1"
    have "patch_jumps (blocks_starts nr al ?sv ?p ?bs) (blocks_jumps nr al ?sv (length ?pre) ?bs) ?e2 =
        Inr (?e2\<lparr>e_code := ?pre @ blocks_bytes ?w nr al ?sv (length ?pre) ?bs\<rparr>)"
      using blocks_jumps_succs compilable_housed(2) [OF c al] p by (intro patch_blocks) (fastforce simp: emit_def)+
    also have "?e2\<lparr>e_code := ?pre @ blocks_bytes ?w nr al ?sv (length ?pre) ?bs\<rparr> = emit (pro @ blocks_bytes ?w nr al ?sv ?p ?bs) (note_start e)"
      unfolding p(1) by (simp add: emit_def)
    finally show ?thesis unfolding p(1)
      by (simp add: emit_function_def al pro(1) blocks_emits [OF housed] p(2) body_bytes_def starts_of_def activation_of_def)
  qed
  then show ?thesis using pro(2) by blast
qed

section \<open>The contract\<close>

lemma entered_bound:
  assumes c: "compilable f" and al: "allocate f = Inr al"
  shows "bound f al s (params_of f) (entered f al s)"
proof -
  note en = enter_frame_state [OF compilable_spills [OF c al], where s = s]
  have "bound f al s [] (enter_frame al s)"
    using en(1,2,4) en(3) ARG_bounds by (simp add: bound_def frame_holds_def)
  moreover have "distinct (params_of f)" by (auto simp: params_of_def distinct_map)
  ultimately show ?thesis using bound_fold [OF c al, of s "[]" "enter_frame al s" "params_of f"] by (simp add: entered_def)
qed

lemma entered_matches:
  assumes c: "compilable f" and al: "allocate f = Inr al"
    and st: "\<forall>v\<in>set (params_of f). vals st v = arg_val (f_receiver f) v s" "store st = mem s"
  shows "matches (activation_of f al s) 0 0 st (entered f al s)"
proof -
  have "v \<in> set (params_of f)" if "live (f_blocks f) v 0 0" for v using c that by (simp add: compilable_def)
  then show ?thesis using entered_bound [OF c al, of s] st by (simp add: matches_def bound_def activation_of_def)
qed

lemma entered_placed:
  assumes c: "compilable f" and al: "allocate f = Inr al"
    and code: "code_at cd p (body_bytes nr (activation_of f al s) p)" "p + length (body_bytes nr (activation_of f al s) p) < 2 ^ 31"
  shows "fn_placed nr (activation_of f al s) cd p"
proof -
  have "allocator_promise (f_blocks f) al (frame_of al (regs s 4))"
    unfolding allocator_promise_def using frame_of_ok [OF compilable_spills [OF c al]] compilable_wf [OF c] al
    by (auto simp: frame_of_def)
  then show ?thesis using code compilable_housed [OF c al] by (simp add: fn_placed_def) (simp add: activation_of_def)
qed

text \<open>What a caller may rely on after a call with result \<open>x\<close>: \<open>m\<close> is the memory the function leaves outside its frame.\<close>

definition call_returns :: "(mstate \<Rightarrow> mstate option) \<Rightarrow> bytes \<Rightarrow> nat \<Rightarrow> allocation \<Rightarrow> mstate \<Rightarrow> u64 \<Rightarrow> (u64 \<Rightarrow> u8) \<Rightarrow> bool" where
  "call_returns sys c ip al s x m \<longleftrightarrow> (\<exists>s'. leaves sys c (ip, s) (ld64 (mem s) (regs s 4), s') \<and> regs s' 0 = x \<and>
     regs s' 4 = regs s 4 + 8 \<and> regs s' 5 = regs s 5 \<and> (\<forall>r. regs s' (phys_id r) = regs s (phys_id r)) \<and>
     (\<forall>a. \<not> in_frame (frame_of al (regs s 4)) a \<longrightarrow> mem s' a = m a))"

lemma epilogue_returns:
  assumes c: "compilable f" and al: "allocate f = Inr al" and ep: "at_epilogue (activation_of f al s) cd x st (ip', t)"
    and run: "steps sys cd (ip, s) (ip', t)"
  shows "call_returns sys cd ip al s x (store st)"
proof -
  note e = ep [unfolded at_epilogue_def activation_of_def, simplified]
  let ?t = "leave_frame (savers al) t"
  have holds: "frame_holds (frame_of al (regs s 4)) (mem (enter_frame al s)) t" using e by simp
  have others: "r \<notin> set (savers al) \<Longrightarrow> regs t (phys_id r) = regs s (phys_id r)" for r using e by simp
  note lf = leave_frame_state [OF compilable_spills [OF c al] holds others, simplified]
  have "leaves sys cd (ip, s) (ld64 (mem s) (regs s 4), set_reg 4 (regs s 4 + 8) ?t)"
    using steps_leaves [OF run leave_code [of cd ip' "savers al"]] e lf by simp
  then show ?thesis unfolding call_returns_def
    by (intro exI [of _ "set_reg 4 (regs s 4 + 8) ?t"]) (use e lf in simp)
qed

lemma function_returns:
  assumes c: "compilable f" and em: "emit_function nr f e = Inr e'" and al: "allocate f = Inr al"
    and size: "length (e_code e') < 2 ^ 31" and code: "code_at cd (here e) (drop (here e) (e_code e'))"
    and st: "\<forall>v\<in>set (params_of f). vals st v = arg_val (f_receiver f) v s" "store st = mem s"
    and run: "ir_steps (in_frame (frame_of al (regs s 4))) (f_blocks f) (At 0 0, st) (Returned x, st')"
  shows "call_returns sys cd (here e) al s x (store st')"
proof -
  let ?A = "activation_of f al s"
  obtain pro where pro: "runs pro s (entered f al s)"
    and e': "e' = emit (pro @ body_bytes nr ?A (here e + length pro)) (note_start e)"
    using emit_function_code [OF c al, of nr] em by (metis Inr_inject)
  let ?p = "here e + length pro"
  have at: "code_at cd (here e) pro" "code_at cd ?p (body_bytes nr ?A ?p)"
    using code by (simp_all add: e' emit_def here_def code_at_append)
  have "?p + length (body_bytes nr ?A ?p) < 2 ^ 31" using size by (simp add: e' emit_def here_def)
  then have placed: "fn_placed nr ?A cd ?p" by (rule entered_placed [OF c al at(2)])
  have start: "fn_related nr ?A cd ?p (At 0 0, st) (?p, entered f al s)"
  proof -
    have "f_blocks f \<noteq> []" using c by (simp add: compilable_def)
    then have "offset_of nr ?A ?p 0 0 = ?p"
      by (cases "f_blocks f") (simp_all add: offset_of_def at_instr_def instrs_bytes_def starts_of_def activation_of_def)
    then show ?thesis using placed entered_matches [OF c al st] \<open>f_blocks f \<noteq> []\<close>
      by (simp add: fn_related_simps) (simp add: activation_of_def)
  qed
  obtain ip t where t: "steps sys cd (?p, entered f al s) (ip, t)" "fn_related nr ?A cd ?p (Returned x, st') (ip, t)"
    using compiled.runs_simulated [of ?A "(At 0 0, st)" "(Returned x, st')" nr cd ?p "(?p, entered f al s)" sys] run start
    by (auto simp: activation_of_def)
  have "steps sys cd (here e, s) (ip, t)" by (rule steps_trans [OF runs_steps [OF pro at(1)] t(1)])
  moreover have "at_epilogue ?A cd x st' (ip, t)" using t(2) by (simp add: fn_related_simps)
  ultimately show ?thesis using epilogue_returns [OF c al] by blast
qed

end
