(* ===== verification/Compiled_Demo.thy ===== *)
theory Compiled_Demo
  imports Compiled_Function
begin

text \<open>
  The contract of compiled functions as a property, with a loop that adds up its argument as the example, and the
  case the contract leaves out.
\<close>

section \<open>Running the intermediate representation\<close>

fun ir_next :: "(u64 \<Rightarrow> bool) \<Rightarrow> block list \<Rightarrow> ir_point \<times> ir_state \<Rightarrow> (ir_point \<times> ir_state) option" where
  "ir_next G bs (Returned x, st) = None"
| "ir_next G bs (At b i, st) = (if \<not> b < length bs then None
     else if i < length (b_instrs (bs ! b)) then map_option (\<lambda>st'. (At b (Suc i), st')) (ir_instr G (b_instrs (bs ! b) ! i) st)
     else if i \<noteq> length (b_instrs (bs ! b)) then None
     else (case b_term (bs ! b) of
         T_Ret (Some v) \<Rightarrow> Some (Returned (vals st v), st)
       | T_Ret None \<Rightarrow> Some (Returned 0, st)
       | T_Branch None t u \<Rightarrow> Some (At t 0, st)
       | T_Branch (Some v) t u \<Rightarrow> Some (At (if vals st v \<noteq> 0 then t else u) 0, st)
       | _ \<Rightarrow> None))"

lemma ir_branch_cases:
  assumes "b < length bs" and "b_term (bs ! b) = T_Branch (Some v) t u"
  shows "vals st v \<noteq> 0 \<Longrightarrow> ir_step G bs (At b (length (b_instrs (bs ! b))), st) (At t 0, st)"
    and "vals st v = 0 \<Longrightarrow> ir_step G bs (At b (length (b_instrs (bs ! b))), st) (At u 0, st)"
  using ir_branch [of b bs _ v t u G st] assms by simp_all

lemma ir_next_step: "ir_next G bs c = Some c' \<Longrightarrow> ir_step G bs c c'"
proof -
  assume r: "ir_next G bs c = Some c'"
  obtain pt st where c: "c = (pt, st)" by fastforce
  show "ir_step G bs c c'"
  proof (cases pt)
    case (At b i)
    then show ?thesis using r c
      by (auto split: if_splits terminator.splits option.splits intro: ir_step.intros ir_branch_cases)
  qed (use r c in simp)
qed

fun ir_run :: "(u64 \<Rightarrow> bool) \<Rightarrow> block list \<Rightarrow> nat \<Rightarrow> ir_point \<times> ir_state \<Rightarrow> ir_point \<times> ir_state" where
  "ir_run G bs 0 c = c"
| "ir_run G bs (Suc n) c = (case ir_next G bs c of None \<Rightarrow> c | Some c' \<Rightarrow> ir_run G bs n c')"

lemma ir_run_steps: "ir_steps G bs c (ir_run G bs n c)"
proof (induction n arbitrary: c)
  case (Suc n)
  show ?case
  proof (cases "ir_next G bs c")
    case (Some c')
    then show ?thesis using converse_rtranclp_into_rtranclp [OF ir_next_step [OF Some] Suc] by simp
  qed simp
qed simp

section \<open>The example\<close>

text \<open>The sum of the numbers from 1 to the argument.\<close>

definition sum_fn :: ir_function where
  "sum_fn = \<lparr>f_name = ''sum'', f_vregs = 4, f_arity = 1, f_receiver = False, f_blocks =
     [\<lparr>b_instrs = [I_Const 2 0, I_Const 3 1], b_term = T_Branch None 1 1\<rparr>,
      \<lparr>b_instrs = [I_Bin Op_Add 2 2 1, I_Bin Op_Sub 1 1 3], b_term = T_Branch (Some 1) 1 2\<rparr>,
      \<lparr>b_instrs = [], b_term = T_Ret (Some 2)\<rparr>]\<rparr>"

definition sum_alloc :: allocation where
  "sum_alloc = \<lparr>al_loc = [In_Reg Rbx, In_Reg R12, In_Reg R13, In_Reg Rbx], al_spills = 0\<rparr>"

definition sum_bytes :: bytes where
  "sum_bytes = [85, 72, 137, 229, 72, 83, 73, 84, 73, 85, 73, 137, 252, 73, 199, 197, 0, 0, 0, 0, 72, 199, 195, 1, 0, 0, 0,
     233, 0, 0, 0, 0, 77, 3, 236, 76, 43, 227, 76, 137, 224, 72, 133, 192, 15, 133, 238, 255, 255, 255, 233, 0, 0, 0, 0,
     76, 137, 232, 73, 93, 73, 92, 72, 91, 201, 195]"

lemma allocate_sum: "allocate sum_fn = Inr sum_alloc"
  by code_simp

lemma emit_sum: "map_sum id e_code (emit_function False sum_fn no_code) = Inr sum_bytes"
  by code_simp

lemma liveness_sum: "liveness (f_blocks sum_fn) = Inr \<lparr>ls_changed = False,
    ls_in = [[1], [1, 2, 3], [2]], ls_out = [[1, 2, 3], [1, 2, 3], []]\<rparr>"
  by code_simp

lemma compilable_sum: "compilable sum_fn"
proof -
  have live: "live (f_blocks sum_fn) v 0 0 \<longleftrightarrow> v = 1" for v
    using liveness_exact_in [OF liveness_sum, of 0 v] by (simp add: sum_fn_def)
  have "wf_function sum_fn"
    by (auto simp: wf_function_def sum_fn_def incoming_def uses_def defs_def uses_and_defs_def term_uses_def term_touches_def succs_def)
  then show ?thesis using live by (simp add: compilable_def params_of_def) (simp add: sum_fn_def)
qed

definition sum_state :: ir_state where "sum_state = \<lparr>vals = (\<lambda>_. 2), store = (\<lambda>_. 0)\<rparr>"

lemma run_sum: "ir_run G (f_blocks sum_fn) 10 (At 0 0, sum_state) =
    (Returned 3, sum_state\<lparr>vals := (vals sum_state)(2 := 3, 3 := 1, 1 := 0)\<rparr>)"
  by (simp add: sum_fn_def sum_state_def set_val_def numeral_eq_Suc fun_eq_iff)

text \<open>A static function that overwrites its second parameter before reading it.\<close>

definition pick_fn :: ir_function where
  "pick_fn = \<lparr>f_name = ''pick'', f_vregs = 3, f_arity = 2, f_receiver = False, f_blocks =
     [\<lparr>b_instrs = [I_Mov 0 1, I_Const 2 7, I_Bin Op_Add 0 0 2], b_term = T_Ret (Some 0)\<rparr>]\<rparr>"

definition pick_bytes :: bytes where
  "pick_bytes = [85, 72, 137, 229, 72, 131, 236, 8, 72, 83, 73, 84, 72, 137, 251, 72, 137, 243, 73, 137, 220,
     72, 199, 195, 7, 0, 0, 0, 76, 3, 227, 76, 137, 224, 73, 92, 72, 91, 201, 195]"

lemma emit_pick: "map_sum id e_code (emit_function False pick_fn no_code) = Inr pick_bytes"
  by code_simp

lemma pick_code: "disassemble 15 0 pick_bytes =
    [(0, Push 5, 1), (1, Mov (Reg 5) (Reg 4), 3), (4, AluImm Sub (Reg 4) 8, 4), (8, Push 3, 2), (10, Push 12, 2),
     (12, Mov (Reg 3) (Reg 7), 3), (15, Mov (Reg 3) (Reg 6), 3), (18, Mov (Reg 12) (Reg 3), 3),
     (21, MovImm (Reg 3) 7, 7), (28, Alu Add (Reg 12) (Reg 3), 3), (31, Mov (Reg 0) (Reg 12), 3),
     (34, Pop 12, 2), (36, Pop 3, 2), (38, Leave, 1), (39, Ret, 1)]"
  by (simp add: pick_bytes_def decode_simps sx8_def)

lemmas pick_steps = listing [OF pick_code, unfolded step_list]

lemma pick_run: "\<exists>a s'. run sys pick_bytes 15 (0, s) = Some (a, s') \<and> regs s' 0 = regs s 6 + 7"
  using pick_steps by (simp add: set_reg_def push_val_def writes_back_def Let_def alu_flags_def flags_of_def)

lemma pick_means: "ir_run G (f_blocks pick_fn) 4 (At 0 0, st) = (Returned (vals st 1 + 7), set_val 0 (vals st 1 + 7) (set_val 2 7 (set_val 0 (vals st 1) st)))"
  by (simp add: pick_fn_def numeral_eq_Suc set_val_def)

section \<open>Properties\<close>



text \<open>
  C14. The allocator reserves one home too few on entry of a function without receiver: when its last parameter is
  overwritten before it is read, its home may be the home of another parameter, and the prologue stores both
  there. This function means its first argument plus 7; its code returns the second argument plus 7.
\<close>

theorem last_parameter_clobbers:
  "map_sum id e_code (emit_function False pick_fn no_code) = Inr pick_bytes \<and>
   arg_val (f_receiver pick_fn) 1 s = regs s 7 \<and>
   (\<exists>st'. ir_steps G (f_blocks pick_fn) (At 0 0, st) (Returned (vals st 1 + 7), st')) \<and>
   (\<exists>a s'. leaves sys pick_bytes (0, s) (a, s') \<and> regs s' 0 = regs s 6 + 7)"
proof (intro conjI)
  show "map_sum id e_code (emit_function False pick_fn no_code) = Inr pick_bytes" by (rule emit_pick)
  show "arg_val (f_receiver pick_fn) 1 s = regs s 7" by (simp add: pick_fn_def arg_val_def arg_place_def ARG_def)
  show "\<exists>st'. ir_steps G (f_blocks pick_fn) (At 0 0, st) (Returned (vals st 1 + 7), st')"
    using ir_run_steps [of G "f_blocks pick_fn" "(At 0 0, st)" 4] unfolding pick_means by blast
  show "\<exists>a s'. leaves sys pick_bytes (0, s) (a, s') \<and> regs s' 0 = regs s 6 + 7"
    using pick_run [of sys s] run_leaves by blast
qed

end
