(* ===== verification/Spec2Isabelle.thy ===== *)
theory Spec2Isabelle
  imports Mc_Serialize Regalloc_Correct Lower Exceptions Allocator Itoa Scan_Int Loader Memory_Pages Elf_Correct Shlib_Hash
    Shlib_Abi Plugin_Correct Compiled_Demo
begin

text \<open>
  The x86-64 Linux back end of the rubyc compiler, a plugin that turns the compiler's intermediate
  representation into machine code and machine code into images.

  The program. \<open>src/lib.rs\<close> exports the entry points of the plugin: lower a program, write an
  executable, write a shared object, run machine code in memory. Lowering (\<open>x86/encode_x64.rs\<close>)
  lays the data section out, allocates registers for each function (\<open>x86/regalloc.rs\<close>), selects
  instructions, patches the branches between blocks, and appends the runtime snippets in use
  (\<open>x86/runtime.rs\<close>). The result is a machine-code record; \<open>mc_serialize.rs\<close> is its byte format,
  in which it crosses the plugin boundary. \<open>x86/elf.rs\<close> and \<open>x86/shlib.rs\<close> place the code and the
  data in an image and apply the relocations; \<open>lib.rs\<close> does the same in memory with the page calls
  of \<open>x86/memory.rs\<close>; \<open>x86/loader.rs\<close> recognises saved bytecode.

  Theories and what they model.
    \<^item> \<open>Prelude\<close>: the result type (\<open>Inl (Fault msg)\<close> for an \<open>Err\<close>, \<open>Inl Panic\<close> for a panic,
      \<open>Inl Diverge\<close> for a loop that does not end), little-endian words, slices, rounding.
      \<open>Utf8\<close>: validation and lossy conversion of the standard library. \<open>Codec\<close>: the byte reader of
      \<open>mc_serialize.rs\<close> and the lemmas by which a reader inverts a writer.
    \<^item> \<open>Target_Types\<close>, \<open>Ir\<close>: the record of machine code and the intermediate representation, as the
      sources use them. \<open>Mc_Serialize\<close>: \<open>encode\<close> and \<open>decode\<close>.
    \<^item> \<open>Regalloc\<close>: the allocator. \<open>Regalloc_Live\<close>: liveness is the path property \<open>live\<close>, and its loop
      ends. \<open>Regalloc_Scan\<close>: the invariant of the linear scan. \<open>Regalloc_Correct\<close>: the properties.
    \<^item> \<open>Emitter\<close>, \<open>Select\<close>, \<open>Build_Argv\<close>, \<open>Encode\<close>, \<open>Lower\<close>: \<open>encode_x64.rs\<close>, from the emission
      primitives to \<open>lower\<close>. Each primitive and each arm of \<open>Emitter::instr\<close> is a function on the
      record \<open>emitter\<close>.
    \<^item> \<open>X86\<close>, \<open>X86_Laws\<close>, \<open>Regions\<close>: a decoder and a step function for the instructions the back end
      emits, and the lemmas to run code on them. This is the specification the byte sequences are
      read against; it models no code of the repository.
    \<^item> \<open>Runtime\<close>: the snippets as bytes. \<open>Runtime_Code\<close>: their disassembly. \<open>Allocator\<close>, \<open>Exceptions\<close>,
      \<open>Decimal\<close>, \<open>Itoa\<close>, \<open>Scan_Int\<close>: what they do on the processor.
    \<^item> \<open>Ir_Semantics\<close>: what the instructions and the blocks of the intermediate representation mean, for
      the part without calls, system calls and floating-point arithmetic. \<open>Code_Runs\<close>: running emitted
      code wherever it stands. \<open>Select_Correct\<close>, \<open>Select_Loops\<close>, \<open>Instr_Correct\<close>: each arm of instruction
      selection does what its instruction means, on the homes of the registers.
    \<^item> \<open>Code_Layout\<close>: the bytes of blocks and branches, before and after patching. \<open>Function_Correct\<close>:
      one step of a function is a run of its code, from a locale that states what the code needs of
      the allocator. \<open>Function_Frame\<close>: prologue and epilogue. \<open>Compiled_Function\<close>, \<open>Compiled_Demo\<close>: the
      parameters, the contract of a call, and an example.
    \<^item> \<open>Image\<close>: byte images, the container constants, and how a segment is mapped. \<open>Elf_Writer\<close>,
      \<open>Elf_Correct\<close>: \<open>elf.rs\<close>. \<open>Shlib\<close>, \<open>Shlib_Write\<close>: \<open>shlib.rs\<close>; \<open>Shlib_Hash\<close>, \<open>Shlib_Layout\<close>,
      \<open>Shlib_Correct\<close>, \<open>Shlib_Abi\<close>: its hash table, its passes, the written library, its calling code.
    \<^item> \<open>Loader\<close>, \<open>Memory_Pages\<close>, \<open>Plugin\<close>, \<open>Plugin_Correct\<close>: \<open>loader.rs\<close>, \<open>memory.rs\<close> and \<open>lib.rs\<close>; running
      code is a list of actions (system calls, stores, the call) on a model of pages.

  What the lemmas show. The byte format is read back exactly, decoding is canonical, and its errors
  and its one panic are characterised. Register allocation ends, liveness is exact, and homes of
  registers live together differ. A compiled function called with its arguments returns what its blocks mean,
  with the registers and the memory of its caller kept. The snippets implement an abstract allocator, a handler stack, and
  the decimal printer and reader. Both image writers fail only where stated; their segments load
  what they should, and relocations reach their symbols. Running in memory never has a page
  writable and executable. Several theorems state what the code does where it differs from its
  comments; each is listed as a finding of the manifest.

  Conventions. Lengths and offsets are \<open>nat\<close> where the code's \<open>usize\<close> arithmetic cannot wrap for a
  buffer that fits memory, words (\<open>u64\<close>, \<open>u32\<close>, \<open>i32\<close>) where values are stored, wrapped or compared;
  overflow checks are on, so an overflowing addition the code performs is a panic. Loops end by
  structure, but for the liveness loop, a \<open>while_option\<close> whose value \<open>None\<close> is the result \<open>Inl Diverge\<close>;
  \<open>liveness_terminates\<close> excludes it. Memory is a function from addresses to bytes; regions are stated apart with
  \<open>sep\<close>.

  Parameters. The kernel (\<open>sys\<close>), the constants of the container format, the names of static symbols,
  the versioned library names, the relocation in memory and the reader of the intermediate
  representation belong to other crates and are arguments of the definitions.

  Not modelled. Module declarations and re-exports (\<open>x86/mod.rs\<close>), the diagnostic dumps to standard
  error, raw-pointer conversions at the plugin boundary, and the inline assembly that issues a
  system call, of which the arguments and the result are modelled.
\<close>

end
